(* ===== verification/Prelude.thy ===== *)
theory Prelude
  imports Complex_Main
begin

text \<open>
  The vocabulary every component theory shares:
  \<^item> the rounding rules of the source's numbers (\<open>Math.round\<close>, \<open>toFixed\<close>, the storage rule
    of a \<open>DECIMAL(p,s)\<close> column);
  \<^item> database tables as lists of rows, and the statements the source issues against them
    (\<open>findFirst\<close>, \<open>count\<close>, \<open>updateMany\<close>, \<open>deleteMany\<close>, \<open>upsert\<close>) as list functions that take
    the source's \<open>where\<close> and \<open>data\<close> clauses as arguments;
  \<^item> the interface \<open>account_table\<close>: a table whose rows carry a key and a quantity that an
    operation changes by a delta;
  \<^item> chains of ledger entries, and the interfaces \<open>ledger_system\<close> and \<open>invariant_system\<close> that
    lift one-step facts to whole runs.
\<close>

named_theorems table_simps "find, count and key lemmas of table statements"
named_theorems money_simps "rounding rules unfolded for evaluation"

section \<open>Numbers\<close>

text \<open>
  A JavaScript number is modelled by the rational it denotes, and \<open>+ - * /\<close> on numbers by the
  exact operations; the roundings the source writes are modelled as written.
  \<open>Math.round\<close> rounds halves up; \<open>Number(x.toFixed(d))\<close> rounds the magnitude, halves up.
  The same half-away-from-zero rule stores a value in a \<open>DECIMAL(p,d)\<close> column.
\<close>

definition js_round :: "rat \<Rightarrow> int" where
  "js_round x = \<lfloor>x + 1 / 2\<rfloor>"

definition to_fixed :: "nat \<Rightarrow> rat \<Rightarrow> rat" where
  "to_fixed d x =
     (if x < 0 then - (of_int \<lfloor>- x * 10 ^ d + 1 / 2\<rfloor> / 10 ^ d)
      else of_int \<lfloor>x * 10 ^ d + 1 / 2\<rfloor> / 10 ^ d)"

abbreviation column :: "nat \<Rightarrow> rat \<Rightarrow> rat" where
  "column d x \<equiv> to_fixed d x"

text \<open>\<open>Number.isInteger\<close>.\<close>

definition is_integer :: "rat \<Rightarrow> bool" where
  "is_integer x \<longleftrightarrow> of_int \<lfloor>x\<rfloor> = x"

text \<open>A value with at most \<open>d\<close> decimal places.\<close>

definition has_scale :: "nat \<Rightarrow> rat \<Rightarrow> bool" where
  "has_scale d x \<longleftrightarrow> (\<exists>c::int. x * 10 ^ d = of_int c)"

lemma is_integer_of_int [simp]: "is_integer (of_int n)"
  by (simp add: is_integer_def)

lemma is_integer_iff: "is_integer x \<longleftrightarrow> (\<exists>n::int. x = of_int n)"
  unfolding is_integer_def by (metis floor_of_int)

lemmas [money_simps] = js_round_def to_fixed_def

lemma has_scaleI: "x = of_int c / 10 ^ d \<Longrightarrow> has_scale d x"
  by (auto simp: has_scale_def)

lemma has_scale_of_int_div [simp, intro]: "has_scale d (of_int c / 10 ^ d)"
  by (rule has_scaleI) simp

lemma has_scaleE:
  assumes "has_scale d x"
  obtains c :: int where "x = of_int c / 10 ^ d"
proof -
  from assms obtain c :: int where "x * 10 ^ d = of_int c"
    by (auto simp: has_scale_def)
  then have "x = of_int c / 10 ^ d"
    by (simp add: field_simps)
  then show ?thesis by (rule that)
qed

lemma has_scale_0 [simp, intro]: "has_scale d 0"
  by (rule has_scaleI [of _ 0]) simp

lemma has_scale_of_int [simp, intro]: "has_scale d (of_int n)"
proof -
  have "of_int n * (10::rat) ^ d = of_int (n * 10 ^ d)" by simp
  then show ?thesis unfolding has_scale_def by blast
qed

lemma has_scale_add [intro]: "has_scale d x \<Longrightarrow> has_scale d y \<Longrightarrow> has_scale d (x + y)"
  unfolding has_scale_def by (metis distrib_right of_int_add)

lemma has_scale_uminus [intro]: "has_scale d x \<Longrightarrow> has_scale d (- x)"
  unfolding has_scale_def by (metis minus_mult_left of_int_minus)

lemma has_scale_diff [intro]: "has_scale d x \<Longrightarrow> has_scale d y \<Longrightarrow> has_scale d (x - y)"
  using has_scale_add [of d x "- y"] by auto

lemma has_scale_mono: "has_scale d x \<Longrightarrow> d \<le> e \<Longrightarrow> has_scale e x"
proof -
  assume "has_scale d x" and "d \<le> e"
  then obtain c :: int where "x * 10 ^ d = of_int c" by (auto simp: has_scale_def)
  moreover from \<open>d \<le> e\<close> have "(10::rat) ^ e = 10 ^ d * 10 ^ (e - d)"
    by (simp flip: power_add)
  ultimately have "x * 10 ^ e = of_int (c * 10 ^ (e - d))"
    by (simp flip: mult.assoc)
  then show ?thesis unfolding has_scale_def by blast
qed

lemma has_scale_to_fixed [simp, intro]: "has_scale d (to_fixed d x)"
proof (cases "x < 0")
  case True
  have "to_fixed d x = of_int (- \<lfloor>- x * 10 ^ d + 1 / 2\<rfloor>) / 10 ^ d"
    using True by (simp add: to_fixed_def)
  then show ?thesis by (rule has_scaleI)
next
  case False
  then show ?thesis by (auto simp: to_fixed_def)
qed

lemma floor_half_of_int [simp]: "\<lfloor>of_int c + (1::rat) / 2\<rfloor> = c"
  by (rule floor_unique) auto

lemma js_round_of_int [simp]: "js_round (of_int c) = c"
  by (simp add: js_round_def)

lemma to_fixed_id: "has_scale d x \<Longrightarrow> to_fixed d x = x"
proof (elim has_scaleE)
  fix c :: int
  assume x: "x = of_int c / 10 ^ d"
  then have "- x * 10 ^ d + 1 / 2 = of_int (- c) + 1 / 2" and "x * 10 ^ d + 1 / 2 = of_int c + 1 / 2"
    by simp_all
  then show ?thesis
    by (simp only: to_fixed_def floor_half_of_int) (simp add: x)
qed

lemma to_fixed_0 [simp]: "to_fixed d 0 = 0"
  by (rule to_fixed_id) simp

lemma to_fixed_idem [simp]: "to_fixed d (to_fixed d x) = to_fixed d x"
  by (rule to_fixed_id) simp

lemma to_fixed_uminus [simp]: "to_fixed d (- x) = - to_fixed d x"
proof (cases "x = 0")
  case False
  then show ?thesis by (simp add: to_fixed_def)
qed simp

lemma to_fixed_minus_commute: "to_fixed d (x - y) = - to_fixed d (y - x)"
  using to_fixed_uminus [of d "y - x"] by simp

lemma to_fixed_nonneg: "0 \<le> x \<Longrightarrow> 0 \<le> to_fixed d x"
  by (simp add: to_fixed_def)

lemma to_fixed_mono: "x \<le> y \<Longrightarrow> to_fixed d x \<le> to_fixed d y"
proof -
  assume le: "x \<le> y"
  consider "0 \<le> x" | "x < 0" "0 \<le> y" | "y < 0" by linarith
  then show ?thesis
  proof cases
    case 1
    with le have "\<lfloor>x * 10 ^ d + 1 / 2\<rfloor> \<le> \<lfloor>y * 10 ^ d + 1 / 2\<rfloor>"
      by (intro floor_mono add_mono mult_right_mono) auto
    then have "(of_int \<lfloor>x * 10 ^ d + 1 / 2\<rfloor> :: rat) / 10 ^ d \<le> of_int \<lfloor>y * 10 ^ d + 1 / 2\<rfloor> / 10 ^ d"
      by (intro divide_right_mono) (auto simp only: of_int_le_iff, simp)
    with 1 le show ?thesis by (simp add: to_fixed_def)
  next
    case 2
    then show ?thesis
      using to_fixed_nonneg [of "- x" d] to_fixed_nonneg [of y d] by simp
  next
    case 3
    with le have "\<lfloor>- y * 10 ^ d + 1 / 2\<rfloor> \<le> \<lfloor>- x * 10 ^ d + 1 / 2\<rfloor>"
      by (intro floor_mono add_mono mult_right_mono) auto
    then have "(of_int \<lfloor>- y * 10 ^ d + 1 / 2\<rfloor> :: rat) / 10 ^ d \<le> of_int \<lfloor>- x * 10 ^ d + 1 / 2\<rfloor> / 10 ^ d"
      by (intro divide_right_mono) (auto simp only: of_int_le_iff, simp)
    with 3 le show ?thesis by (simp add: to_fixed_def)
  qed
qed

lemma to_fixed_nonpos: "x \<le> 0 \<Longrightarrow> to_fixed d x \<le> 0"
  using to_fixed_mono [of x 0 d] by simp

lemma to_fixed_le: "x \<le> y \<Longrightarrow> has_scale d y \<Longrightarrow> to_fixed d x \<le> y"
  using to_fixed_mono [of x y d] by (simp add: to_fixed_id)

lemma to_fixed_ge: "y \<le> x \<Longrightarrow> has_scale d y \<Longrightarrow> y \<le> to_fixed d x"
  using to_fixed_mono [of y x d] by (simp add: to_fixed_id)

text \<open>Rounding moves a value by at most half a unit in the last place.\<close>

lemma to_fixed_error_nonneg:
  assumes "0 \<le> x"
  shows "\<bar>to_fixed d x - x\<bar> \<le> 1 / (2 * 10 ^ d)"
proof -
  define u :: rat where "u = 10 ^ d"
  have u: "0 < u" by (simp add: u_def)
  let ?f = "of_int \<lfloor>x * u + 1 / 2\<rfloor> :: rat"
  have "?f \<le> x * u + 1 / 2" and "x * u + 1 / 2 < ?f + 1" by linarith+
  then have "(?f - x * u) \<le> 1 / 2" and "- 1 / 2 \<le> ?f - x * u" by linarith+
  then have "(?f - x * u) / u \<le> (1 / 2) / u" and "(- 1 / 2) / u \<le> (?f - x * u) / u"
    using u by (simp_all only: divide_right_mono less_imp_le)
  moreover have "(?f - x * u) / u = ?f / u - x" using u by (simp add: field_simps)
  ultimately have "\<bar>?f / u - x\<bar> \<le> 1 / (2 * u)"
    by (simp add: abs_le_iff)
  with assms show ?thesis
    by (simp add: to_fixed_def u_def)
qed

lemma to_fixed_error: "\<bar>to_fixed d x - x\<bar> \<le> 1 / (2 * 10 ^ d)"
proof (cases "0 \<le> x")
  case False
  then show ?thesis using to_fixed_error_nonneg [of "- x" d] by simp
qed (rule to_fixed_error_nonneg)

text \<open>\<open>xs[Math.floor(Math.random() * xs.length)]\<close>.\<close>

definition pick :: "rat \<Rightarrow> 'a list \<Rightarrow> 'a" where
  "pick random xs = xs ! nat \<lfloor>random * of_nat (length xs)\<rfloor>"

lemma pick_mem: "0 \<le> x \<Longrightarrow> x < 1 \<Longrightarrow> xs \<noteq> [] \<Longrightarrow> pick x xs \<in> set xs"
proof -
  assume a: "0 \<le> x" "x < 1" "xs \<noteq> []"
  then have "x * of_nat (length xs) < of_nat (length xs)" by simp
  then have "\<lfloor>x * of_nat (length xs)\<rfloor> < int (length xs)" by (simp add: floor_less_iff)
  moreover have "0 \<le> \<lfloor>x * of_nat (length xs)\<rfloor>" using a by simp
  ultimately show ?thesis unfolding pick_def by (intro nth_mem) linarith
qed

section \<open>Enumerations of the coupon rules and the coupon table\<close>

datatype coupon_scope = Scope_all | Scope_official_only | Scope_hosted_only

datatype renewal_mode = Mode_recurring | Mode_limited | Mode_purchase_only

section \<open>Tables\<close>

text \<open>
  A table is the list of its rows, in insertion order. \<open>findUnique\<close> and \<open>findFirst\<close> return
  the first row that satisfies the \<open>where\<close> clause; where the source relies on a unique column
  there is at most one. \<open>updateMany\<close> and \<open>update\<close> apply the \<open>data\<close> clause to the rows selected.
\<close>

definition find_where :: "('r \<Rightarrow> bool) \<Rightarrow> 'r list \<Rightarrow> 'r option" where
  "find_where P t = find P t"

definition count_where :: "('r \<Rightarrow> bool) \<Rightarrow> 'r list \<Rightarrow> nat" where
  "count_where P t = length (filter P t)"

definition update_where :: "('r \<Rightarrow> bool) \<Rightarrow> ('r \<Rightarrow> 'r) \<Rightarrow> 'r list \<Rightarrow> 'r list" where
  "update_where P f t = map (\<lambda>r. if P r then f r else r) t"

definition delete_where :: "('r \<Rightarrow> bool) \<Rightarrow> 'r list \<Rightarrow> 'r list" where
  "delete_where P t = filter (\<lambda>r. \<not> P r) t"

definition find_key :: "('r \<Rightarrow> 'k) \<Rightarrow> 'k \<Rightarrow> 'r list \<Rightarrow> 'r option" where
  "find_key key k t = find_where (\<lambda>r. key r = k) t"

definition update_key :: "('r \<Rightarrow> 'k) \<Rightarrow> 'k \<Rightarrow> ('r \<Rightarrow> 'r) \<Rightarrow> 'r list \<Rightarrow> 'r list" where
  "update_key key k f t = update_where (\<lambda>r. key r = k) f t"

text \<open>\<open>upsert\<close>: update the row with the key, or insert the row given.\<close>

definition upsert_key :: "('r \<Rightarrow> 'k) \<Rightarrow> 'k \<Rightarrow> ('r \<Rightarrow> 'r) \<Rightarrow> 'r \<Rightarrow> 'r list \<Rightarrow> 'r list" where
  "upsert_key key k f new t =
     (if find_key key k t = None then t @ [new] else update_key key k f t)"

lemmas table_defs =
  find_where_def count_where_def update_where_def delete_where_def
  find_key_def update_key_def upsert_key_def

lemma find_where_None [table_simps]: "find_where P t = None \<longleftrightarrow> (\<forall>r\<in>set t. \<not> P r)"
  by (auto simp: find_where_def find_None_iff)

lemma find_where_SomeD: "find_where P t = Some r \<Longrightarrow> r \<in> set t \<and> P r"
  by (auto simp: find_where_def find_Some_iff)

lemma find_key_SomeD: "find_key key k t = Some r \<Longrightarrow> r \<in> set t \<and> key r = k"
  by (auto simp: find_key_def dest: find_where_SomeD)

lemma find_key_None: "find_key key k t = None \<longleftrightarrow> k \<notin> key ` set t"
  by (auto simp: find_key_def find_where_None)

lemma find_key_Nil [simp]: "find_key key k [] = None"
  by (simp add: table_defs)

lemma find_key_Cons [simp]:
  "find_key key k (r # t) = (if key r = k then Some r else find_key key k t)"
  by (simp add: table_defs)

lemma find_key_append:
  "find_key key k (s @ t) = (case find_key key k s of None \<Rightarrow> find_key key k t | Some r \<Rightarrow> Some r)"
  by (induction s) auto

lemma find_key_distinct: "distinct (map key t) \<Longrightarrow> r \<in> set t \<Longrightarrow> find_key key (key r) t = Some r"
  by (induction t) (auto simp: image_iff)

lemma update_where_Nil [simp]: "update_where P f [] = []"
  by (simp add: update_where_def)

lemma update_where_Cons [simp]:
  "update_where P f (r # t) = (if P r then f r else r) # update_where P f t"
  by (simp add: update_where_def)

lemma update_where_append [simp]:
  "update_where P f (s @ t) = update_where P f s @ update_where P f t"
  by (simp add: update_where_def)

lemma update_where_id: "\<forall>r\<in>set t. \<not> P r \<Longrightarrow> update_where P f t = t"
  by (induction t) auto

lemma length_update_where [simp]: "length (update_where P f t) = length t"
  by (simp add: update_where_def)

lemma set_update_where: "set (update_where P f t) = (\<lambda>r. if P r then f r else r) ` set t"
  by (simp add: update_where_def)

lemma set_update_whereE:
  assumes "s \<in> set (update_where P f t)"
  obtains r where "r \<in> set t" and "s = (if P r then f r else r)"
  using assms by (auto simp: set_update_where)

lemma map_update_where:
  "(\<And>r. P r \<Longrightarrow> g (f r) = g r) \<Longrightarrow> map g (update_where P f t) = map g t"
  by (auto simp: update_where_def)

lemma update_key_Nil [simp]: "update_key key k f [] = []"
  by (simp add: update_key_def)

lemma update_key_Cons [simp]:
  "update_key key k f (r # t) = (if key r = k then f r else r) # update_key key k f t"
  by (simp add: update_key_def)

lemma update_key_append [simp]: "update_key key k f (s @ t) = update_key key k f s @ update_key key k f t"
  by (simp add: update_key_def)

lemma map_update_key:
  "(\<And>r. g (f r) = g r) \<Longrightarrow> map g (update_key key k f t) = map g t"
  by (simp add: update_key_def map_update_where)

lemma set_update_keyE:
  assumes "s \<in> set (update_key key k f t)"
  obtains r where "r \<in> set t" and "s = (if key r = k then f r else r)"
  using assms by (auto simp: update_key_def elim: set_update_whereE)

lemma find_key_update_key:
  "(\<And>r. key (f r) = key r) \<Longrightarrow>
   find_key key k' (update_key key k f t) =
     (if k' = k then map_option f (find_key key k t) else find_key key k' t)"
  by (induction t) auto

lemma find_key_update_other:
  "(\<And>r. key (f r) = key r) \<Longrightarrow> k' \<noteq> k \<Longrightarrow>
   find_key key k' (update_key key k f t) = find_key key k' t"
  by (simp add: find_key_update_key)

lemma update_key_notin: "k \<notin> key ` set t \<Longrightarrow> update_key key k f t = t"
  by (induction t) auto

lemma count_where_0: "count_where P t = 0 \<longleftrightarrow> (\<forall>r\<in>set t. \<not> P r)"
  by (auto simp: count_where_def filter_empty_conv)

lemma count_key_le_1: "distinct (map key t) \<Longrightarrow> count_where (\<lambda>r. key r = k \<and> P r) t \<le> 1"
proof (induction t)
  case (Cons r t)
  then show ?case
  proof (cases "key r = k")
    case True
    with Cons.prems have "\<forall>s\<in>set t. key s \<noteq> k" by (auto simp: image_iff)
    then have "filter (\<lambda>s. key s = k \<and> P s) t = []" by (auto simp: filter_empty_conv)
    then show ?thesis by (simp add: count_where_def)
  qed (simp add: count_where_def)
qed (simp add: count_where_def)

lemma count_key:
  "distinct (map key t) \<Longrightarrow>
   count_where (\<lambda>r. key r = k \<and> P r) t =
     (case find_key key k t of None \<Rightarrow> 0 | Some r \<Rightarrow> if P r then 1 else 0)"
proof (induction t)
  case (Cons r t)
  show ?case
  proof (cases "key r = k")
    case True
    with Cons.prems have "\<forall>s\<in>set t. key s \<noteq> k" by (auto simp: image_iff)
    then have "filter (\<lambda>s. key s = k \<and> P s) t = []" by (auto simp: filter_empty_conv)
    with True show ?thesis by (simp add: count_where_def)
  next
    case False
    with Cons show ?thesis by (simp add: count_where_def)
  qed
qed (simp add: count_where_def)

lemma update_where_key:
  "update_where (\<lambda>r. key r = k \<and> P r) f t = update_key key k (\<lambda>r. if P r then f r else r) t"
  by (auto simp: update_key_def update_where_def)

text \<open>A clause that selects one row of a key.\<close>

lemma update_where_one:
  assumes "distinct (map key t)" "find_key key k t = Some r" "P r" "\<And>x. P x \<Longrightarrow> key x = k"
  shows "update_where P f t = update_key key k f t"
proof -
  have "x = r" if "x \<in> set t" "key x = k" for x
    using find_key_distinct [OF assms(1) that(1)] that(2) assms(2) by simp
  then show ?thesis using assms(3,4) by (auto simp: update_key_def update_where_def)
qed

lemma update_where_only:
  assumes "distinct (map key t)" "find_key key k t = Some r" "P r"
  shows "update_where (\<lambda>r. key r = k \<and> P r) f t = update_key key k f t"
  using assms find_key_SomeD [OF assms(2)] by (intro update_where_one) auto

text \<open>What an update of one row does to a sum over the table.\<close>

lemma sum_update_key:
  fixes g :: "'r \<Rightarrow> 'v::ab_group_add"
  assumes "distinct (map key t)" and "find_key key k t = Some r"
  shows "(\<Sum>s\<leftarrow>update_key key k f t. g s) = (\<Sum>s\<leftarrow>t. g s) + (g (f r) - g r)"
  using assms
proof (induction t)
  case (Cons s t)
  show ?case
  proof (cases "key s = k")
    case True
    with Cons.prems have "s = r" and "k \<notin> key ` set t" by auto
    with True show ?thesis by (simp add: update_key_notin algebra_simps)
  next
    case False
    with Cons show ?thesis by (simp add: algebra_simps)
  qed
qed simp

lemma upsert_key_id:
  "find_key key k t = Some r \<Longrightarrow> (\<And>s. f s = s) \<Longrightarrow> upsert_key key k f new t = t"
  by (auto simp: upsert_key_def update_key_def update_where_def intro!: map_idI)

lemma find_key_upsert:
  assumes "\<And>r. key (f r) = key r" and "key new = k"
  shows "find_key key k' (upsert_key key k f new t) =
    (if k' = k then Some (case find_key key k t of None \<Rightarrow> new | Some r \<Rightarrow> f r)
     else find_key key k' t)"
  using assms
  by (auto simp: upsert_key_def find_key_update_key find_key_append split: option.splits)

lemma distinct_upsert_key:
  assumes "distinct (map key t)" and "\<And>r. key (f r) = key r" and "key new = k"
  shows "distinct (map key (upsert_key key k f new t))"
proof (cases "find_key key k t")
  case None
  with assms show ?thesis by (auto simp: upsert_key_def find_key_None)
next
  case (Some r)
  with assms show ?thesis by (simp add: upsert_key_def map_update_key)
qed

section \<open>Accounts\<close>

text \<open>
  The interface of a table of accounts: each row has a key and a quantity, and \<open>credit d\<close> is the
  \<open>data\<close> clause that changes the quantity of a row by \<open>d\<close> and leaves the key. Every counter the
  source increments and decrements in a row (balances, points, pool resources, host counters,
  use counts) is an instance.
\<close>

locale account_table =
  fixes key :: "'r \<Rightarrow> 'k"
    and amount :: "'r \<Rightarrow> 'v::linordered_ab_group_add"
    and credit :: "'v \<Rightarrow> 'r \<Rightarrow> 'r"
  assumes key_credit: "key (credit d r) = key r"
    and amount_credit: "amount (credit d r) = amount r + d"
begin

lemma keys_credit: "map key (update_key key k (credit d) t) = map key t"
  by (simp add: map_update_key key_credit)

lemma find_credit:
  "find_key key k' (update_key key k (credit d) t) =
     (if k' = k then map_option (credit d) (find_key key k t) else find_key key k' t)"
  by (simp add: find_key_update_key key_credit)

lemma total_credit:
  assumes "distinct (map key t)" and "find_key key k t = Some r"
  shows "(\<Sum>s\<leftarrow>update_key key k (credit d) t. amount s) = (\<Sum>s\<leftarrow>t. amount s) + d"
  using sum_update_key [OF assms, where f = "credit d" and g = amount] by (simp add: amount_credit)

text \<open>The conditional decrement: only a row that holds at least \<open>n\<close> is selected.\<close>

lemma guarded_debit_nonneg:
  assumes "\<forall>r\<in>set t. 0 \<le> amount r"
  shows "\<forall>r\<in>set (update_where (\<lambda>r. key r = k \<and> n \<le> amount r) (credit (- n)) t). 0 \<le> amount r"
  using assms by (auto simp: set_update_where amount_credit)

lemma guarded_debit_count:
  assumes "distinct (map key t)"
  shows "count_where (\<lambda>r. key r = k \<and> n \<le> amount r) t = 1 \<longleftrightarrow>
    (\<exists>r. find_key key k t = Some r \<and> n \<le> amount r)"
  by (simp add: count_key [OF assms] split: option.splits)

lemma guarded_debit_eq:
  assumes "distinct (map key t)" and "find_key key k t = Some r" and "n \<le> amount r"
  shows "update_where (\<lambda>r. key r = k \<and> n \<le> amount r) (credit (- n)) t =
    update_key key k (credit (- n)) t"
proof -
  have "\<forall>s\<in>set t. key s = k \<longrightarrow> s = r"
    using assms(1,2) find_key_distinct [OF assms(1)] by fastforce
  then show ?thesis
    using assms(3) by (auto simp: update_key_def update_where_def)
qed

lemma guarded_debit_refused:
  assumes "distinct (map key t)" and "\<nexists>r. find_key key k t = Some r \<and> n \<le> amount r"
  shows "update_where (\<lambda>r. key r = k \<and> n \<le> amount r) (credit (- n)) t = t"
proof (rule update_where_id, intro ballI notI)
  fix r assume "r \<in> set t" and "key r = k \<and> n \<le> amount r"
  with find_key_distinct [OF assms(1)] assms(2) show False by blast
qed

lemma credit_debit_find:
  assumes "find_key key k t = Some r"
  shows "map_option amount (find_key key k (update_key key k (credit (- d)) (update_key key k (credit d) t)))
    = Some (amount r)"
  using assms by (simp add: find_credit amount_credit)

end

section \<open>Ledgers\<close>

text \<open>
  A ledger entry records the amount before and after a change. \<open>linked a es b\<close>: the entries lead
  from \<open>a\<close> to \<open>b\<close> without a gap.
\<close>

fun linked :: "'v \<Rightarrow> ('v \<times> 'v) list \<Rightarrow> 'v \<Rightarrow> bool" where
  "linked a [] b \<longleftrightarrow> a = b"
| "linked a ((x, y) # es) b \<longleftrightarrow> x = a \<and> linked y es b"

lemma linked_append: "linked a (xs @ ys) c \<longleftrightarrow> (\<exists>b. linked a xs b \<and> linked b ys c)"
  by (induction a xs c rule: linked.induct) auto

lemma linked_sum:
  fixes a :: "'v::ab_group_add"
  shows "linked a es b \<Longrightarrow> a + (\<Sum>(x, y)\<leftarrow>es. y - x) = b"
proof (induction a es b rule: linked.induct)
  case (2 a x y es b)
  then have "y + (\<Sum>(x, y)\<leftarrow>es. y - x) = b" and "x = a" by auto
  then show ?case by (auto simp: algebra_simps)
qed simp

text \<open>
  A ledger is one list of entries for all accounts. \<open>posted a es b\<close>: the entries of every account lead
  from its amount in \<open>a\<close> to its amount in \<open>b\<close>.
\<close>

definition of_account :: "'k \<Rightarrow> ('k \<times> 'v \<times> 'v) list \<Rightarrow> ('v \<times> 'v) list" where
  "of_account k es = map snd (filter (\<lambda>e. fst e = k) es)"

definition posted :: "('k \<Rightarrow> 'v) \<Rightarrow> ('k \<times> 'v \<times> 'v) list \<Rightarrow> ('k \<Rightarrow> 'v) \<Rightarrow> bool" where
  "posted a es b \<longleftrightarrow> (\<forall>k. linked (a k) (of_account k es) (b k))"

lemma of_account_simps [simp]:
  "of_account k [] = []"
  "of_account k ((j, x, y) # es) = (if j = k then (x, y) # of_account k es else of_account k es)"
  "of_account k (es @ fs) = of_account k es @ of_account k fs"
  by (simp_all add: of_account_def)

lemma posted_Nil [simp]: "posted a [] b \<longleftrightarrow> a = b"
  by (auto simp: posted_def)

lemma posted_append: "posted a es b \<Longrightarrow> posted b fs c \<Longrightarrow> posted a (es @ fs) c"
  by (auto simp: posted_def linked_append)

lemma posted_Cons: "posted a ((k, x, y) # es) b \<longleftrightarrow> x = a k \<and> posted (a(k := y)) es b"
proof -
  have "linked (a j) (of_account j ((k, x, y) # es)) (b j) \<longleftrightarrow>
      (j = k \<longrightarrow> x = a k) \<and> linked ((a(k := y)) j) (of_account j es) (b j)" for j
    by auto
  then show ?thesis by (auto simp: posted_def)
qed

text \<open>
  The abstract ledger the money and points operations refine: its one operation sets an account to a
  new amount and writes the entry with the amount it found and the amount it set.
\<close>

inductive post :: "('k \<Rightarrow> 'v) \<times> ('k \<times> 'v \<times> 'v) list \<Rightarrow> ('k \<Rightarrow> 'v) \<times> ('k \<times> 'v \<times> 'v) list \<Rightarrow> bool" where
  post: "post (a, es) (a(k := v), es @ [(k, a k, v)])"

inductive_simps post_simps: "post (a, es) (b, fs)"

lemma posted_refines: "posted a fs b \<Longrightarrow> post\<^sup>*\<^sup>* (a, es) (b, es @ fs)"
proof (induction fs arbitrary: a es)
  case (Cons f fs)
  obtain k x y where f: "f = (k, x, y)" by (cases f)
  with Cons.prems have x: "x = a k" and "posted (a(k := y)) fs b" by (simp_all add: posted_Cons)
  then have "post\<^sup>*\<^sup>* (a(k := y), es @ [f]) (b, (es @ [f]) @ fs)" by (intro Cons.IH)
  moreover have "post (a, es) (a(k := y), es @ [f])" by (simp add: f x post)
  ultimately show ?case by (simp add: converse_rtranclp_into_rtranclp)
qed simp

lemma post_run_posted: "post\<^sup>*\<^sup>* (a, es) (b, fs) \<Longrightarrow> \<exists>gs. fs = es @ gs \<and> posted a gs b"
proof (induction "(b, fs)" arbitrary: b fs rule: rtranclp_induct)
  case base
  then show ?case by simp
next
  case (step x)
  obtain c gs where x: "x = (c, gs)" by (cases x)
  from step.hyps(3) [OF x] obtain hs where h: "gs = es @ hs" "posted a hs c" by blast
  from step.hyps(2) obtain k v where b: "b = c(k := v)" "fs = gs @ [(k, c k, v)]"
    by (auto simp: x post_simps)
  have "posted c [(k, c k, v)] b" by (simp add: posted_Cons b(1))
  with h(2) have "posted a (hs @ [(k, c k, v)]) b" by (rule posted_append)
  with b(2) h(1) show ?case by (intro exI [of _ "hs @ [(k, c k, v)]"]) simp
qed

lemma posted_sum:
  fixes a :: "'k \<Rightarrow> 'v::ab_group_add"
  shows "posted a es b \<Longrightarrow> b k = a k + (\<Sum>(x, y)\<leftarrow>of_account k es. y - x)"
  by (auto simp: posted_def dest!: spec [of _ k] linked_sum)

text \<open>
  A step system whose every step appends entries that account for the change of every account.
\<close>

locale ledger_system =
  fixes step :: "'s \<Rightarrow> 's \<Rightarrow> bool"
    and cur :: "'s \<Rightarrow> 'k \<Rightarrow> 'v::ab_group_add"
    and entries :: "'s \<Rightarrow> ('k \<times> 'v \<times> 'v) list"
  assumes step_posted: "step s s' \<Longrightarrow> \<exists>es. entries s' = entries s @ es \<and> posted (cur s) es (cur s')"
begin

lemma run_posted: "step\<^sup>*\<^sup>* s s' \<Longrightarrow> \<exists>es. entries s' = entries s @ es \<and> posted (cur s) es (cur s')"
proof (induction rule: rtranclp_induct)
  case (step s' s'')
  then obtain es fs where "entries s' = entries s @ es" "posted (cur s) es (cur s')"
    and "entries s'' = entries s' @ fs" "posted (cur s') fs (cur s'')"
    using step_posted by blast
  then have "entries s'' = entries s @ (es @ fs) \<and> posted (cur s) (es @ fs) (cur s'')"
    by (auto intro: posted_append)
  then show ?case by blast
qed simp

lemma run_refines: "step\<^sup>*\<^sup>* s s' \<Longrightarrow> post\<^sup>*\<^sup>* (cur s, entries s) (cur s', entries s')"
  using run_posted posted_refines by metis

lemma run_sum:
  assumes "step\<^sup>*\<^sup>* s s'"
  shows "\<exists>es. entries s' = entries s @ es
    \<and> (\<forall>k. linked (cur s k) (of_account k es) (cur s' k)
         \<and> cur s' k = cur s k + (\<Sum>(x, y)\<leftarrow>of_account k es. y - x))"
proof -
  from run_posted [OF assms] obtain es where e: "entries s' = entries s @ es" "posted (cur s) es (cur s')" by blast
  have "linked (cur s k) (of_account k es) (cur s' k)" for k using e(2) by (simp add: posted_def)
  then show ?thesis using e(1) posted_sum [OF e(2)] by blast
qed

end

text \<open>A step system with an invariant.\<close>

locale invariant_system =
  fixes step :: "'s \<Rightarrow> 's \<Rightarrow> bool"
    and inv :: "'s \<Rightarrow> bool"
  assumes inv_step: "step s s' \<Longrightarrow> inv s \<Longrightarrow> inv s'"
begin

lemma inv_run: "step\<^sup>*\<^sup>* s s' \<Longrightarrow> inv s \<Longrightarrow> inv s'"
  by (induction rule: rtranclp_induct) (auto intro: inv_step)

end

end
