(* ===== verification/HourlyBilling.thy ===== *)
theory HourlyBilling
  imports Prelude
begin

text \<open>
  Pay-per-hour prices: \<open>server/src/lib/hourly-billing.ts\<close>. The arithmetic of the decimal library is
  not part of the repository: each of its operations rounds the exact result with a function \<open>dec\<close>
  (to the library's precision), which is a parameter of the definitions; what a statement needs of
  \<open>dec\<close> (that it keeps the results at hand) is a hypothesis.
\<close>

section \<open>Pricing\<close>

record pricing =
  hp_cpuUnitPercent :: int
  hp_memoryUnitMb :: int
  hp_diskUnitMb :: int
  hp_minCpu :: int
  hp_minMemoryMb :: int
  hp_minDiskMb :: int
  hp_cpuPricePerUnit :: rat
  hp_memoryPricePerUnit :: rat
  hp_diskPricePerUnit :: rat
  hp_reserveQuantum :: rat

record package_plan =
  pp_hourlyCpuUnitPercent :: int
  pp_hourlyMemoryUnitMb :: int
  pp_hourlyDiskUnitMb :: int
  pp_hourlyMinCpu :: int
  pp_hourlyMinMemoryMb :: int
  pp_hourlyMinDiskMb :: int
  pp_hourlyCpuPricePerUnit :: rat
  pp_hourlyMemoryPricePerUnit :: rat
  pp_hourlyDiskPricePerUnit :: rat
  pp_hourlyReserveQuantum :: rat

definition hourlyPricingFromPackagePlan :: "package_plan \<Rightarrow> pricing" where
  "hourlyPricingFromPackagePlan plan =
     \<lparr>hp_cpuUnitPercent = pp_hourlyCpuUnitPercent plan,
      hp_memoryUnitMb = pp_hourlyMemoryUnitMb plan,
      hp_diskUnitMb = pp_hourlyDiskUnitMb plan,
      hp_minCpu = pp_hourlyMinCpu plan,
      hp_minMemoryMb = pp_hourlyMinMemoryMb plan,
      hp_minDiskMb = pp_hourlyMinDiskMb plan,
      hp_cpuPricePerUnit = pp_hourlyCpuPricePerUnit plan,
      hp_memoryPricePerUnit = pp_hourlyMemoryPricePerUnit plan,
      hp_diskPricePerUnit = pp_hourlyDiskPricePerUnit plan,
      hp_reserveQuantum = pp_hourlyReserveQuantum plan\<rparr>"

record resources =
  hr_cpu :: rat
  hr_memory :: rat
  hr_disk :: rat

text \<open>The texts of \<open>HourlyResourceValidationError\<close> (and of the plain error for a bad quantum).\<close>

datatype hourly_error =
    Must_be_at_least string int
  | Must_increase_in_steps string int int
  | Is_too_large string
  | Bad_active_seconds
  | Bad_reserve_quantum

definition assertResource :: "rat \<Rightarrow> int \<Rightarrow> int \<Rightarrow> string \<Rightarrow> hourly_error + unit" where
  "assertResource value min_value step label =
     (if \<not> is_integer value \<or> value < of_int min_value then Inl (Must_be_at_least label min_value)
      else if step \<le> 0 \<or> (\<lfloor>value\<rfloor> - min_value) mod step \<noteq> 0
      then Inl (Must_increase_in_steps label step min_value)
      else Inr ())"

definition validateHourlyResources :: "resources \<Rightarrow> pricing \<Rightarrow> hourly_error + unit" where
  "validateHourlyResources r p =
     (case assertResource (hr_cpu r) (hp_minCpu p) (hp_cpuUnitPercent p) ''CPU'' of Inl e \<Rightarrow> Inl e | Inr _ \<Rightarrow>
      case assertResource (hr_memory r) (hp_minMemoryMb p) (hp_memoryUnitMb p) ''Memory'' of Inl e \<Rightarrow> Inl e | Inr _ \<Rightarrow>
      case assertResource (hr_disk r) (hp_minDiskMb p) (hp_diskUnitMb p) ''Disk'' of Inl e \<Rightarrow> Inl e | Inr _ \<Rightarrow>
      if hr_cpu r > 10000 then Inl (Is_too_large ''CPU'')
      else if hr_memory r > 524288 then Inl (Is_too_large ''Memory'')
      else if hr_disk r > 104857600 then Inl (Is_too_large ''Disk'')
      else Inr ())"

record breakdown =
  hb_cpuUnits :: rat
  hb_memoryUnits :: rat
  hb_diskUnits :: rat
  hb_cpuAmount :: rat
  hb_memoryAmount :: rat
  hb_diskAmount :: rat
  hb_hourlyPrice :: rat

definition calculateHourlyBreakdown ::
    "(rat \<Rightarrow> rat) \<Rightarrow> resources \<Rightarrow> pricing \<Rightarrow> hourly_error + breakdown" where
  "calculateHourlyBreakdown dec r p =
     (case validateHourlyResources r p of Inl e \<Rightarrow> Inl e | Inr _ \<Rightarrow>
      let cpuUnitsDecimal = dec (hr_cpu r / of_int (hp_cpuUnitPercent p));
          memoryUnitsDecimal = dec (hr_memory r / of_int (hp_memoryUnitMb p));
          diskUnitsDecimal = dec (hr_disk r / of_int (hp_diskUnitMb p));
          cpuAmount = dec (cpuUnitsDecimal * hp_cpuPricePerUnit p);
          memoryAmount = dec (memoryUnitsDecimal * hp_memoryPricePerUnit p);
          diskAmount = dec (diskUnitsDecimal * hp_diskPricePerUnit p) in
      Inr \<lparr>hb_cpuUnits = cpuUnitsDecimal, hb_memoryUnits = memoryUnitsDecimal,
           hb_diskUnits = diskUnitsDecimal, hb_cpuAmount = cpuAmount,
           hb_memoryAmount = memoryAmount, hb_diskAmount = diskAmount,
           hb_hourlyPrice = dec (dec (cpuAmount + memoryAmount) + diskAmount)\<rparr>)"

definition calculateHourlyCost :: "(rat \<Rightarrow> rat) \<Rightarrow> rat \<Rightarrow> rat \<Rightarrow> hourly_error + rat" where
  "calculateHourlyCost dec hourlyPrice activeSeconds =
     (if \<not> is_integer activeSeconds \<or> activeSeconds < 0 then Inl Bad_active_seconds
      else Inr (dec (dec (hourlyPrice * activeSeconds) / 3600)))"

definition ceilToQuantum :: "(rat \<Rightarrow> rat) \<Rightarrow> rat \<Rightarrow> rat \<Rightarrow> hourly_error + rat" where
  "ceilToQuantum dec amount quantum =
     (if quantum \<le> 0 then Inl Bad_reserve_quantum
      else if amount \<le> 0 then Inr 0
      else Inr (dec (of_int \<lceil>dec (amount / quantum)\<rceil> * quantum)))"

section \<open>Lemmas\<close>

text \<open>A resource passes when it is the minimum plus a whole number of positive steps.\<close>

lemma assertResource_ok:
  "assertResource v m step l = Inr () \<longleftrightarrow> 0 < step \<and> (\<exists>k::nat. v = of_int (m + int k * step))"
proof
  assume "assertResource v m step l = Inr ()"
  then have i: "is_integer v" and m: "of_int m \<le> v" and st: "0 < step" and d: "(\<lfloor>v\<rfloor> - m) mod step = 0"
    by (auto simp: assertResource_def split: if_splits)
  from i obtain n where n: "v = of_int n" by (auto simp: is_integer_iff)
  with d obtain k where k: "n - m = step * k" by auto
  with n m have "0 \<le> step * k" by simp
  with st have "0 \<le> k" by (simp add: zero_le_mult_iff)
  then have "n = m + int (nat k) * step" using k by (simp add: algebra_simps)
  then show "0 < step \<and> (\<exists>k::nat. v = of_int (m + int k * step))" using st n by blast
next
  assume "0 < step \<and> (\<exists>k::nat. v = of_int (m + int k * step))"
  then obtain k :: nat where st: "0 < step" and v: "v = of_int (m + int k * step)" by blast
  have "is_integer v" "\<lfloor>v\<rfloor> = m + int k * step" unfolding v by (simp_all only: is_integer_of_int floor_of_int)
  moreover have "of_int m \<le> v" unfolding v of_int_le_iff using st by simp
  ultimately show "assertResource v m step l = Inr ()" using st by (simp add: assertResource_def)
qed

lemma assert_isl: "(case assertResource v m step l of Inl e \<Rightarrow> Inl e | Inr _ \<Rightarrow> rest) = Inr u \<longleftrightarrow>
  assertResource v m step l = Inr () \<and> rest = Inr u"
  by (cases "assertResource v m step l") auto

lemma validate_ok:
  "validateHourlyResources r p = Inr () \<longleftrightarrow>
     assertResource (hr_cpu r) (hp_minCpu p) (hp_cpuUnitPercent p) ''CPU'' = Inr () \<and>
     assertResource (hr_memory r) (hp_minMemoryMb p) (hp_memoryUnitMb p) ''Memory'' = Inr () \<and>
     assertResource (hr_disk r) (hp_minDiskMb p) (hp_diskUnitMb p) ''Disk'' = Inr () \<and>
     hr_cpu r \<le> 10000 \<and> hr_memory r \<le> 524288 \<and> hr_disk r \<le> 104857600"
  unfolding validateHourlyResources_def assert_isl by (auto simp: not_less)

section \<open>Properties\<close>

text \<open>An hourly order is priced exactly when each resource is its minimum plus a whole number of
  positive steps and within the caps; then, where the decimal arithmetic is exact, the price is the sum
  of the three resources' units times their unit prices, and it is at least the price of the minimum
  order when prices are not negative.\<close>

theorem hourly_price_exact:
  assumes "\<And>x. dec x = x"
  shows "(\<exists>b. calculateHourlyBreakdown dec r p = Inr b
       \<and> hb_hourlyPrice b = hr_cpu r / of_int (hp_cpuUnitPercent p) * hp_cpuPricePerUnit p
           + hr_memory r / of_int (hp_memoryUnitMb p) * hp_memoryPricePerUnit p
           + hr_disk r / of_int (hp_diskUnitMb p) * hp_diskPricePerUnit p)
    \<longleftrightarrow> 0 < hp_cpuUnitPercent p \<and> 0 < hp_memoryUnitMb p \<and> 0 < hp_diskUnitMb p
      \<and> (\<exists>k::nat. hr_cpu r = of_int (hp_minCpu p + int k * hp_cpuUnitPercent p))
      \<and> (\<exists>k::nat. hr_memory r = of_int (hp_minMemoryMb p + int k * hp_memoryUnitMb p))
      \<and> (\<exists>k::nat. hr_disk r = of_int (hp_minDiskMb p + int k * hp_diskUnitMb p))
      \<and> hr_cpu r \<le> 10000 \<and> hr_memory r \<le> 524288 \<and> hr_disk r \<le> 104857600"
    (is "_ \<longleftrightarrow> ?ok")
proof -
  have "validateHourlyResources r p = Inr () \<longleftrightarrow> ?ok"
    unfolding validate_ok assertResource_ok by blast
  then show ?thesis
    by (cases "validateHourlyResources r p") (auto simp: calculateHourlyBreakdown_def assms Let_def)
qed

definition plan_1 :: pricing where
  "plan_1 = \<lparr>hp_cpuUnitPercent = 25, hp_memoryUnitMb = 128, hp_diskUnitMb = 1024, hp_minCpu = 25,
     hp_minMemoryMb = 128, hp_minDiskMb = 1024, hp_cpuPricePerUnit = 1 / 1000,
     hp_memoryPricePerUnit = 1 / 2000, hp_diskPricePerUnit = 1 / 4000, hp_reserveQuantum = 1 / 100\<rparr>"

theorem hourly_price_exact_witness:
  "\<exists>b. calculateHourlyBreakdown (\<lambda>x. x) \<lparr>hr_cpu = 100, hr_memory = 512, hr_disk = 10240\<rparr> plan_1 = Inr b
     \<and> hb_hourlyPrice b = 17 / 2000"
  using hourly_price_exact [of "\<lambda>x. x" "\<lparr>hr_cpu = 100, hr_memory = 512, hr_disk = 10240\<rparr>" plan_1]
  by (auto simp: plan_1_def intro: exI [of _ "3::nat"] exI [of _ "9::nat"])

text \<open>A reservation is rounded up to the least multiple of the quantum: where the decimal arithmetic
  keeps the quotient and the product, the result is a multiple of the quantum, covers the amount,
  exceeds it by less than a quantum, and every other nonnegative multiple that covers it is at least as large.\<close>

theorem reservation_least_multiple:
  assumes "0 < q" and "dec (amount / q) = amount / q" and "\<And>n::int. dec (of_int n * q) = of_int n * q"
  shows "\<exists>(k::int) \<ge> 0. ceilToQuantum dec amount q = Inr (of_int k * q)
    \<and> amount \<le> of_int k * q \<and> of_int k * q < max amount 0 + q
    \<and> (\<forall>(j::int) \<ge> 0. amount \<le> of_int j * q \<longrightarrow> of_int k * q \<le> of_int j * q)"
proof (cases "amount \<le> 0")
  case True
  with assms(1) show ?thesis by (intro exI [of _ 0]) (auto simp: ceilToQuantum_def)
next
  case False
  let ?k = "\<lceil>amount / q\<rceil>"
  have pos: "0 < amount / q" using False assms(1) by simp
  have up: "amount / q \<le> of_int ?k" "of_int ?k < amount / q + 1" by linarith+
  have le: "amount \<le> of_int ?k * q"
    using up(1) unfolding pos_divide_le_eq [OF assms(1)] .
  have "of_int ?k * q < (amount / q + 1) * q" using up(2) assms(1) by (rule mult_strict_right_mono)
  then have less: "of_int ?k * q < amount + q" using assms(1) by (simp add: distrib_right)
  have "?k \<le> j" if "amount \<le> of_int j * q" for j
    using that assms(1) by (simp add: ceiling_le_iff field_simps)
  then have "\<forall>(j::int) \<ge> 0. amount \<le> of_int j * q \<longrightarrow> of_int ?k * q \<le> of_int j * q"
    using assms(1) by (simp add: mult_right_mono)
  moreover have "0 \<le> ?k" using pos by linarith
  ultimately show ?thesis
    using le less False assms by (intro exI [of _ ?k]) (simp add: ceilToQuantum_def)
qed

theorem reservation_least_multiple_witness:
  "\<exists>(k::int) \<ge> 0. ceilToQuantum (\<lambda>x. x) (123 / 10000) (1 / 100) = Inr (of_int k * (1 / 100))
     \<and> 123 / 10000 \<le> of_int k * (1 / 100 :: rat) \<and> of_int k * (1 / 100 :: rat) < 223 / 10000"
  using reservation_least_multiple [of "1 / 100" "\<lambda>x. x" "123 / 10000"] by auto

end
