(* ===== verification/Database.thy ===== *)
theory Database
  imports Prelude HourlyBilling
begin

text \<open>
  The tables of \<open>server/prisma/schema.prisma\<close> that the modelled operations read or write, as
  records of the columns they use, and the database as one record of tables. Times are
  milliseconds since the epoch. Text that the source builds for people to read (log remarks) is a
  datatype with one constructor per template. An operation that runs in a transaction maps a
  database to \<open>Inl e\<close> (it threw, and the database keeps its old state) or \<open>Inr (result, db)\<close>.
\<close>

section \<open>Enumerations\<close>

datatype user_role = R_admin | R_user

datatype user_status = U_active | U_banned

datatype balance_log_type =
    BL_recharge | BL_consume | BL_refund | BL_admin_adjust | BL_gift | BL_transfer_fee
  | BL_transfer_refund | BL_balance_transfer_out | BL_balance_transfer_in
  | BL_balance_transfer_fee | BL_hosting_withdraw | BL_hosting_deduction | BL_invite_generate
  | BL_hourly_reserve | BL_hourly_release | BL_hourly_consume

datatype points_log_type =
    PL_convert | PL_lottery_win | PL_lottery_spend | PL_admin_adjust | PL_checkin
  | PL_badge_draw_spend | PL_badge_select_spend | PL_invite_generate | PL_vip_benefit

datatype pool_action =
    PA_checkin | PA_redeem | PA_admin_grant | PA_system_grant | PA_lottery | PA_apply
  | PA_refund | PA_system_redeem

datatype code_type = CT_c | CT_r | CT_d | CT_t | CT_p

datatype prize_type =
    PZ_nothing | PZ_points | PZ_balance | PZ_badge | PZ_instance
  | PZ_cpu | PZ_memory | PZ_disk | PZ_traffic

datatype record_status = LR_pending | LR_delivered | LR_claimed

datatype friendship_status = FS_pending | FS_accepted | FS_rejected | FS_removed

datatype transfer_status =
    TS_pending | TS_processing | TS_accepted | TS_rejected | TS_cancelled

datatype task_status = TK_pending | TK_processing | TK_completed | TK_failed

datatype task_type =
    TT_start | TT_stop | TT_restart | TT_rebuild | TT_clone | TT_recreate | TT_change_host

datatype instance_status =
    IS_creating | IS_running | IS_stopped | IS_suspended | IS_error | IS_deleted

datatype billing_mode = BM_package | BM_hourly

datatype recharge_status =
    RS_pending | RS_paid | RS_completed | RS_failed | RS_cancelled | RS_refunded

datatype billing_type =
    BT_newPurchase | BT_renew | BT_upgrade | BT_downgrade | BT_refund | BT_transfer_fee

datatype hosting_type = HT_income | HT_unfreeze | HT_withdraw | HT_deduction

datatype hosting_action =
    HA_purchase | HA_renew | HA_upgrade | HA_destroy | HA_unfreeze | HA_withdraw
  | HA_admin_adjust | HA_hourly

datatype hourly_status = HS_active | HS_paused | HS_suspended | HS_closed

datatype hourly_record_status = HR_paid | HR_pending

datatype usage_type = UT_purchase | UT_renewal

datatype aff_log_type = AL_new_purchase | AL_renew | AL_refund | AL_convert

datatype aff_withdrawal_status = AW_pending | AW_approved | AW_rejected

section \<open>Errors and remarks\<close>

text \<open>Messages of the source that are not ASCII text.\<close>

datatype message =
    M_user_missing | M_balance_too_low | M_being_deleted | M_not_suspended
  | M_points_account_missing | M_points_too_low | M_points_negative | M_nothing_to_convert
  | M_lottery_missing | M_lottery_closed | M_lottery_not_started | M_lottery_ended
  | M_lottery_empty | M_lottery_out_of_stock | M_no_storage_pool | M_prize_setup
  | M_lease_expired | M_lease_revoked | M_recovered bool | M_cancelled_by_user | M_text string
  | M_invalid_rollback string rat | M_host_missing_on_release int | M_counters_too_low int
  | M_host_cpu_exceeded int int | M_host_memory_exceeded int int | M_host_ports_exceeded int int
  | M_hosting_busy | M_unfreeze_busy | M_unfreeze_conflict | M_user_vanished int
  | M_not_renewable_free | M_months_range | M_manually_suspended | M_status_not_renewable
  | M_instance_changed | M_free_no_change | M_plan_missing | M_status_no_change | M_other_package
  | M_plan_inactive | M_plan_sold_out | M_same_plan | M_days_insufficient | M_cannot_change
  | M_unpaid_traffic | M_top_up_needed rat | M_coupon_refused string
  | M_hourly hourly_error
  | M_order_missing | M_order_state recharge_status | M_order_changed
  | M_aff_too_low | M_aff_minimum | M_aff_disabled | M_aff_code_failed | M_aff_plan_unpaid | M_aff_not_bought
  | M_aff_code_exists | M_aff_code_missing | M_aff_not_owner | M_aff_code_used | M_aff_code_bound
  | M_aff_code_off | M_aff_other_plan | M_aff_own_code | M_withdrawal_missing | M_withdrawal_done

text \<open>
  What a call throws: an \<open>Error\<close> with a text, the client library's errors for a missing record
  (\<open>P2025\<close>), a violated unique index (\<open>P2002\<close>) and a serialization conflict (\<open>P2034\<close>), a busy
  advisory lock.
\<close>

datatype exn =
    Error string
  | Failure message
  | RecordNotFound
  | UniqueViolation
  | WriteConflict
  | LockBusy int int

datatype remark =
    Text string
  | R_transfer_to string
  | R_transfer_fee
  | R_transfer_from string
  | R_recharge_order string
  | R_recharge rat
  | R_convert rat int
  | R_draw_cost int
  | R_draw_spent string
  | R_draw_win string
  | R_checkin
  | R_transfer_instance_fee string
  | R_transfer_rejected string
  | R_transfer_cancelled string
  | R_invite string
  | R_destroy_refund string
  | R_badge_draw string
  | R_badge_multi int
  | R_badge_select string
  | R_destroyed_refund string bool rat
  | R_provision_refund string string
  | R_hourly_provision_release string string
  | R_hosting_income hosting_action
  | R_hosting_deducted remark rat rat rat
  | R_hosting_shortfall
  | R_destroy_deduction string
  | R_delete_deduction string
  | R_provision_deduction string
  | R_downgrade_deduction string
  | R_renewal int string "(bool \<times> string \<times> rat) option"
  | R_upgrade string string
  | R_downgrade string string
  | R_hourly_top_up rat
  | R_hourly_cost rat
  | R_hourly_start rat
  | R_hourly_resume rat
  | R_hourly_arrears rat
  | R_hourly_stopped rat
  | R_hourly_destroyed rat
  | R_aff_commission bool
  | R_aff_reversal int
  | R_aff_convert int
  | R_aff_to_balance int

type_synonym 'a outcome = "exn + 'a"

section \<open>Rows\<close>

record user =
  u_id :: int
  u_username :: string
  u_email :: "string option"
  u_avatarStyle :: string
  u_avatarBadgeId :: "string option"
  u_status :: user_status
  u_balance :: rat
  u_role :: user_role
  u_hostingBalance :: rat
  u_hourlyReserved :: rat
  u_affBalance :: rat

record user_quota =
  uq_userId :: int
  uq_hostLimit :: int
  uq_hostUsed :: int
  uq_friendLimit :: int
  uq_friendUsed :: int
  uq_packageLimit :: int
  uq_packageUsed :: int

record user_points =
  up_userId :: int
  up_points :: int
  up_totalEarned :: int
  up_totalSpent :: int
  up_lastConvertedAt :: "int option"
  up_convertedConsume :: rat

record points_log =
  pl_userId :: int
  pl_type :: points_log_type
  pl_amount :: int
  pl_before :: int
  pl_after :: int
  pl_relatedId :: "int option"
  pl_remark :: "remark option"

record balance_log =
  bl_userId :: int
  bl_type :: balance_log_type
  bl_amount :: rat
  bl_before :: rat
  bl_after :: rat
  bl_orderId :: "string option"
  bl_instanceId :: "int option"
  bl_transferId :: "int option"
  bl_remark :: "remark option"

record resource_pool =
  rp_userId :: int
  rp_cpu :: int
  rp_memory :: int
  rp_disk :: int
  rp_traffic :: int

record pool_log =
  rl_userId :: int
  rl_action :: pool_action
  rl_type :: code_type
  rl_amount :: int
  rl_instanceId :: "int option"
  rl_remark :: "remark option"

record checkin_stats =
  cs_userId :: int
  cs_lastCheckin :: "int option"
  cs_lastRedeem :: "int option"
  cs_othersUse :: int
  cs_selfOnly :: bool

record checkin_record =
  cr_id :: int
  cr_userId :: int
  cr_usedAt :: "int option"
  cr_usedBy :: "int option"
  cr_usedFor :: "int option"

record lottery =
  lo_id :: int
  lo_name :: string
  lo_costPoints :: int
  lo_isActive :: bool
  lo_startAt :: "int option"
  lo_endAt :: "int option"

record prize =
  pz_id :: int
  pz_lotteryId :: int
  pz_name :: string
  pz_type :: prize_type
  pz_value :: int
  pz_probability :: rat
  pz_total :: "int option"
  pz_remain :: "int option"
  pz_instanceDesc :: "string option"

record lottery_record =
  lr_id :: int
  lr_lotteryId :: int
  lr_prizeId :: int
  lr_userId :: int
  lr_prizeType :: prize_type
  lr_prizeValue :: int
  lr_prizeName :: string
  lr_status :: record_status
  lr_pointsSpent :: int
  lr_deliveredAt :: "int option"
  lr_deliveredBy :: "int option"
  lr_ticketId :: "int option"

record badge =
  bg_id :: string
  bg_fullLabel :: string
  bg_isActive :: bool
  bg_seriesActive :: bool

record badge_ownership =
  bo_userId :: int
  bo_badgeId :: string
  bo_source :: string

record redeem_code =
  rc_id :: int
  rc_hostId :: int
  rc_type :: code_type
  rc_value :: int
  rc_maxUses :: int
  rc_usedCount :: int
  rc_expiresAt :: "int option"
  rc_enabled :: bool
  rc_remark :: "string option"
  rc_batchId :: "string option"

record code_usage =
  cu_id :: int
  cu_codeId :: int
  cu_userId :: int
  cu_instanceId :: int
  cu_batchId :: "string option"

record friendship =
  fr_id :: int
  fr_userId :: int
  fr_friendId :: int
  fr_status :: friendship_status
  fr_remark :: "string option"
  fr_acceptedAt :: "int option"
  fr_rejectedAt :: "int option"

record cleanup_snapshot =
  sn_proxySiteIds :: "int list"
  sn_portMappingIds :: "int list"
  sn_snapshotIds :: "int list"
  sn_backupIds :: "int list"
  sn_snapshotPolicyIds :: "int list"
  sn_backupPolicyIds :: "int list"

record transfer =
  tf_id :: int
  tf_instanceId :: int
  tf_fromUserId :: int
  tf_toUserId :: int
  tf_status :: transfer_status
  tf_remark :: "string option"
  tf_rejectReason :: "string option"
  tf_fee :: "rat option"
  tf_claimToken :: "string option"
  tf_claimExpiresAt :: "int option"
  tf_phase :: "string option"
  tf_oldIncusId :: "string option"
  tf_newIncusId :: "string option"
  tf_instanceVersion :: "int option"
  tf_cleanup :: "cleanup_snapshot option"
  tf_refundedAt :: "int option"
  tf_acceptedAt :: "int option"
  tf_rejectedAt :: "int option"
  tf_cancelledAt :: "int option"

record instance_row =
  i_id :: int
  i_incusId :: string
  i_name :: string
  i_userId :: int
  i_hostId :: int
  i_packagePlanId :: "int option"
  i_billingMode :: billing_mode
  i_status :: instance_status
  i_cleanupPending :: bool
  i_portLimit :: "int option"
  i_snapshotLimit :: "int option"
  i_backupLimit :: "int option"
  i_expiresAt :: "int option"
  i_suspendedAt :: "int option"
  i_suspendedBy :: "int option"
  i_suspendReason :: "string option"
  i_autoRenew :: bool
  i_autoRenewAttempts :: int
  i_lastAutoRenewAt :: "int option"
  i_expiryNotifiedAt :: "int option"
  i_version :: int
  i_displayOrder :: int
  i_packageId :: "int option"
  i_billingPrice :: "rat option"
  i_billingCycle :: "int option"
  i_cpu :: int
  i_memory :: int
  i_disk :: int
  i_deletionPending :: bool
  i_remoteDeleted :: bool
  i_deletionMode :: "string option"
  i_deletionValue :: "rat option"
  i_feeWaiver :: bool

record task =
  tk_id :: int
  tk_instanceId :: int
  tk_hostId :: int
  tk_userId :: int
  tk_type :: task_type
  tk_status :: task_status
  tk_progress :: "string option"
  tk_imageAlias :: "string option"
  tk_sshKeyId :: "int option"
  tk_initCommandIds :: "int list option"
  tk_targetName :: "string option"
  tk_targetHostId :: "int option"
  tk_snapshotName :: "string option"
  tk_newInstanceId :: "int option"
  tk_error :: "message option"
  tk_token :: "string option"
  tk_leaseExpiresAt :: "int option"
  tk_createdAt :: int
  tk_startedAt :: "int option"
  tk_finishedAt :: "int option"

record host =
  h_id :: int
  h_userId :: int
  h_natPortStart :: "int option"
  h_natPortEnd :: "int option"
  h_cpuUsed :: int
  h_memoryUsed :: int
  h_diskUsed :: int
  h_natPortsUsed :: int
  h_cpuAllowanceMax :: int
  h_memoryMax :: int
  h_enableResourcePool :: bool

text \<open>Rows of which only the owner and a flag are read (storage pools, packages, port mappings,
  snapshots, backups, sites and policies): an id, the row it belongs to, and whether the flag the
  source asks for (instance data pool, not deleted) holds.\<close>

record child =
  ch_id :: int
  ch_parent :: int
  ch_flag :: bool

record billing_record =
  br_type :: billing_type
  br_transferId :: "int option"
  br_instanceId :: int
  br_userId :: int
  br_amount :: rat
  br_months :: int
  br_periodStart :: int
  br_periodEnd :: int
  br_createdAt :: int

text \<open>The names copied into a hosting log for display (of host, package and plan) are left out.\<close>

record hosting_log =
  hl_id :: int
  hl_userId :: int
  hl_type :: hosting_type
  hl_action :: "hosting_action option"
  hl_amount :: rat
  hl_frozen :: bool
  hl_unfreezeAt :: "int option"
  hl_relatedId :: "int option"
  hl_remark :: "remark option"
  hl_buyer :: "(string \<times> string option \<times> string) option"
  hl_instanceName :: "string option"
  hl_createdAt :: int

record destroy_record =
  dr_userId :: int
  dr_hostId :: int
  dr_instanceId :: int
  dr_instanceName :: string
  dr_refundAmount :: rat
  dr_feeAmount :: rat
  dr_isFirstTime :: bool

record plan_row =
  pn_id :: int
  pn_packageId :: int
  pn_name :: string
  pn_cpu :: int
  pn_memory :: int
  pn_disk :: int
  pn_portLimit :: int
  pn_snapshotLimit :: int
  pn_backupLimit :: int
  pn_price :: rat
  pn_billingCycle :: int
  pn_isActive :: bool
  pn_isSoldOut :: bool
  pn_hourly :: package_plan

text \<open>The legacy price version an account points to stands in the account's row.\<close>

record hourly_account =
  ha_id :: int
  ha_instanceId :: int
  ha_packagePlanId :: "int option"
  ha_pricingVersion :: "pricing option"
  ha_lastSettledAt :: int
  ha_nextSettlementAt :: "int option"
  ha_prepaid :: rat
  ha_totalCost :: rat
  ha_totalReserved :: rat
  ha_totalReleased :: rat
  ha_outstanding :: rat
  ha_status :: hourly_status
  ha_version :: int

record hourly_record =
  hc_accountId :: int
  hc_version :: int
  hc_instanceId :: int
  hc_userId :: int
  hc_periodStart :: int
  hc_periodEnd :: int
  hc_activeSeconds :: int
  hc_actualAmount :: rat
  hc_reserveAmount :: rat
  hc_status :: hourly_record_status

record official_coupon =
  oc_id :: int
  oc_code :: string
  oc_name :: string
  oc_discountRate :: rat
  oc_scope :: coupon_scope
  oc_reusable :: bool
  oc_maxUsesPerUser :: "int option"
  oc_totalUsageLimit :: "int option"
  oc_usedCount :: int
  oc_enabled :: bool
  oc_startsAt :: "int option"
  oc_expiresAt :: "int option"
  oc_renewalMode :: renewal_mode
  oc_discountedChargeLimit :: "int option"

record official_usage =
  ou_id :: int
  ou_couponId :: int
  ou_userId :: int
  ou_instanceId :: "int option"
  ou_type :: usage_type
  ou_originalPrice :: rat
  ou_discountAmount :: rat
  ou_discountedMonths :: int
  ou_createdAt :: int

record aff_code =
  ac_id :: int
  ac_code :: string
  ac_userId :: int
  ac_packagePlanId :: "int option"
  ac_discountRate :: rat
  ac_commissionRate :: rat
  ac_enabled :: bool
  ac_usedCount :: int
  ac_totalEarnings :: rat

record aff_binding =
  ab_instanceId :: int
  ab_affCodeId :: int
  ab_supersedes :: bool

record aff_log =
  al_id :: int
  al_userId :: int
  al_affCodeId :: "int option"
  al_instanceId :: "int option"
  al_mailId :: "int option"
  al_type :: aff_log_type
  al_amount :: rat
  al_originalAmount :: "rat option"
  al_before :: rat
  al_after :: rat
  al_remark :: "remark option"

record aff_withdrawal =
  aw_id :: int
  aw_userId :: int
  aw_amount :: rat
  aw_status :: aff_withdrawal_status
  aw_rejectReason :: "string option"
  aw_reviewedBy :: "int option"
  aw_reviewedAt :: "int option"

text \<open>The inbox message of a migration, with the fields of its \<open>data\<close> that have the type the source
  asks for (\<open>None\<close> for any other value).\<close>

record migration_note =
  mn_userId :: int
  mn_instanceId :: "int option"
  mn_oldHostId :: "int option"
  mn_newHostId :: "int option"
  mn_instanceName :: "string option"
  mn_createdAt :: int

record recharge =
  rr_orderNo :: string
  rr_userId :: int
  rr_providerId :: int
  rr_amount :: rat
  rr_actualAmount :: "rat option"
  rr_fee :: rat
  rr_tradeNo :: "string option"
  rr_paymentMethod :: "string option"
  rr_status :: recharge_status
  rr_callbackData :: "string option"
  rr_callbackAt :: "int option"
  rr_paymentDetails :: "string option"
  rr_failReason :: "string option"
  rr_expiredAt :: "int option"
  rr_completedAt :: "int option"

record invite_code =
  ic_id :: int
  ic_code :: string
  ic_createdBy :: int
  ic_usedBy :: "int option"
  ic_usedAt :: "int option"
  ic_expiresAt :: "int option"
  ic_cost :: "(string \<times> rat) option"

record lock_row =
  lk_id :: int
  lk_key :: string
  lk_owner :: string
  lk_acquiredAt :: int
  lk_expiresAt :: int

section \<open>The database\<close>

record db =
  users :: "user list"
  quotas :: "user_quota list"
  points_accounts :: "user_points list"
  points_logs :: "points_log list"
  balance_logs :: "balance_log list"
  pools :: "resource_pool list"
  pool_logs :: "pool_log list"
  checkins :: "checkin_stats list"
  checkin_records :: "checkin_record list"
  lotteries :: "lottery list"
  prizes :: "prize list"
  lottery_records :: "lottery_record list"
  badges :: "badge list"
  badge_ownerships :: "badge_ownership list"
  codes :: "redeem_code list"
  usages :: "code_usage list"
  friendships :: "friendship list"
  transfers :: "transfer list"
  instances :: "instance_row list"
  tasks :: "task list"
  hosts :: "host list"
  storage_pools :: "child list"
  packages :: "child list"
  port_mappings :: "child list"
  snapshots :: "child list"
  backups :: "child list"
  proxy_sites :: "child list"
  snapshot_policies :: "child list"
  backup_policies :: "child list"
  billing_records :: "billing_record list"
  recharges :: "recharge list"
  invite_codes :: "invite_code list"
  locks :: "lock_row list"
  hosting_logs :: "hosting_log list"
  destroy_records :: "destroy_record list"
  plans :: "plan_row list"
  hourly_accounts :: "hourly_account list"
  hourly_records :: "hourly_record list"
  official_coupons :: "official_coupon list"
  official_usages :: "official_usage list"
  aff_codes :: "aff_code list"
  aff_bindings :: "aff_binding list"
  aff_logs :: "aff_log list"
  aff_withdrawals :: "aff_withdrawal list"
  migration_notes :: "migration_note list"
  traffic_bills :: "child list"
  record_seq :: int
  usage_seq :: int
  friendship_seq :: int
  transfer_seq :: int
  task_seq :: int
  invite_seq :: int
  lock_seq :: int
  hosting_seq :: int
  official_usage_seq :: int
  coupon_seq :: int
  aff_seq :: int
  aff_log_seq :: int
  withdrawal_seq :: int

text \<open>The empty database, from which the examples build theirs.\<close>

definition empty_db :: db where
  "empty_db = \<lparr>users = [], quotas = [], points_accounts = [], points_logs = [],
     balance_logs = [], pools = [], pool_logs = [], checkins = [], checkin_records = [],
     lotteries = [], prizes = [], lottery_records = [], badges = [], badge_ownerships = [],
     codes = [], usages = [], friendships = [], transfers = [], instances = [], tasks = [],
     hosts = [], storage_pools = [], packages = [], port_mappings = [], snapshots = [],
     backups = [], proxy_sites = [], snapshot_policies = [], backup_policies = [],
     billing_records = [], recharges = [], invite_codes = [], locks = [],
     hosting_logs = [], destroy_records = [], plans = [], hourly_accounts = [], hourly_records = [], official_coupons = [],
     official_usages = [], aff_codes = [], aff_bindings = [], aff_logs = [], aff_withdrawals = [], migration_notes = [], traffic_bills = [],
     record_seq = 1, usage_seq = 1, friendship_seq = 1,
     transfer_seq = 1, task_seq = 1, invite_seq = 1, lock_seq = 1,
     hosting_seq = 1, official_usage_seq = 1, coupon_seq = 1, aff_seq = 1, aff_log_seq = 1, withdrawal_seq = 1\<rparr>"

section \<open>Accounts of the database\<close>

text \<open>A user's balance; a user without a row has none.\<close>

definition balance_of :: "db \<Rightarrow> int \<Rightarrow> rat" where
  "balance_of s k = (case find_key u_id k (users s) of None \<Rightarrow> 0 | Some u \<Rightarrow> u_balance u)"

definition points_of :: "db \<Rightarrow> int \<Rightarrow> int" where
  "points_of s k =
     (case find_key up_userId k (points_accounts s) of None \<Rightarrow> 0 | Some p \<Rightarrow> up_points p)"

text \<open>The ledger entries the log rows stand for, in the order they were written.\<close>

definition balance_entries :: "db \<Rightarrow> (int \<times> rat \<times> rat) list" where
  "balance_entries s = map (\<lambda>e. (bl_userId e, bl_before e, bl_after e)) (balance_logs s)"

definition points_entries :: "db \<Rightarrow> (int \<times> int \<times> int) list" where
  "points_entries s = map (\<lambda>e. (pl_userId e, pl_before e, pl_after e)) (points_logs s)"

lemma of_balance_entries:
  "of_account k (map (\<lambda>e. (bl_userId e, bl_before e, bl_after e)) es) =
     map (\<lambda>e. (bl_before e, bl_after e)) (filter (\<lambda>e. bl_userId e = k) es)"
  by (induction es) auto

lemma of_points_entries:
  "of_account k (map (\<lambda>e. (pl_userId e, pl_before e, pl_after e)) es) =
     map (\<lambda>e. (pl_before e, pl_after e)) (filter (\<lambda>e. pl_userId e = k) es)"
  by (induction es) auto

definition total_balance :: "db \<Rightarrow> rat" where
  "total_balance s = (\<Sum>u\<leftarrow>users s. u_balance u)"

definition credit_balance :: "rat \<Rightarrow> user \<Rightarrow> user" where
  "credit_balance d u = u\<lparr>u_balance := u_balance u + d\<rparr>"

definition set_balance :: "rat \<Rightarrow> user \<Rightarrow> user" where
  "set_balance v u = u\<lparr>u_balance := column 8 v\<rparr>"

definition credit_points :: "int \<Rightarrow> user_points \<Rightarrow> user_points" where
  "credit_points d p = p\<lparr>up_points := up_points p + d\<rparr>"

interpretation balances: account_table u_id u_balance credit_balance
  by unfold_locales (simp_all add: credit_balance_def)

interpretation points: account_table up_userId up_points credit_points
  by unfold_locales (simp_all add: credit_points_def)

lemma set_balance_simps [simp]:
  "u_id (set_balance v u) = u_id u" "u_balance (set_balance v u) = column 8 v"
  "u_status (set_balance v u) = u_status u" "u_username (set_balance v u) = u_username u"
  by (simp_all add: set_balance_def)

lemma set_balance_credit:
  "has_scale 8 v \<Longrightarrow> set_balance v u = credit_balance (v - u_balance u) u"
  by (simp add: set_balance_def credit_balance_def to_fixed_id)

text \<open>Every stored balance fits its \<open>DECIMAL(20,8)\<close> column; keys are unique.\<close>

definition balances_wf :: "db \<Rightarrow> bool" where
  "balances_wf s \<longleftrightarrow> distinct (map u_id (users s)) \<and> (\<forall>u\<in>set (users s). has_scale 8 (u_balance u))"

definition points_wf :: "db \<Rightarrow> bool" where
  "points_wf s \<longleftrightarrow> distinct (map up_userId (points_accounts s))"

lemma balances_wf_distinct: "balances_wf s \<Longrightarrow> distinct (map u_id (users s))"
  by (simp add: balances_wf_def)

lemma balances_wf_scale: "balances_wf s \<Longrightarrow> find_key u_id k (users s) = Some u \<Longrightarrow> has_scale 8 (u_balance u)"
  by (auto simp: balances_wf_def dest: find_key_SomeD)

lemma balance_of_Some: "find_key u_id k (users s) = Some u \<Longrightarrow> balance_of s k = u_balance u"
  by (simp add: balance_of_def)

lemma balance_of_cong: "users s = users s' \<Longrightarrow> balance_of s k = balance_of s' k"
  by (simp add: balance_of_def)

lemma points_of_Some: "find_key up_userId k (points_accounts s) = Some p \<Longrightarrow> points_of s k = up_points p"
  by (simp add: points_of_def)

lemma balance_of_set_balance:
  assumes "find_key u_id k (users s) = Some u"
  shows "balance_of (s\<lparr>users := update_key u_id k (set_balance v) (users s)\<rparr>) k' =
    (if k' = k then column 8 v else balance_of s k')"
  using assms by (simp add: balance_of_def find_key_update_key)

lemma total_balance_set_balance:
  assumes "distinct (map u_id (users s))" and "find_key u_id k (users s) = Some u"
  shows "total_balance (s\<lparr>users := update_key u_id k (set_balance v) (users s)\<rparr>) =
    total_balance s + (column 8 v - u_balance u)"
  using sum_update_key [OF assms, where f = "set_balance v" and g = u_balance]
  by (simp add: total_balance_def)

lemma balances_wf_set_balance:
  "balances_wf s \<Longrightarrow> balances_wf (s\<lparr>users := update_key u_id k (set_balance v) (users s)\<rparr>)"
  by (auto simp: balances_wf_def map_update_key elim!: set_update_keyE)

section \<open>Advisory locks\<close>

text \<open>
  \<open>server/src/db/advisory-locks.ts\<close>. Whether \<open>pg_try_advisory_xact_lock\<close> grants the lock depends on
  the other open transactions: it is an argument of the operations that ask for one.
\<close>

definition TRANSFER_CREATE_LOCK_NAMESPACE :: int where
  "TRANSFER_CREATE_LOCK_NAMESPACE = 4103"

definition REDEEM_CODE_LOCK_NAMESPACE :: int where
  "REDEEM_CODE_LOCK_NAMESPACE = 4104"

definition INSTANCE_OPERATION_LOCK_NAMESPACE :: int where
  "INSTANCE_OPERATION_LOCK_NAMESPACE = 4106"

definition HOSTING_BALANCE_LOG_LOCK_NAMESPACE :: int where
  "HOSTING_BALANCE_LOG_LOCK_NAMESPACE = 4105"

definition USER_DESTROY_BILLING_LOCK_NAMESPACE :: int where
  "USER_DESTROY_BILLING_LOCK_NAMESPACE = 4107"

definition USER_BALANCE_LOCK_NAMESPACE :: int where
  "USER_BALANCE_LOCK_NAMESPACE = 4110"

definition OFFICIAL_COUPON_LOCK_NAMESPACE :: int where
  "OFFICIAL_COUPON_LOCK_NAMESPACE = 4111"

definition advisoryTransactionLock :: "bool \<Rightarrow> int \<Rightarrow> int \<Rightarrow> unit outcome" where
  "advisoryTransactionLock locked namespace k = (if \<not> locked then Inl (LockBusy namespace k) else Inr ())"

lemma lock_Inr [simp]: "advisoryTransactionLock locked n k = Inr u \<longleftrightarrow> locked"
  by (simp add: advisoryTransactionLock_def)

lemma lock_True [simp]: "advisoryTransactionLock True n k = Inr ()"
  by simp

end
