(* ===== verification/Balance.thy ===== *)
theory Balance
  imports Database
begin

text \<open>
  The user balance: \<open>server/src/lib/balance-transfer.ts\<close> (rounding and validation of amounts) and
  \<open>server/src/db/balance.ts\<close> (transactional changes, transfers between users, consumption sums).
  A number that may be \<open>NaN\<close> or infinite is a \<open>rat option\<close>. The random parts of a transfer number
  and the conflicts the database reports are arguments.
\<close>

section \<open>Amounts\<close>

definition MAX_USER_BALANCE :: rat where
  "MAX_USER_BALANCE = 9999999999 / 100"

definition EPSILON :: rat where
  "EPSILON = 1 / 2 ^ 52"

definition roundMoney :: "rat \<Rightarrow> rat" where
  "roundMoney value = of_int (js_round ((value + EPSILON) * 100)) / 100"

definition hasAtMostTwoDecimalPlaces :: "rat \<Rightarrow> bool" where
  "hasAtMostTwoDecimalPlaces value \<longleftrightarrow>
     \<bar>value * 100 - of_int (js_round (value * 100))\<bar> < 1 / 10 ^ 9"

definition normalizeBalanceTransferAmount :: "rat option \<Rightarrow> rat outcome" where
  "normalizeBalanceTransferAmount value =
     (case value of
        None \<Rightarrow> Inl (Error ''BALANCE_TRANSFER_AMOUNT_INVALID'')
      | Some amount \<Rightarrow>
          if amount < 1 / 100 \<or> amount > MAX_USER_BALANCE \<or> \<not> hasAtMostTwoDecimalPlaces amount
          then Inl (Error ''BALANCE_TRANSFER_AMOUNT_INVALID'')
          else Inr (roundMoney amount))"

definition normalizeBalanceTransferFee :: "rat option \<Rightarrow> rat outcome" where
  "normalizeBalanceTransferFee value =
     (case value of
        None \<Rightarrow> Inl (Error ''BALANCE_TRANSFER_AMOUNT_INVALID'')
      | Some fee \<Rightarrow>
          if fee < 0 \<or> fee > MAX_USER_BALANCE \<or> \<not> hasAtMostTwoDecimalPlaces fee
          then Inl (Error ''BALANCE_TRANSFER_AMOUNT_INVALID'')
          else Inr (roundMoney fee))"

lemma EPSILON_bounds: "0 < EPSILON" "EPSILON * 100 < 1 / 2"
  by (simp_all add: EPSILON_def)

lemma roundMoney_scale [simp, intro]: "has_scale 2 (roundMoney x)"
  by (rule has_scaleI [of _ "js_round ((x + EPSILON) * 100)"]) (simp add: roundMoney_def)

lemma roundMoney_shift: "has_scale 2 y \<Longrightarrow> roundMoney (x + y) = roundMoney x + y"
proof (elim has_scaleE)
  fix c :: int
  assume y: "y = of_int c / 10 ^ 2"
  have "(x + y + EPSILON) * 100 + 1 / 2 = ((x + EPSILON) * 100 + 1 / 2) + of_int c"
    by (simp add: y algebra_simps)
  then have "js_round ((x + y + EPSILON) * 100) = js_round ((x + EPSILON) * 100) + c"
    by (simp only: js_round_def floor_add_int)
  then show ?thesis by (simp add: roundMoney_def y add_divide_distrib)
qed

lemma roundMoney_0 [simp]: "roundMoney 0 = 0"
proof -
  have "\<lfloor>EPSILON * 100 + 1 / 2\<rfloor> = 0"
    by (rule floor_unique) (use EPSILON_bounds in auto)
  then show ?thesis by (simp add: roundMoney_def js_round_def)
qed

lemma roundMoney_id: "has_scale 2 x \<Longrightarrow> roundMoney x = x"
  using roundMoney_shift [of x 0] by simp

lemma roundMoney_diff: "has_scale 2 y \<Longrightarrow> roundMoney (x - y) = roundMoney x - y"
  using roundMoney_shift [of "- y" x] by (auto simp: has_scale_uminus)

lemma roundMoney_mono: "x \<le> y \<Longrightarrow> roundMoney x \<le> roundMoney y"
proof -
  assume "x \<le> y"
  then have "js_round ((x + EPSILON) * 100) \<le> js_round ((y + EPSILON) * 100)"
    unfolding js_round_def by (intro floor_mono) simp
  then show ?thesis by (simp add: roundMoney_def divide_right_mono)
qed

lemma roundMoney_nonneg: "0 \<le> x \<Longrightarrow> 0 \<le> roundMoney x"
  using roundMoney_mono [of 0 x] by simp

lemma roundMoney_error: "\<bar>roundMoney x - x\<bar> \<le> 1 / 200 + EPSILON"
proof -
  define f :: rat where "f = of_int \<lfloor>(x + EPSILON) * 100 + 1 / 2\<rfloor>"
  have "f \<le> (x + EPSILON) * 100 + 1 / 2" and "(x + EPSILON) * 100 + 1 / 2 < f + 1"
    unfolding f_def by linarith+
  moreover have "roundMoney x = f / 100"
    by (simp add: roundMoney_def js_round_def f_def)
  ultimately have "roundMoney x - x \<le> 1 / 200 + EPSILON" and "- (roundMoney x - x) \<le> 1 / 200 + EPSILON"
    using EPSILON_bounds by (simp_all add: field_simps)
  then show ?thesis by (simp add: abs_le_iff)
qed

lemma has_scale_28 [intro]: "has_scale 2 x \<Longrightarrow> has_scale 8 x"
  by (rule has_scale_mono) auto

lemma has_scale_8_roundMoney [simp, intro]: "has_scale 8 (roundMoney x)"
  by (rule has_scale_28) simp

lemma column_roundMoney [simp]: "column 8 (roundMoney x) = roundMoney x"
  by (rule to_fixed_id) auto

lemma normalizeAmount_Inr:
  "normalizeBalanceTransferAmount v = Inr a \<Longrightarrow> has_scale 2 a \<and> 1 / 100 \<le> a"
proof -
  assume "normalizeBalanceTransferAmount v = Inr a"
  then obtain x where "v = Some x" and "1 / 100 \<le> x" and a: "a = roundMoney x"
    by (auto simp: normalizeBalanceTransferAmount_def split: option.splits if_splits)
  moreover have "roundMoney (1 / 100) = 1 / 100"
    by (rule roundMoney_id) (rule has_scaleI [of _ 1], simp)
  ultimately show ?thesis using roundMoney_mono [of "1 / 100" x] by auto
qed

lemma normalizeFee_Inr:
  "normalizeBalanceTransferFee v = Inr f \<Longrightarrow> has_scale 2 f \<and> 0 \<le> f"
  by (auto simp: normalizeBalanceTransferFee_def roundMoney_nonneg split: option.splits if_splits)

section \<open>Retried transactions\<close>

text \<open>\<open>message.includes(needle)\<close>.\<close>

fun js_includes :: "string \<Rightarrow> string \<Rightarrow> bool" where
  "js_includes [] needle \<longleftrightarrow> needle = []"
| "js_includes (c # cs) needle \<longleftrightarrow>
     take (length needle) (c # cs) = needle \<or> js_includes cs needle"

definition isRetryableBalanceTransactionError :: "exn \<Rightarrow> bool" where
  "isRetryableBalanceTransactionError e =
     (case e of
        WriteConflict \<Rightarrow> True
      | Error msg \<Rightarrow> js_includes msg ''deadlock'' \<or> js_includes msg ''write conflict''
                     \<or> js_includes msg ''could not serialize''
      | _ \<Rightarrow> False)"

text \<open>
  One attempt: \<open>conflict i\<close> is the error the database aborts the \<open>i\<close>-th attempt with, if it does;
  otherwise the handler runs. An attempt that throws leaves the database as it was.
\<close>

definition attempt :: "(nat \<Rightarrow> exn option) \<Rightarrow> (db \<Rightarrow> ('a \<times> db) outcome) \<Rightarrow> nat \<Rightarrow> db \<Rightarrow> ('a \<times> db) outcome" where
  "attempt conflict handler i s =
     (case conflict i of Some e \<Rightarrow> Inl e | None \<Rightarrow> handler s)"

primrec retry_loop :: "nat \<Rightarrow> (nat \<Rightarrow> exn option) \<Rightarrow> (db \<Rightarrow> ('a \<times> db) outcome) \<Rightarrow> nat \<Rightarrow> db \<Rightarrow> ('a \<times> db) outcome" where
  "retry_loop 0 conflict handler i s = attempt conflict handler i s"
| "retry_loop (Suc left) conflict handler i s =
     (case attempt conflict handler i s of
        Inr r \<Rightarrow> Inr r
      | Inl e \<Rightarrow> if isRetryableBalanceTransactionError e
                 then retry_loop left conflict handler (Suc i) s else Inl e)"

definition maxRetries :: nat where
  "maxRetries = 3"

definition runBalanceTransaction ::
    "(nat \<Rightarrow> exn option) \<Rightarrow> (db \<Rightarrow> ('a \<times> db) outcome) \<Rightarrow> db \<Rightarrow> ('a \<times> db) outcome" where
  "runBalanceTransaction conflict handler s = retry_loop (maxRetries - 1) conflict handler 1 s"

lemma attempt_Inr: "attempt conflict handler i s = Inr r \<Longrightarrow> handler s = Inr r"
  by (simp add: attempt_def split: option.split_asm)

lemma retry_loop_Inr: "retry_loop n conflict handler i s = Inr r \<Longrightarrow> handler s = Inr r"
proof (induction n arbitrary: i)
  case 0
  then show ?case by (auto dest: attempt_Inr)
next
  case (Suc n)
  show ?case
  proof (cases "attempt conflict handler i s")
    case (Inl e)
    with Suc.prems have "retry_loop n conflict handler (Suc i) s = Inr r"
      by (simp split: if_splits)
    then show ?thesis by (rule Suc.IH)
  next
    case (Inr r')
    with Suc.prems have "attempt conflict handler i s = Inr r" by simp
    then show ?thesis by (rule attempt_Inr)
  qed
qed

lemma run_Inr: "runBalanceTransaction conflict handler s = Inr r \<Longrightarrow> handler s = Inr r"
  unfolding runBalanceTransaction_def by (rule retry_loop_Inr)

lemma run_unfold:
  "runBalanceTransaction conflict handler s = retry_loop (Suc (Suc 0)) conflict handler 1 s"
  by (simp add: runBalanceTransaction_def maxRetries_def numeral_2_eq_2)

lemma run_quiet:
  assumes "\<And>e. handler s = Inl e \<Longrightarrow> \<not> isRetryableBalanceTransactionError e"
  shows "runBalanceTransaction (\<lambda>_. None) handler s = handler s"
proof (cases "handler s")
  case (Inl e)
  from Inl have "\<not> isRetryableBalanceTransactionError e" by (rule assms)
  with Inl show ?thesis by (simp add: run_unfold attempt_def)
qed (simp add: run_unfold attempt_def)

section \<open>Changes of one balance\<close>

text \<open>\<open>if (typeof remark is empty)\<close>: JavaScript's \<open>||\<close> takes an absent or empty text as false.\<close>

definition remark_or :: "remark option \<Rightarrow> remark \<Rightarrow> remark" where
  "remark_or r d = (case r of None \<Rightarrow> d | Some (Text []) \<Rightarrow> d | Some t \<Rightarrow> t)"

text \<open>\<open>tx.balanceLog.create\<close>: the money columns are \<open>DECIMAL(20,8)\<close>.\<close>

definition mk_log :: "int \<Rightarrow> balance_log_type \<Rightarrow> rat \<Rightarrow> rat \<Rightarrow> rat \<Rightarrow> string option \<Rightarrow> int option
    \<Rightarrow> int option \<Rightarrow> remark option \<Rightarrow> balance_log" where
  "mk_log userId type amount before after orderId instanceId transferId remark =
     \<lparr>bl_userId = userId, bl_type = type, bl_amount = column 8 amount,
      bl_before = column 8 before, bl_after = column 8 after, bl_orderId = orderId,
      bl_instanceId = instanceId, bl_transferId = transferId, bl_remark = remark\<rparr>"

definition add_log :: "balance_log \<Rightarrow> db \<Rightarrow> db" where
  "add_log e s = s\<lparr>balance_logs := balance_logs s @ [e]\<rparr>"

definition put_balance :: "int \<Rightarrow> rat \<Rightarrow> db \<Rightarrow> db" where
  "put_balance k v s = s\<lparr>users := update_key u_id k (set_balance v) (users s)\<rparr>"

definition getUserBalance :: "int \<Rightarrow> db \<Rightarrow> rat" where
  "getUserBalance userId s =
     (case find_key u_id userId (users s) of None \<Rightarrow> 0 | Some user \<Rightarrow> u_balance user)"

record change_input =
  ci_userId :: int
  ci_type :: balance_log_type
  ci_amount :: rat
  ci_orderId :: "string option"
  ci_instanceId :: "int option"
  ci_remark :: "remark option"

text \<open>The transaction of \<open>changeBalance\<close>: returns the log entry and the new balance.\<close>

definition change_tx :: "change_input \<Rightarrow> db \<Rightarrow> ((balance_log \<times> rat) \<times> db) outcome" where
  "change_tx ci s =
     (case find_key u_id (ci_userId ci) (users s) of
        None \<Rightarrow> Inl (Failure M_user_missing)
      | Some user \<Rightarrow>
          let balanceBefore = u_balance user;
              balanceAfter = roundMoney (balanceBefore + ci_amount ci) in
          if ci_amount ci < 0 \<and> balanceAfter < 0 then Inl (Failure M_balance_too_low)
          else
            let s1 = put_balance (ci_userId ci) balanceAfter s;
                entry = mk_log (ci_userId ci) (ci_type ci) (ci_amount ci) balanceBefore balanceAfter
                  (ci_orderId ci) (ci_instanceId ci) None (ci_remark ci);
                s2 = add_log entry s1 in
            Inr ((entry, balanceAfter), s2))"

datatype change_result =
    Changed balance_log rat
  | Not_changed exn

definition changeBalance :: "(nat \<Rightarrow> exn option) \<Rightarrow> change_input \<Rightarrow> db \<Rightarrow> change_result \<times> db" where
  "changeBalance conflict ci s =
     (case runBalanceTransaction conflict (change_tx ci) s of
        Inr ((entry, newBalance), s') \<Rightarrow> (Changed entry newBalance, s')
      | Inl e \<Rightarrow> (Not_changed e, s))"

definition rechargeToBalance where
  "rechargeToBalance conflict userId amount orderId remark =
     changeBalance conflict \<lparr>ci_userId = userId, ci_type = BL_recharge, ci_amount = amount,
       ci_orderId = Some orderId, ci_instanceId = None,
       ci_remark = Some (remark_or remark (R_recharge_order orderId))\<rparr>"

definition consumeBalance where
  "consumeBalance conflict userId amount instanceId remark =
     changeBalance conflict \<lparr>ci_userId = userId, ci_type = BL_consume, ci_amount = - \<bar>amount\<bar>,
       ci_orderId = None, ci_instanceId = Some instanceId, ci_remark = remark\<rparr>"

definition refundToBalance where
  "refundToBalance conflict userId amount instanceId remark =
     changeBalance conflict \<lparr>ci_userId = userId, ci_type = BL_refund, ci_amount = \<bar>amount\<bar>,
       ci_orderId = None, ci_instanceId = Some instanceId, ci_remark = remark\<rparr>"

definition adminAdjustBalance where
  "adminAdjustBalance conflict userId amount remark =
     changeBalance conflict \<lparr>ci_userId = userId, ci_type = BL_admin_adjust, ci_amount = amount,
       ci_orderId = None, ci_instanceId = None, ci_remark = Some remark\<rparr>"

definition giftBalance where
  "giftBalance conflict userId amount remark =
     changeBalance conflict \<lparr>ci_userId = userId, ci_type = BL_gift, ci_amount = \<bar>amount\<bar>,
       ci_orderId = None, ci_instanceId = None, ci_remark = remark\<rparr>"

section \<open>Transfers between users\<close>

record transfer_input =
  ti_fromUserId :: int
  ti_recipientId :: int
  ti_amount :: "rat option"
  ti_fee :: "rat option"

record transfer_result =
  tr_transferNo :: "string option"
  tr_fromUserId :: int
  tr_recipient :: user
  tr_amount :: rat
  tr_fee :: rat
  tr_totalDeduction :: rat
  tr_currentBalance :: rat
  tr_balanceAfter :: rat

definition buildBalanceTransferPreview :: "transfer_input \<Rightarrow> db \<Rightarrow> transfer_result outcome" where
  "buildBalanceTransferPreview ti s =
     (case normalizeBalanceTransferAmount (ti_amount ti) of Inl e \<Rightarrow> Inl e | Inr amount \<Rightarrow>
      case normalizeBalanceTransferFee (ti_fee ti) of Inl e \<Rightarrow> Inl e | Inr fee \<Rightarrow>
      if ti_fromUserId ti = ti_recipientId ti then Inl (Error ''BALANCE_TRANSFER_TO_SELF'')
      else case (find_key u_id (ti_fromUserId ti) (users s), find_key u_id (ti_recipientId ti) (users s)) of
        (Some sender, Some recipient) \<Rightarrow>
          if u_status recipient = U_banned then Inl (Error ''BALANCE_TRANSFER_RECIPIENT_BANNED'')
          else if roundMoney (u_balance recipient + amount) > MAX_USER_BALANCE
          then Inl (Error ''BALANCE_TRANSFER_BALANCE_LIMIT_EXCEEDED'')
          else
            let currentBalance = u_balance sender;
                totalDeduction = roundMoney (amount + fee);
                balanceAfter = roundMoney (currentBalance - totalDeduction) in
            if balanceAfter < 0 then Inl (Error ''BALANCE_TRANSFER_INSUFFICIENT_BALANCE'')
            else Inr \<lparr>tr_transferNo = None, tr_fromUserId = ti_fromUserId ti, tr_recipient = recipient,
                      tr_amount = amount, tr_fee = fee, tr_totalDeduction = totalDeduction,
                      tr_currentBalance = currentBalance, tr_balanceAfter = balanceAfter\<rparr>
      | _ \<Rightarrow> Inl (Error ''USER_NOT_FOUND''))"

text \<open>The handler of the transfer's transaction, with the amounts already normalised.\<close>

definition transfer_tx :: "int \<Rightarrow> int \<Rightarrow> rat \<Rightarrow> rat \<Rightarrow> string \<Rightarrow> db \<Rightarrow> (transfer_result \<times> db) outcome" where
  "transfer_tx fromUserId recipientId amount fee transferNo s =
     (case (find_key u_id fromUserId (users s), find_key u_id recipientId (users s)) of
        (Some sender, Some recipient) \<Rightarrow>
          if u_status recipient = U_banned then Inl (Error ''BALANCE_TRANSFER_RECIPIENT_BANNED'')
          else
            let totalDeduction = roundMoney (amount + fee);
                senderBalanceBefore = u_balance sender;
                senderBalanceAfterTransfer = roundMoney (senderBalanceBefore - amount);
                senderBalanceAfterFee = roundMoney (senderBalanceAfterTransfer - fee) in
            if senderBalanceAfterFee < 0 then Inl (Error ''BALANCE_TRANSFER_INSUFFICIENT_BALANCE'')
            else
              let recipientBalanceBefore = u_balance recipient;
                  recipientBalanceAfter = roundMoney (recipientBalanceBefore + amount) in
              if recipientBalanceAfter > MAX_USER_BALANCE
              then Inl (Error ''BALANCE_TRANSFER_BALANCE_LIMIT_EXCEEDED'')
              else
                let s1 = put_balance (u_id sender) senderBalanceAfterFee s;
                    s2 = put_balance (u_id recipient) recipientBalanceAfter s1;
                    s3 = add_log (mk_log (u_id sender) BL_balance_transfer_out (- amount)
                           senderBalanceBefore senderBalanceAfterTransfer (Some transferNo) None None
                           (Some (R_transfer_to (u_username recipient)))) s2;
                    s4 = (if fee > 0
                          then add_log (mk_log (u_id sender) BL_balance_transfer_fee (- fee)
                            senderBalanceAfterTransfer senderBalanceAfterFee (Some transferNo) None None
                            (Some R_transfer_fee)) s3
                          else s3);
                    s5 = add_log (mk_log (u_id recipient) BL_balance_transfer_in amount
                           recipientBalanceBefore recipientBalanceAfter (Some transferNo) None None
                           (Some (R_transfer_from (u_username sender)))) s4 in
                Inr (\<lparr>tr_transferNo = Some transferNo, tr_fromUserId = u_id sender,
                       tr_recipient = recipient, tr_amount = amount, tr_fee = fee,
                       tr_totalDeduction = totalDeduction, tr_currentBalance = senderBalanceBefore,
                       tr_balanceAfter = senderBalanceAfterFee\<rparr>, s5)
      | _ \<Rightarrow> Inl (Error ''USER_NOT_FOUND''))"

definition transferBalanceBetweenUsers ::
    "(nat \<Rightarrow> exn option) \<Rightarrow> string \<Rightarrow> transfer_input \<Rightarrow> db \<Rightarrow> (transfer_result \<times> db) outcome" where
  "transferBalanceBetweenUsers conflict transferNo ti s =
     (case normalizeBalanceTransferAmount (ti_amount ti) of Inl e \<Rightarrow> Inl e | Inr amount \<Rightarrow>
      case normalizeBalanceTransferFee (ti_fee ti) of Inl e \<Rightarrow> Inl e | Inr fee \<Rightarrow>
      if ti_fromUserId ti = ti_recipientId ti then Inl (Error ''BALANCE_TRANSFER_TO_SELF'')
      else runBalanceTransaction conflict
             (transfer_tx (ti_fromUserId ti) (ti_recipientId ti) amount fee transferNo) s)"

section \<open>Sums over the log\<close>

text \<open>What one entry counts as consumed: the drop of the balance, else the magnitude of the amount.\<close>

definition consumed :: "balance_log \<Rightarrow> rat" where
  "consumed e = (if bl_before e > bl_after e then bl_before e - bl_after e else \<bar>bl_amount e\<bar>)"

definition is_consumption :: "balance_log \<Rightarrow> bool" where
  "is_consumption e \<longleftrightarrow> bl_type e \<in> {BL_consume, BL_hourly_consume}"

definition getUsersTotalConsumeMap :: "int list \<Rightarrow> db \<Rightarrow> int \<Rightarrow> rat option" where
  "getUsersTotalConsumeMap userIds s =
     (let validUserIds = remdups (filter (\<lambda>id. id > 0) userIds) in
      (\<lambda>k. let rows = filter (\<lambda>e. bl_userId e = k \<and> is_consumption e) (balance_logs s) in
           if k \<in> set validUserIds \<and> rows \<noteq> [] then Some (\<Sum>e\<leftarrow>rows. consumed e) else None))"

definition getUserTotalConsume :: "int \<Rightarrow> db \<Rightarrow> rat" where
  "getUserTotalConsume userId s =
     (case getUsersTotalConsumeMap [userId] s userId of None \<Rightarrow> 0 | Some t \<Rightarrow> t)"

definition hasEnoughBalance :: "int \<Rightarrow> rat \<Rightarrow> db \<Rightarrow> bool" where
  "hasEnoughBalance userId amount s \<longleftrightarrow> getUserBalance userId s \<ge> amount"

definition sum_amounts :: "(balance_log \<Rightarrow> bool) \<Rightarrow> db \<Rightarrow> rat" where
  "sum_amounts P s = (\<Sum>e\<leftarrow>filter P (balance_logs s). bl_amount e)"

record consume_stats =
  st_totalRecharge :: rat
  st_totalConsume :: rat
  st_totalRefund :: rat
  st_totalDestroyedValue :: rat

definition is_destroy_refund :: "remark option \<Rightarrow> bool" where
  "is_destroy_refund r \<longleftrightarrow> (case r of Some (R_destroy_refund _) \<Rightarrow> True | _ \<Rightarrow> False)"

definition getUserConsumeStats :: "int \<Rightarrow> db \<Rightarrow> consume_stats" where
  "getUserConsumeStats userId s =
     \<lparr>st_totalRecharge = sum_amounts (\<lambda>e. bl_userId e = userId \<and> bl_type e = BL_recharge) s,
      st_totalConsume = getUserTotalConsume userId s,
      st_totalRefund = sum_amounts (\<lambda>e. bl_userId e = userId \<and> bl_type e = BL_refund) s,
      st_totalDestroyedValue = sum_amounts (\<lambda>e. bl_userId e = userId \<and> bl_type e = BL_refund
        \<and> bl_amount e > 0 \<and> is_destroy_refund (bl_remark e)) s\<rparr>"

definition getInstanceTotalConsume :: "int \<Rightarrow> db \<Rightarrow> rat" where
  "getInstanceTotalConsume instanceId s =
     \<bar>sum_amounts (\<lambda>e. bl_instanceId e = Some instanceId \<and> bl_type e = BL_consume) s\<bar>"

definition getInstanceTotalRefund :: "int \<Rightarrow> db \<Rightarrow> rat" where
  "getInstanceTotalRefund instanceId s =
     sum_amounts (\<lambda>e. bl_instanceId e = Some instanceId \<and> bl_type e = BL_refund) s"

definition getInstanceRefundableAmount :: "int \<Rightarrow> db \<Rightarrow> rat" where
  "getInstanceRefundableAmount instanceId s =
     max 0 (getInstanceTotalConsume instanceId s - getInstanceTotalRefund instanceId s)"

section \<open>Effects on balances and ledgers\<close>

lemma mk_log_simps [simp]:
  "bl_userId (mk_log k ty a b c ord inst tf re) = k"
  "bl_type (mk_log k ty a b c ord inst tf re) = ty"
  "bl_amount (mk_log k ty a b c ord inst tf re) = column 8 a"
  "bl_before (mk_log k ty a b c ord inst tf re) = column 8 b"
  "bl_after (mk_log k ty a b c ord inst tf re) = column 8 c"
  "bl_instanceId (mk_log k ty a b c ord inst tf re) = inst"
  "bl_transferId (mk_log k ty a b c ord inst tf re) = tf"
  by (simp_all add: mk_log_def)

lemma add_log_simps [simp]:
  "users (add_log e s) = users s" "balance_logs (add_log e s) = balance_logs s @ [e]"
  "points_accounts (add_log e s) = points_accounts s" "points_logs (add_log e s) = points_logs s"
  "transfers (add_log e s) = transfers s" "instances (add_log e s) = instances s"
  "tasks (add_log e s) = tasks s" "billing_records (add_log e s) = billing_records s"
  "transfer_seq (add_log e s) = transfer_seq s"
  by (simp_all add: add_log_def)

lemma put_balance_simps [simp]:
  "users (put_balance k v s) = update_key u_id k (set_balance v) (users s)"
  "balance_logs (put_balance k v s) = balance_logs s"
  "points_accounts (put_balance k v s) = points_accounts s"
  "points_logs (put_balance k v s) = points_logs s"
  "transfers (put_balance k v s) = transfers s" "instances (put_balance k v s) = instances s"
  "tasks (put_balance k v s) = tasks s" "billing_records (put_balance k v s) = billing_records s"
  "transfer_seq (put_balance k v s) = transfer_seq s"
  by (simp_all add: put_balance_def)

text \<open>Every change of a balance between two states is accounted for by new log entries.\<close>

definition balance_logged :: "db \<Rightarrow> db \<Rightarrow> bool" where
  "balance_logged s s' \<longleftrightarrow>
     (\<exists>es. balance_entries s' = balance_entries s @ es \<and> posted (balance_of s) es (balance_of s'))"

lemma balance_loggedI:
  assumes "balance_logs s' = balance_logs s @ es"
    and "\<And>k. linked (balance_of s k) (map (\<lambda>e. (bl_before e, bl_after e)) (filter (\<lambda>e. bl_userId e = k) es))
              (balance_of s' k)"
  shows "balance_logged s s'"
  unfolding balance_logged_def balance_entries_def posted_def
  by (rule exI [of _ "map (\<lambda>e. (bl_userId e, bl_before e, bl_after e)) es"]) (simp add: assms of_balance_entries)

lemma balance_logged_trans: "balance_logged s s' \<Longrightarrow> balance_logged s' s'' \<Longrightarrow> balance_logged s s''"
  unfolding balance_logged_def by (metis append.assoc posted_append)

lemma balance_logged_frame:
  "users s' = users s \<Longrightarrow> balance_logs s' = balance_logs s \<Longrightarrow> balance_logged s s'"
  by (rule balance_loggedI [of _ _ "[]"]) (simp_all add: balance_of_def)

text \<open>One balance set, one entry written.\<close>

lemma balance_of_put:
  "find_key u_id k (users s) = Some u \<Longrightarrow>
   balance_of (put_balance k v s) k' = (if k' = k then column 8 v else balance_of s k')"
  by (simp add: put_balance_def balance_of_set_balance)

lemma balances_wf_put: "balances_wf s \<Longrightarrow> balances_wf (put_balance k v s)"
  by (simp add: put_balance_def balances_wf_set_balance)

lemma balances_wf_cong: "users s' = users s \<Longrightarrow> balances_wf s' \<longleftrightarrow> balances_wf s"
  by (simp add: balances_wf_def)

lemma balances_wf_add_log [simp]: "balances_wf (add_log e s) \<longleftrightarrow> balances_wf s"
  by (simp add: balances_wf_def)

lemma balance_of_add_log [simp]: "balance_of (add_log e s) k = balance_of s k"
  by (simp add: balance_of_def)

lemma total_balance_add_log [simp]: "total_balance (add_log e s) = total_balance s"
  by (simp add: total_balance_def)

lemma total_balance_put:
  assumes "balances_wf s" and "find_key u_id k (users s) = Some u"
  shows "total_balance (put_balance k v s) = total_balance s + (column 8 v - u_balance u)"
  using assms by (simp add: put_balance_def total_balance_set_balance balances_wf_def)

lemma total_two_puts:
  assumes "balances_wf s" and "find_key u_id f (users s) = Some x" and "find_key u_id t (users s) = Some y"
    and "f \<noteq> t"
  shows "(\<Sum>u\<leftarrow>update_key u_id t (set_balance v) (update_key u_id f (set_balance w) (users s)). u_balance u)
    = total_balance s + (column 8 w - u_balance x) + (column 8 v - u_balance y)"
proof -
  let ?s = "put_balance f w s"
  have "find_key u_id t (users ?s) = Some y" using assms by (simp add: find_key_update_key)
  then have "total_balance (put_balance t v ?s) = total_balance ?s + (column 8 v - u_balance y)"
    using assms(1) by (simp add: total_balance_put balances_wf_put)
  also have "total_balance ?s = total_balance s + (column 8 w - u_balance x)"
    using assms(1,2) by (simp add: total_balance_put)
  finally show ?thesis by (simp add: total_balance_def)
qed

lemma balance_logged_post:
  assumes "balances_wf s" and "find_key u_id k (users s) = Some u"
  shows "balance_logged s (add_log (mk_log k ty a (u_balance u) v ord inst tf re) (put_balance k v s))"
  using assms balances_wf_scale [OF assms]
  by (intro balance_loggedI [where es = "[mk_log k ty a (u_balance u) v ord inst tf re]"])
     (auto simp: balance_of_put to_fixed_id balance_of_Some)

section \<open>What a change does\<close>

lemma change_txE:
  assumes "change_tx ci s = Inr (r, s')"
  obtains u where "find_key u_id (ci_userId ci) (users s) = Some u"
    and "\<not> (ci_amount ci < 0 \<and> roundMoney (u_balance u + ci_amount ci) < 0)"
    and "s' = add_log (mk_log (ci_userId ci) (ci_type ci) (ci_amount ci) (u_balance u)
            (roundMoney (u_balance u + ci_amount ci)) (ci_orderId ci) (ci_instanceId ci) None (ci_remark ci))
          (put_balance (ci_userId ci) (roundMoney (u_balance u + ci_amount ci)) s)"
    and "snd r = roundMoney (u_balance u + ci_amount ci)"
  using assms by (auto simp: change_tx_def Let_def split: option.splits if_splits)

lemma changeBalanceE:
  assumes "changeBalance conflict ci s = (Changed e v, s')"
  shows "change_tx ci s = Inr ((e, v), s')"
  using assms by (auto simp: changeBalance_def dest: run_Inr split: sum.splits prod.splits)

lemma changeBalance_refused: "changeBalance conflict ci s = (Not_changed e, s') \<Longrightarrow> s' = s"
  by (auto simp: changeBalance_def split: sum.splits prod.splits)

lemma changeBalance_logged:
  assumes "balances_wf s" and "changeBalance conflict ci s = (r, s')"
  shows "balance_logged s s' \<and> balances_wf s'"
proof (cases r)
  case (Changed e v)
  with assms(2) have "change_tx ci s = Inr ((e, v), s')" by (simp add: changeBalanceE)
  then show ?thesis
    by (elim change_txE) (simp add: balance_logged_post balances_wf_put assms(1))
next
  case (Not_changed e)
  with assms show ?thesis by (auto dest: changeBalance_refused intro: balance_logged_frame)
qed

lemma transfer_txE:
  assumes "transfer_tx f t a fee no s = Inr (r, s')"
  obtains x y where "find_key u_id f (users s) = Some x" and "find_key u_id t (users s) = Some y"
    and "u_status y \<noteq> U_banned"
    and "0 \<le> roundMoney (roundMoney (u_balance x - a) - fee)"
    and "roundMoney (u_balance y + a) \<le> MAX_USER_BALANCE"
    and "users s' = update_key u_id t (set_balance (roundMoney (u_balance y + a)))
           (update_key u_id f (set_balance (roundMoney (roundMoney (u_balance x - a) - fee))) (users s))"
    and "balance_logs s' = balance_logs s @
          [mk_log f BL_balance_transfer_out (- a) (u_balance x) (roundMoney (u_balance x - a))
             (Some no) None None (Some (R_transfer_to (u_username y)))] @
          (if fee > 0 then [mk_log f BL_balance_transfer_fee (- fee) (roundMoney (u_balance x - a))
             (roundMoney (roundMoney (u_balance x - a) - fee)) (Some no) None None (Some R_transfer_fee)] else []) @
          [mk_log t BL_balance_transfer_in a (u_balance y) (roundMoney (u_balance y + a))
             (Some no) None None (Some (R_transfer_from (u_username x)))]"
    and "r = \<lparr>tr_transferNo = Some no, tr_fromUserId = f, tr_recipient = y, tr_amount = a, tr_fee = fee,
              tr_totalDeduction = roundMoney (a + fee), tr_currentBalance = u_balance x,
              tr_balanceAfter = roundMoney (roundMoney (u_balance x - a) - fee)\<rparr>"
proof -
  from assms obtain x y where x: "find_key u_id f (users s) = Some x" and y: "find_key u_id t (users s) = Some y"
    by (auto simp: transfer_tx_def split: option.splits)
  moreover from x y have "u_id x = f" "u_id y = t" by (auto dest: find_key_SomeD)
  ultimately show ?thesis
    using assms
    by (intro that [of x y]) (auto simp: transfer_tx_def Let_def not_less split: if_splits)
qed

lemma transfer_tx_logged:
  assumes wf: "balances_wf s" and run: "transfer_tx f t a fee no s = Inr (r, s')"
    and scale: "has_scale 2 fee" "0 \<le> fee" and neq: "f \<noteq> t"
  shows "balance_logged s s' \<and> balances_wf s'"
  using run
proof (rule transfer_txE)
  fix x y
  assume x: "find_key u_id f (users s) = Some x" and y: "find_key u_id t (users s) = Some y"
    and U: "users s' = update_key u_id t (set_balance (roundMoney (u_balance y + a)))
           (update_key u_id f (set_balance (roundMoney (roundMoney (u_balance x - a) - fee))) (users s))"
    and L: "balance_logs s' = balance_logs s @
          [mk_log f BL_balance_transfer_out (- a) (u_balance x) (roundMoney (u_balance x - a))
             (Some no) None None (Some (R_transfer_to (u_username y)))] @
          (if fee > 0 then [mk_log f BL_balance_transfer_fee (- fee) (roundMoney (u_balance x - a))
             (roundMoney (roundMoney (u_balance x - a) - fee)) (Some no) None None (Some R_transfer_fee)] else []) @
          [mk_log t BL_balance_transfer_in a (u_balance y) (roundMoney (u_balance y + a))
             (Some no) None None (Some (R_transfer_from (u_username x)))]"
  have sc: "column 8 (u_balance x) = u_balance x" "column 8 (u_balance y) = u_balance y"
    using balances_wf_scale [OF wf] x y by (auto simp: to_fixed_id)
  have bal: "balance_of s' k = (if k = t then roundMoney (u_balance y + a)
      else if k = f then roundMoney (roundMoney (u_balance x - a) - fee) else balance_of s k)" for k
    using x y neq by (simp add: balance_of_def U find_key_update_key)
  have "balance_logged s s'"
  proof (rule balance_loggedI [OF L])
    fix k
    show "linked (balance_of s k) (map (\<lambda>e. (bl_before e, bl_after e)) (filter (\<lambda>e. bl_userId e = k)
      ([mk_log f BL_balance_transfer_out (- a) (u_balance x) (roundMoney (u_balance x - a))
             (Some no) None None (Some (R_transfer_to (u_username y)))] @
          (if fee > 0 then [mk_log f BL_balance_transfer_fee (- fee) (roundMoney (u_balance x - a))
             (roundMoney (roundMoney (u_balance x - a) - fee)) (Some no) None None (Some R_transfer_fee)] else []) @
          [mk_log t BL_balance_transfer_in a (u_balance y) (roundMoney (u_balance y + a))
             (Some no) None None (Some (R_transfer_from (u_username x)))]))) (balance_of s' k)"
      using x y neq scale
      by (auto simp: bal sc balance_of_Some roundMoney_id)
  qed
  moreover have "balances_wf s'"
    using wf by (auto simp: balances_wf_def U map_update_key elim!: set_update_keyE)
  ultimately show ?thesis by simp
qed

section \<open>Properties\<close>

lemma roundMoney_transfer:
  assumes "has_scale 2 a" and "has_scale 2 fee"
  shows "roundMoney (roundMoney (b - a) - fee) = roundMoney (b - roundMoney (a + fee))"
proof -
  have "roundMoney (roundMoney (b - a) - fee) = roundMoney b - a - fee"
    using assms by (simp add: roundMoney_diff roundMoney_id)
  moreover have "roundMoney (b - roundMoney (a + fee)) = roundMoney b - (a + fee)"
    using assms by (simp add: roundMoney_diff roundMoney_id has_scale_add)
  ultimately show ?thesis by simp
qed

lemma transferE:
  assumes "transferBalanceBetweenUsers conflict no ti s = Inr (r, s')"
  obtains a fee where "normalizeBalanceTransferAmount (ti_amount ti) = Inr a"
    and "normalizeBalanceTransferFee (ti_fee ti) = Inr fee"
    and "ti_fromUserId ti \<noteq> ti_recipientId ti"
    and "transfer_tx (ti_fromUserId ti) (ti_recipientId ti) a fee no s = Inr (r, s')"
  using assms
  by (auto simp: transferBalanceBetweenUsers_def dest: run_Inr split: sum.splits if_splits)

lemma transfer_logged:
  assumes "balances_wf s" and "transferBalanceBetweenUsers conflict no ti s = Inr (r, s')"
  shows "balance_logged s s' \<and> balances_wf s'"
  using assms(2)
proof (rule transferE)
  fix a fee
  assume "normalizeBalanceTransferFee (ti_fee ti) = Inr fee" and "ti_fromUserId ti \<noteq> ti_recipientId ti"
    and "transfer_tx (ti_fromUserId ti) (ti_recipientId ti) a fee no s = Inr (r, s')"
  then show ?thesis using transfer_tx_logged [OF assms(1)] normalizeFee_Inr by blast
qed

text \<open>C3: A transfer between users moves exactly the amount: when both balances are whole cents, a
  successful transfer takes amount and fee from the sender, gives the amount to the recipient, leaves
  every other balance alone, lowers the sum of all balances by exactly the fee, leaves no negative
  sender balance and respects the recipient's ceiling.\<close>

theorem transfer_conserves_money:
  assumes "balances_wf s"
    and "transferBalanceBetweenUsers conflict no ti s = Inr (r, s')"
    and "has_scale 2 (balance_of s (ti_fromUserId ti))"
    and "has_scale 2 (balance_of s (ti_recipientId ti))"
  shows "balance_of s' (ti_fromUserId ti) = balance_of s (ti_fromUserId ti) - tr_amount r - tr_fee r
    \<and> balance_of s' (ti_recipientId ti) = balance_of s (ti_recipientId ti) + tr_amount r
    \<and> (\<forall>k. k \<notin> {ti_fromUserId ti, ti_recipientId ti} \<longrightarrow> balance_of s' k = balance_of s k)
    \<and> total_balance s' = total_balance s - tr_fee r
    \<and> 0 \<le> balance_of s' (ti_fromUserId ti)
    \<and> balance_of s' (ti_recipientId ti) \<le> MAX_USER_BALANCE
    \<and> 0 < tr_amount r \<and> 0 \<le> tr_fee r"
  using assms(2)
proof (rule transferE)
  let ?f = "ti_fromUserId ti" and ?t = "ti_recipientId ti"
  fix a fee
  assume a: "normalizeBalanceTransferAmount (ti_amount ti) = Inr a"
    and fee: "normalizeBalanceTransferFee (ti_fee ti) = Inr fee"
    and neq: "?f \<noteq> ?t" and run: "transfer_tx ?f ?t a fee no s = Inr (r, s')"
  from a fee have sc: "has_scale 2 a" "has_scale 2 fee" and pos: "1 / 100 \<le> a" "0 \<le> fee"
    by (auto dest: normalizeAmount_Inr normalizeFee_Inr)
  from run show ?thesis
  proof (rule transfer_txE)
    fix x y
    assume x: "find_key u_id ?f (users s) = Some x" and y: "find_key u_id ?t (users s) = Some y"
      and pos': "0 \<le> roundMoney (roundMoney (u_balance x - a) - fee)"
      and lim: "roundMoney (u_balance y + a) \<le> MAX_USER_BALANCE"
      and U: "users s' = update_key u_id ?t (set_balance (roundMoney (u_balance y + a)))
           (update_key u_id ?f (set_balance (roundMoney (roundMoney (u_balance x - a) - fee))) (users s))"
      and r: "r = \<lparr>tr_transferNo = Some no, tr_fromUserId = ?f, tr_recipient = y, tr_amount = a, tr_fee = fee,
              tr_totalDeduction = roundMoney (a + fee), tr_currentBalance = u_balance x,
              tr_balanceAfter = roundMoney (roundMoney (u_balance x - a) - fee)\<rparr>"
    from assms(3,4) x y have cents: "has_scale 2 (u_balance x)" "has_scale 2 (u_balance y)"
      by (simp_all add: balance_of_Some)
    have new: "roundMoney (roundMoney (u_balance x - a) - fee) = u_balance x - a - fee"
      "roundMoney (u_balance y + a) = u_balance y + a"
      using sc cents by (simp_all add: roundMoney_id has_scale_diff has_scale_add)
    have eight: "column 8 (u_balance x - a - fee) = u_balance x - a - fee"
      "column 8 (u_balance y + a) = u_balance y + a"
      using sc cents by (auto intro!: to_fixed_id has_scale_28)
    have bal: "balance_of s' k = (if k = ?t then u_balance y + a
        else if k = ?f then u_balance x - a - fee else balance_of s k)" for k
      using x y neq by (simp add: balance_of_def U find_key_update_key new eight)
    have "total_balance s' = total_balance s - fee"
      using total_two_puts [OF assms(1) x y neq] by (simp add: total_balance_def U new eight)
    then show ?thesis
      using x y neq pos pos' lim by (auto simp: bal r new balance_of_Some)
  qed
qed

definition two_users :: "rat \<Rightarrow> rat \<Rightarrow> db" where
  "two_users x y = empty_db\<lparr>users :=
     [\<lparr>u_id = 1, u_username = ''alice'', u_email = None, u_avatarStyle = ''bigSmile'',
       u_avatarBadgeId = None, u_status = U_active, u_balance = x,
     u_role = R_user, u_hostingBalance = 0, u_hourlyReserved = 0, u_affBalance = 0\<rparr>,
      \<lparr>u_id = 2, u_username = ''bob'', u_email = None, u_avatarStyle = ''bigSmile'',
       u_avatarBadgeId = None, u_status = U_active, u_balance = y,
     u_role = R_user, u_hostingBalance = 0, u_hourlyReserved = 0, u_affBalance = 0\<rparr>]\<rparr>"

definition pay :: "rat \<Rightarrow> rat \<Rightarrow> transfer_input" where
  "pay amount fee = \<lparr>ti_fromUserId = 1, ti_recipientId = 2, ti_amount = Some amount, ti_fee = Some fee\<rparr>"

lemma has_scale_numeral_div [simp]:
  "has_scale 2 (numeral n)" "has_scale 8 (numeral n)"
  using has_scale_of_int [of 2 "numeral n"] has_scale_of_int [of 8 "numeral n"] by simp_all

lemma has_scale_1 [simp]: "has_scale d 1"
  using has_scale_of_int [of d 1] by simp

lemma two_users_wf: "has_scale 8 x \<Longrightarrow> has_scale 8 y \<Longrightarrow> balances_wf (two_users x y)"
  by (simp add: balances_wf_def two_users_def empty_db_def)

lemma two_users_balance: "balance_of (two_users x y) 1 = x" "balance_of (two_users x y) 2 = y"
  by (simp_all add: balance_of_def two_users_def empty_db_def)

theorem transfer_conserves_money_witness:
  "\<exists>r s'. transferBalanceBetweenUsers (\<lambda>_. None) ''BT1'' (pay 3 1) (two_users 10 5) = Inr (r, s')
     \<and> balance_of s' 1 = 6 \<and> balance_of s' 2 = 8 \<and> total_balance s' = total_balance (two_users 10 5) - 1"
proof -
  have "case transferBalanceBetweenUsers (\<lambda>_. None) ''BT1'' (pay 3 1) (two_users 10 5) of
      Inr (r, s') \<Rightarrow> tr_amount r = 3 \<and> tr_fee r = 1 | Inl e \<Rightarrow> False"
    by code_simp
  then obtain r s' where run: "transferBalanceBetweenUsers (\<lambda>_. None) ''BT1'' (pay 3 1) (two_users 10 5) = Inr (r, s')"
    and r: "tr_amount r = 3" "tr_fee r = 1" by (auto split: sum.splits)
  have ids: "ti_fromUserId (pay 3 1) = 1" "ti_recipientId (pay 3 1) = 2"
    by (simp_all add: pay_def)
  show ?thesis
    using transfer_conserves_money [OF two_users_wf run] run r
    by (auto simp: ids two_users_balance)
qed

text \<open>The preview shown to the sender and the transfer agree: on the same database the transfer
  (when the database reports no conflict) succeeds exactly when the preview does, and reports the same
  amount, fee, deduction and balance afterwards.\<close>

theorem preview_agrees_with_transfer:
  "(case buildBalanceTransferPreview ti s of
      Inr p \<Rightarrow> (\<exists>s'. transferBalanceBetweenUsers (\<lambda>_. None) no ti s = Inr (p\<lparr>tr_transferNo := Some no\<rparr>, s'))
    | Inl e \<Rightarrow> (\<exists>e'. transferBalanceBetweenUsers (\<lambda>_. None) no ti s = Inl e'))"
proof (cases "normalizeBalanceTransferAmount (ti_amount ti)")
  case (Inr a)
  show ?thesis
  proof (cases "normalizeBalanceTransferFee (ti_fee ti)")
    case fee: (Inr fee)
    have sc: "has_scale 2 a" "has_scale 2 fee"
      using Inr fee normalizeAmount_Inr normalizeFee_Inr by blast+
    have quiet: "runBalanceTransaction (\<lambda>_. None) (transfer_tx f t a fee no) s = transfer_tx f t a fee no s" for f t
      by (rule run_quiet)
         (auto simp: transfer_tx_def Let_def isRetryableBalanceTransactionError_def split: option.splits if_splits)
    show ?thesis
      using Inr fee
      by (auto simp: buildBalanceTransferPreview_def transferBalanceBetweenUsers_def quiet transfer_tx_def
          Let_def roundMoney_transfer [OF sc] dest: find_key_SomeD split: option.splits)
  qed (simp add: Inr buildBalanceTransferPreview_def transferBalanceBetweenUsers_def)
qed (simp add: buildBalanceTransferPreview_def transferBalanceBetweenUsers_def)

text \<open>What a recorded change does to the balances: the balance becomes the old one rounded to
  cents plus the (whole-cent) amount, so it is exact for whole-cent balances and off by at most half a
  cent (and the source's epsilon) otherwise; nobody else's balance moves; a debit never leaves a
  negative balance; one entry with the balance before and after is appended.\<close>

theorem change_rounds_balance:
  assumes "balances_wf s" and "changeBalance conflict ci s = (Changed e v, s')"
    and "has_scale 2 (ci_amount ci)"
  shows "balance_of s' (ci_userId ci) = roundMoney (balance_of s (ci_userId ci)) + ci_amount ci
    \<and> v = balance_of s' (ci_userId ci)
    \<and> \<bar>balance_of s' (ci_userId ci) - (balance_of s (ci_userId ci) + ci_amount ci)\<bar> \<le> 1 / 200 + EPSILON
    \<and> (has_scale 2 (balance_of s (ci_userId ci)) \<longrightarrow>
        balance_of s' (ci_userId ci) = balance_of s (ci_userId ci) + ci_amount ci)
    \<and> (\<forall>k. k \<noteq> ci_userId ci \<longrightarrow> balance_of s' k = balance_of s k)
    \<and> (ci_amount ci < 0 \<longrightarrow> 0 \<le> balance_of s' (ci_userId ci))
    \<and> balance_logs s' = balance_logs s @ [e]
    \<and> bl_before e = balance_of s (ci_userId ci) \<and> bl_after e = balance_of s' (ci_userId ci)"
proof -
  from assms(2) have "change_tx ci s = Inr ((e, v), s')" by (rule changeBalanceE)
  then show ?thesis
  proof (rule change_txE)
    fix u
    let ?k = "ci_userId ci" and ?a = "ci_amount ci"
    assume u: "find_key u_id ?k (users s) = Some u"
      and guard: "\<not> (?a < 0 \<and> roundMoney (u_balance u + ?a) < 0)"
      and s': "s' = add_log (mk_log ?k (ci_type ci) ?a (u_balance u)
            (roundMoney (u_balance u + ?a)) (ci_orderId ci) (ci_instanceId ci) None (ci_remark ci))
          (put_balance ?k (roundMoney (u_balance u + ?a)) s)"
      and v: "snd (e, v) = roundMoney (u_balance u + ?a)"
    have shift: "roundMoney (u_balance u + ?a) = roundMoney (u_balance u) + ?a"
      using assms(3) by (rule roundMoney_shift)
    from s' have "e = mk_log ?k (ci_type ci) ?a (u_balance u)
            (roundMoney (u_balance u + ?a)) (ci_orderId ci) (ci_instanceId ci) None (ci_remark ci)"
      using \<open>change_tx ci s = Inr ((e, v), s')\<close> u by (auto simp: change_tx_def Let_def split: if_splits)
    then show ?thesis
      using u guard v s' roundMoney_error [of "u_balance u"] balances_wf_scale [OF assms(1) u]
      by (auto simp: balance_of_Some balance_of_put shift [symmetric] roundMoney_id to_fixed_id not_less)
         (auto simp: shift roundMoney_id)
  qed
qed

definition debit_of :: "int \<Rightarrow> rat \<Rightarrow> change_input" where
  "debit_of k amount = \<lparr>ci_userId = k, ci_type = BL_consume, ci_amount = - amount, ci_orderId = None,
     ci_instanceId = Some 7, ci_remark = None\<rparr>"

theorem change_rounds_balance_witness:
  "\<exists>e v s'. changeBalance (\<lambda>_. None) (debit_of 1 3) (two_users 10 5) = (Changed e v, s')
     \<and> balance_of s' 1 = 7 \<and> balance_logs s' = [e]"
proof -
  have "case changeBalance (\<lambda>_. None) (debit_of 1 3) (two_users 10 5) of
      (Changed e v, s') \<Rightarrow> True | _ \<Rightarrow> False"
    by code_simp
  then obtain e v s' where run: "changeBalance (\<lambda>_. None) (debit_of 1 3) (two_users 10 5) = (Changed e v, s')"
    by (auto split: prod.splits change_result.splits)
  have "has_scale 2 (ci_amount (debit_of 1 3))"
    by (simp add: debit_of_def has_scale_uminus)
  from change_rounds_balance [OF two_users_wf run this]
  have "balance_of s' 1 = 7 \<and> balance_logs s' = [e]"
    by (simp add: debit_of_def two_users_balance) (simp add: two_users_def empty_db_def)
  with run show ?thesis by blast
qed

text \<open>A balance below a cent can be overdrawn: balances carry eight decimals (hourly billing writes
  them), but the check that a debit is covered looks at the rounded result, so a user with half a cent
  pays a whole cent, and a transfer out of 10.005 leaves 9.01, creating half a cent.\<close>

theorem sub_cent_balance_overdrawn:
  "(case changeBalance (\<lambda>_. None) (debit_of 1 (1 / 100)) (two_users (1 / 200) 0) of
      (Changed e v, s') \<Rightarrow> balance_of s' 1 = 0 \<and> bl_amount e = - 1 / 100 | _ \<Rightarrow> False)
   \<and> (case transferBalanceBetweenUsers (\<lambda>_. None) ''BT1'' (pay 1 0) (two_users (2001 / 200) 0) of
        Inr (r, s') \<Rightarrow> total_balance s' = total_balance (two_users (2001 / 200) 0) + 1 / 200
      | Inl e \<Rightarrow> False)"
  by code_simp



text \<open>Refunds are bounded by consumption: after a refund of at most the refundable amount of an
  instance, what remains refundable is exactly the rest, so refunds that respect the bound never add
  up to more than was consumed.\<close>

theorem refund_uses_up_refundable:
  assumes "balances_wf s"
    and "refundToBalance conflict userId amount instanceId remark s = (Changed e v, s')"
    and "has_scale 2 amount" and "0 \<le> amount" and "amount \<le> getInstanceRefundableAmount instanceId s"
  shows "getInstanceRefundableAmount instanceId s' = getInstanceRefundableAmount instanceId s - amount"
proof -
  let ?ci = "\<lparr>ci_userId = userId, ci_type = BL_refund, ci_amount = \<bar>amount\<bar>, ci_orderId = None,
    ci_instanceId = Some instanceId, ci_remark = remark\<rparr>"
  from assms(2) have "changeBalance conflict ?ci s = (Changed e v, s')"
    by (simp add: refundToBalance_def)
  then have "change_tx ?ci s = Inr ((e, v), s')" by (rule changeBalanceE)
  then obtain v' where "balance_logs s' = balance_logs s @
      [mk_log userId BL_refund amount (fst v') (snd v') None (Some instanceId) None remark]"
    using assms(4) by (elim change_txE) (auto intro!: that [of "(x, y)" for x y])
  moreover have "column 8 amount = amount" using assms(3) by (intro to_fixed_id has_scale_28)
  ultimately have "getInstanceTotalConsume instanceId s' = getInstanceTotalConsume instanceId s"
    and "getInstanceTotalRefund instanceId s' = getInstanceTotalRefund instanceId s + amount"
    by (simp_all add: getInstanceTotalConsume_def getInstanceTotalRefund_def sum_amounts_def)
  then show ?thesis using assms(4,5)
    by (auto simp: getInstanceRefundableAmount_def max_def split: if_splits)
qed

definition after_purchase :: db where
  "after_purchase = snd (changeBalance (\<lambda>_. None) (debit_of 1 3) (two_users 10 5))"

theorem refund_uses_up_refundable_witness:
  "\<exists>e v s'. refundToBalance (\<lambda>_. None) 1 2 7 None after_purchase = (Changed e v, s')
     \<and> getInstanceRefundableAmount 7 s' = getInstanceRefundableAmount 7 after_purchase - 2
     \<and> getInstanceRefundableAmount 7 after_purchase = 3"
proof -
  have "case refundToBalance (\<lambda>_. None) 1 2 7 None after_purchase of
      (Changed e v, s') \<Rightarrow> True | _ \<Rightarrow> False"
    by code_simp
  then obtain e v s' where run: "refundToBalance (\<lambda>_. None) 1 2 7 None after_purchase = (Changed e v, s')"
    by (auto split: prod.splits change_result.splits)
  have three: "getInstanceRefundableAmount 7 after_purchase = 3" by code_simp
  have "balances_wf after_purchase"
    unfolding after_purchase_def
    by (rule conjunct2 [OF changeBalance_logged [OF two_users_wf surjective_pairing]]) simp_all
  from refund_uses_up_refundable [OF this run] run three show ?thesis by auto
qed

text \<open>Consumption is counted once: paying for an instance out of a whole-cent balance raises the
  user's total consumption by exactly the amount paid.\<close>

theorem consume_counts_once:
  assumes "balances_wf s" and "consumeBalance conflict userId amount instanceId remark s = (Changed e v, s')"
    and "has_scale 2 amount" and "has_scale 2 (balance_of s userId)" and "0 < userId"
  shows "getUserTotalConsume userId s' = getUserTotalConsume userId s + \<bar>amount\<bar>"
proof -
  let ?ci = "\<lparr>ci_userId = userId, ci_type = BL_consume, ci_amount = - \<bar>amount\<bar>, ci_orderId = None,
    ci_instanceId = Some instanceId, ci_remark = remark\<rparr>"
  have abs: "has_scale 2 \<bar>amount\<bar>" using assms(3) by (simp add: abs_if has_scale_uminus)
  then have sc: "has_scale 2 (ci_amount ?ci)" by (simp add: has_scale_uminus)
  have run: "changeBalance conflict ?ci s = (Changed e v, s')"
    using assms(2) by (simp add: consumeBalance_def)
  have logs: "balance_logs s' = balance_logs s @ [e]" and "bl_before e = balance_of s userId"
    and "bl_after e = balance_of s userId - \<bar>amount\<bar>"
    using change_rounds_balance [OF assms(1) run sc] assms(4) by auto
  moreover have "bl_userId e = userId" "bl_type e = BL_consume" "bl_amount e = - \<bar>amount\<bar>"
    using changeBalanceE [OF run] abs
    by (auto simp: change_tx_def Let_def to_fixed_id has_scale_28 split: option.splits if_splits)
  ultimately have "consumed e = \<bar>amount\<bar>" and "is_consumption e"
    by (simp_all add: consumed_def is_consumption_def)
  with \<open>bl_userId e = userId\<close> logs assms(5) show ?thesis
    by (simp add: getUserTotalConsume_def getUsersTotalConsumeMap_def Let_def)
qed

theorem consume_counts_once_witness:
  "\<exists>e v s'. consumeBalance (\<lambda>_. None) 1 3 7 None (two_users 10 5) = (Changed e v, s')
     \<and> getUserTotalConsume 1 s' = 3"
proof -
  have "case consumeBalance (\<lambda>_. None) 1 3 7 None (two_users 10 5) of
      (Changed e v, s') \<Rightarrow> True | _ \<Rightarrow> False"
    by code_simp
  then obtain e v s' where run: "consumeBalance (\<lambda>_. None) 1 3 7 None (two_users 10 5) = (Changed e v, s')"
    by (auto split: prod.splits change_result.splits)
  have "getUserTotalConsume 1 (two_users 10 5) = 0" by code_simp
  with consume_counts_once [OF two_users_wf run] run show ?thesis
    by (auto simp: two_users_balance)
qed

end
