(* ===== verification/BillingCalc.thy ===== *)
theory BillingCalc
  imports Prelude
begin

text \<open>
  Prices, refunds and renewals: \<open>server/src/lib/billing-calc.ts\<close>. Prices and rates are rationals,
  \<open>Number(x.toFixed(d))\<close> is \<open>to_fixed d x\<close>, billing cycles are whole months and times are
  milliseconds. A cycle of zero months divides by zero in the source (it yields \<open>Infinity\<close> or
  \<open>NaN\<close>); the statements below are about positive cycles. \<open>Date.setDate\<close> moves the day of the
  month on a clock without daylight saving shifts, which adds whole days.
\<close>

section \<open>Cycles and prices\<close>

definition CYCLE_DAYS :: "int \<Rightarrow> int option" where
  "CYCLE_DAYS = [1 \<mapsto> 31, 3 \<mapsto> 93, 6 \<mapsto> 186, 12 \<mapsto> 372]"

text \<open>\<open>CYCLE_DAYS[billingCycle] || (billingCycle * 31)\<close>: a missing or zero entry is false.\<close>

definition getCycleDays :: "int \<Rightarrow> int" where
  "getCycleDays billingCycle =
     (case CYCLE_DAYS billingCycle of
        Some d \<Rightarrow> if d \<noteq> 0 then d else billingCycle * 31
      | None \<Rightarrow> billingCycle * 31)"

definition calculateDailyPrice :: "rat \<Rightarrow> int \<Rightarrow> rat" where
  "calculateDailyPrice price billingCycle = price / of_int (getCycleDays billingCycle)"

definition calculateMonthlyPrice :: "rat \<Rightarrow> int \<Rightarrow> rat" where
  "calculateMonthlyPrice price billingCycle =
     price / of_int (max (if billingCycle = 0 then 1 else billingCycle) 1)"

definition calculateDiscountedPrice :: "rat \<Rightarrow> rat \<Rightarrow> rat" where
  "calculateDiscountedPrice originalPrice discountRate = to_fixed 2 (originalPrice * (1 - discountRate))"

definition calculateDiscountAmount :: "rat \<Rightarrow> rat \<Rightarrow> rat" where
  "calculateDiscountAmount originalPrice discountRate = to_fixed 2 (originalPrice * discountRate)"

section \<open>Remaining time and value\<close>

definition day_ms :: int where
  "day_ms = 24 * 60 * 60 * 1000"

definition calculateRemainingDays :: "int \<Rightarrow> int \<Rightarrow> int" where
  "calculateRemainingDays expiresAt now =
     max 0 \<lceil>(of_int (expiresAt - now) :: rat) / of_int day_ms\<rceil>"

definition calculateRemainingDaysPrecise :: "int \<Rightarrow> int \<Rightarrow> rat" where
  "calculateRemainingDaysPrecise expiresAt now = max 0 (of_int (expiresAt - now) / of_int day_ms)"

definition effective_price :: "rat \<Rightarrow> rat \<Rightarrow> rat" where
  "effective_price price discountRate =
     (if discountRate > 0 then calculateDiscountedPrice price discountRate else price)"

definition calculateRemainingValue :: "rat \<Rightarrow> int \<Rightarrow> rat \<Rightarrow> rat \<Rightarrow> rat" where
  "calculateRemainingValue price billingCycle remainingDays discountRate =
     (let effectivePrice = effective_price price discountRate;
          dailyPrice = calculateDailyPrice effectivePrice billingCycle in
      to_fixed 2 (dailyPrice * remainingDays))"

definition calculateSafeRefundAmount :: "rat \<Rightarrow> int \<Rightarrow> rat \<Rightarrow> rat \<Rightarrow> rat option \<Rightarrow> rat" where
  "calculateSafeRefundAmount price billingCycle remainingDays discountRate maxRefundable =
     (let effectivePrice = effective_price price discountRate;
          cycleDays = getCycleDays billingCycle;
          remainingRatio = min (remainingDays / of_int cycleDays) 1;
          refundAmount = to_fixed 2 (effectivePrice * remainingRatio) in
      case maxRefundable of Some m \<Rightarrow> min refundAmount m | None \<Rightarrow> refundAmount)"

section \<open>Plan changes\<close>




section \<open>Renewals\<close>

record renew_amount =
  ra_originalAmount :: rat
  ra_discountAmount :: rat
  ra_finalAmount :: rat

definition calculateRenewAmount :: "rat \<Rightarrow> int \<Rightarrow> rat \<Rightarrow> renew_amount" where
  "calculateRenewAmount monthlyPrice months discountRate =
     (let originalAmount = to_fixed 2 (monthlyPrice * of_int months);
          discountAmount = (if discountRate > 0 then to_fixed 2 (originalAmount * discountRate) else 0);
          finalAmount = to_fixed 2 (originalAmount - discountAmount) in
      \<lparr>ra_originalAmount = originalAmount, ra_discountAmount = discountAmount, ra_finalAmount = finalAmount\<rparr>)"

definition addMonths :: "int \<Rightarrow> int \<Rightarrow> int" where
  "addMonths date months = (let daysToAdd = months * 31 in date + daysToAdd * day_ms)"

section \<open>Lemmas\<close>

lemma getCycleDays_eq: "getCycleDays c = 31 * c"
  by (simp add: getCycleDays_def CYCLE_DAYS_def)

lemma day_ms_pos: "0 < day_ms"
  by (simp add: day_ms_def)

lemma discounted_le:
  assumes "0 \<le> p" "has_scale 2 p" "0 \<le> r"
  shows "calculateDiscountedPrice p r \<le> p"
proof -
  have "p * (1 - r) \<le> p * 1" using assms by (intro mult_left_mono) auto
  then show ?thesis using assms(2) by (simp add: calculateDiscountedPrice_def to_fixed_le)
qed

lemma discounted_nonneg: "0 \<le> p \<Longrightarrow> r \<le> 1 \<Longrightarrow> 0 \<le> calculateDiscountedPrice p r"
  by (simp add: calculateDiscountedPrice_def to_fixed_nonneg)

lemma effective_price_bounds:
  assumes "0 \<le> p" "has_scale 2 p" "0 \<le> r" "r \<le> 1"
  shows "0 \<le> effective_price p r" "effective_price p r \<le> p" "has_scale 2 (effective_price p r)"
  using assms discounted_le discounted_nonneg
  by (auto simp: effective_price_def calculateDiscountedPrice_def)




section \<open>Properties\<close>

text \<open>A refund is safe: for a price in whole cents and a discount rate in [0, 1], the refund for
  any remaining time is between zero and the price actually paid, which is at most the list price; it
  is the whole paid price once the remaining time covers the cycle, it never shrinks when more time
  remains, and a cap given is respected.\<close>

theorem safe_refund_bounded:
  assumes "0 \<le> price" "has_scale 2 price" "0 \<le> rate" "rate \<le> 1" "0 < cycle" "0 \<le> days" "days \<le> days'"
  shows "0 \<le> calculateSafeRefundAmount price cycle days rate None
    \<and> calculateSafeRefundAmount price cycle days rate None \<le> calculateSafeRefundAmount price cycle days' rate None
    \<and> calculateSafeRefundAmount price cycle days' rate None \<le> effective_price price rate
    \<and> effective_price price rate \<le> price
    \<and> (of_int (31 * cycle) \<le> days \<longrightarrow>
        calculateSafeRefundAmount price cycle days rate None = effective_price price rate)
    \<and> calculateSafeRefundAmount price cycle days rate (Some cap) \<le> cap"
proof -
  let ?e = "effective_price price rate" and ?D = "of_int (31 * cycle) :: rat"
  have e: "0 \<le> ?e" "?e \<le> price" "has_scale 2 ?e" using effective_price_bounds assms by auto
  have D: "0 < ?D" using assms(5) by simp
  define m where "m d = min (d / ?D) 1" for d :: rat
  have m: "0 \<le> m days" "m days \<le> m days'" "m days' \<le> 1"
    using assms D by (auto simp: m_def divide_right_mono min_le_iff_disj)
  have r: "calculateSafeRefundAmount price cycle d rate None = to_fixed 2 (?e * m d)" for d
    by (simp add: calculateSafeRefundAmount_def getCycleDays_eq Let_def m_def)
  have "m days = 1" if "?D \<le> days" using that D by (simp add: m_def)
  moreover have "?e * m days' \<le> ?e" using e(1) m(3) mult_left_mono [of "m days'" 1 ?e] by simp
  ultimately show ?thesis
    using e m D by (auto simp: r to_fixed_id intro!: to_fixed_nonneg to_fixed_mono to_fixed_le mult_left_mono)
      (simp add: calculateSafeRefundAmount_def Let_def)
qed

theorem safe_refund_bounded_witness:
  "calculateSafeRefundAmount 120 12 90 (1 / 10) None \<le> calculateSafeRefundAmount 120 12 100 (1 / 10) None
    \<and> calculateSafeRefundAmount 120 12 90 (1 / 10) (Some 20) \<le> 20"
  using safe_refund_bounded [of 120 "1 / 10" 12 90 100 20] has_scale_of_int [of 2 120] by simp




text \<open>A renewal's amounts add up: the discount and the amount charged are both between zero and the
  original amount and together are the original amount, without a lost or extra cent.\<close>

theorem renewal_splits_exactly:
  assumes "0 \<le> monthlyPrice" "0 \<le> months" "0 \<le> rate" "rate \<le> 1"
  shows "case calculateRenewAmount monthlyPrice months rate of r \<Rightarrow>
     ra_discountAmount r + ra_finalAmount r = ra_originalAmount r
     \<and> 0 \<le> ra_discountAmount r \<and> 0 \<le> ra_finalAmount r"
proof -
  let ?o = "to_fixed 2 (monthlyPrice * of_int months)"
  have o: "0 \<le> ?o" using assms by (simp add: to_fixed_nonneg)
  have "0 \<le> to_fixed 2 (?o * rate)" using o assms(3) by (simp add: to_fixed_nonneg)
  moreover have "to_fixed 2 (?o * rate) \<le> ?o"
    using o assms(4) mult_left_mono [of rate 1 ?o] by (intro to_fixed_le) auto
  moreover have "to_fixed 2 (?o - to_fixed 2 (?o * rate)) = ?o - to_fixed 2 (?o * rate)"
    by (rule to_fixed_id) (auto intro: has_scale_diff)
  ultimately show ?thesis using o by (simp add: calculateRenewAmount_def Let_def)
qed

theorem renewal_splits_exactly_witness:
  "ra_discountAmount (calculateRenewAmount (999 / 100) 7 (33 / 100))
     + ra_finalAmount (calculateRenewAmount (999 / 100) 7 (33 / 100)) = 6993 / 100"
proof -
  have "ra_originalAmount (calculateRenewAmount (999 / 100) 7 (33 / 100)) = 6993 / 100" by code_simp
  then show ?thesis using renewal_splits_exactly [of "999 / 100" 7 "33 / 100"] by simp
qed

text \<open>Time bought is time left: an instance extended by whole months has exactly that cycle's days
  remaining at the moment of extension, rounded up at any later moment within the first day, and a
  date in the past has none.\<close>

theorem bought_time_remains:
  assumes "0 \<le> months" "0 \<le> elapsed" "elapsed < day_ms"
  shows "calculateRemainingDays (addMonths t months) t = getCycleDays months
    \<and> (0 < months \<longrightarrow> calculateRemainingDays (addMonths t months) (t + elapsed) = getCycleDays months)
    \<and> calculateRemainingDays t (t + elapsed) = 0"
proof -
  have d: "(0::rat) < of_int day_ms" by (simp add: day_ms_pos)
  have past: "calculateRemainingDays t (t + elapsed) = 0"
    using assms d by (simp add: calculateRemainingDays_def max_absorb1 ceiling_le_iff divide_nonpos_pos)
  have "\<lceil>of_int (months * 31 * day_ms - elapsed) / (of_int day_ms :: rat)\<rceil> = months * 31"
    using assms d by (intro ceiling_unique) (auto simp: field_simps simp flip: of_int_less_iff of_int_le_iff)
  then have "calculateRemainingDays (addMonths t months) (t + elapsed) = months * 31"
    using assms by (simp add: calculateRemainingDays_def addMonths_def algebra_simps)
  moreover have "calculateRemainingDays (addMonths t months) t = months * 31"
  proof -
    have "(of_int (months * 31 * day_ms) / of_int day_ms :: rat) = of_int (months * 31)" using d by simp
    then show ?thesis using assms(1) unfolding calculateRemainingDays_def addMonths_def Let_def
      by (simp only: add_diff_cancel_left' ceiling_of_int)
  qed
  ultimately show ?thesis using past by (simp add: getCycleDays_eq)
qed

theorem bought_time_remains_witness:
  "calculateRemainingDays (addMonths 1000 3) 5000 = 93"
proof -
  have "getCycleDays 3 = 93" by code_simp
  then show ?thesis using bought_time_remains [of 3 4000 1000] by (simp add: day_ms_def)
qed

end
