(* ===== verification/Hosting.thy ===== *)
theory Hosting
  imports Balance BillingCalc "HOL-Library.Multiset"
begin

text \<open>
  The income of users who host machines: the hosting part of \<open>server/src/db/billing-operations.ts\<close>
  (who owns the income of a host, the frozen income of a purchase or renewal, the deduction when a
  buyer is refunded) and \<open>server/src/services/hosting-scheduler.ts\<close> (income becomes available after
  its freeze). Income of an instance is a frozen row of \<open>hosting_logs\<close> until it is released into the
  owner's \<open>u_hostingBalance\<close>. Whether an advisory lock is granted is an argument.
\<close>

section \<open>Lookups\<close>

text \<open>\<open>findFirst\<close> with \<open>orderBy: { createdAt: 'desc' }\<close>.\<close>

definition latest :: "('r \<Rightarrow> int) \<Rightarrow> 'r list \<Rightarrow> 'r option" where
  "latest time rows = (if rows = [] then None else Some (last (sort_key time rows)))"

lemma latest_Some: "latest time rows = Some r \<Longrightarrow> r \<in> set rows \<and> (\<forall>q\<in>set rows. time q \<le> time r)"
proof -
  assume a: "latest time rows = Some r"
  then have "rows \<noteq> []" and r: "r = last (sort_key time rows)"
    by (auto simp: latest_def split: if_splits)
  then have ne: "sort_key time rows \<noteq> []" by (metis set_empty set_sort)
  define qs where "qs = sort_key time rows"
  have "sorted (map time qs)" by (simp add: qs_def)
  moreover from ne have "qs = butlast qs @ [r]" by (simp add: r qs_def)
  ultimately have "sorted (map time (butlast qs) @ [time r])" by (metis list.simps(8,9) map_append)
  then have "time q \<le> time r" if "q \<in> set (butlast qs)" for q
    using that by (auto simp: sorted_append)
  with \<open>qs = butlast qs @ [r]\<close> have "\<forall>q\<in>set qs. time q \<le> time r"
    by (metis Un_iff list.set(1,2) order_refl set_append singletonD)
  then show ?thesis using last_in_set [OF ne] r by (simp add: qs_def)
qed

lemma latest_None [simp]: "latest time rows = None \<longleftrightarrow> rows = []"
  by (simp add: latest_def)

definition role_of :: "int \<Rightarrow> db \<Rightarrow> user_role option" where
  "role_of k s = map_option u_role (find_key u_id k (users s))"

definition hosting_of :: "db \<Rightarrow> int \<Rightarrow> rat" where
  "hosting_of s k = (case find_key u_id k (users s) of None \<Rightarrow> 0 | Some u \<Rightarrow> u_hostingBalance u)"

definition set_hosting :: "rat \<Rightarrow> user \<Rightarrow> user" where
  "set_hosting v u = u\<lparr>u_hostingBalance := column 8 v\<rparr>"

definition put_hosting :: "int \<Rightarrow> rat \<Rightarrow> db \<Rightarrow> db" where
  "put_hosting k v s = s\<lparr>users := update_key u_id k (set_hosting v) (users s)\<rparr>"

section \<open>Income\<close>

text \<open>The owner of the income of a host: a user who is not an administrator; for refunds also the
  last user who earned from the instance, when an administrator has taken the host over.\<close>

definition resolveHostedIncomeOwner :: "int \<Rightarrow> int option \<Rightarrow> bool \<Rightarrow> db \<Rightarrow> int option" where
  "resolveHostedIncomeOwner hostId instanceId allowHistoricalFallback s =
     (case find_key h_id hostId (hosts s) of
        None \<Rightarrow> None
      | Some host \<Rightarrow>
          if role_of (h_userId host) s \<noteq> Some R_admin then Some (h_userId host)
          else if \<not> allowHistoricalFallback \<or> instanceId = None \<or> instanceId = Some 0 then None
          else case latest hl_createdAt
              (filter (\<lambda>l. hl_relatedId l = instanceId \<and> hl_type l = HT_income) (hosting_logs s)) of
            None \<Rightarrow> None
          | Some latestIncomeLog \<Rightarrow>
              (case role_of (hl_userId latestIncomeLog) s of
                 None \<Rightarrow> None
               | Some R_admin \<Rightarrow> None
               | Some R_user \<Rightarrow> Some (hl_userId latestIncomeLog)))"

definition isUserHostedNode :: "int \<Rightarrow> db \<Rightarrow> bool" where
  "isUserHostedNode hostId s =
     (case find_key h_id hostId (hosts s) of None \<Rightarrow> False | Some host \<Rightarrow> role_of (h_userId host) s = Some R_user)"

definition getHostOwnerId :: "int \<Rightarrow> db \<Rightarrow> int option" where
  "getHostOwnerId hostId s = map_option h_userId (find_key h_id hostId (hosts s))"

definition createHostingLogWithSnapshot ::
    "int \<Rightarrow> int \<Rightarrow> hosting_type \<Rightarrow> hosting_action \<Rightarrow> rat \<Rightarrow> int \<Rightarrow> bool \<Rightarrow> int option \<Rightarrow> remark \<Rightarrow> db \<Rightarrow> db" where
  "createHostingLogWithSnapshot now userId ty actionType amount instanceId frozen unfreezeAt remark s =
     (let i = find_key i_id instanceId (instances s);
          buyer = (case i of None \<Rightarrow> None | Some r \<Rightarrow> find_key u_id (i_userId r) (users s));
          entry = \<lparr>hl_id = hosting_seq s, hl_userId = userId, hl_type = ty, hl_action = Some actionType,
            hl_amount = column 8 amount, hl_frozen = frozen, hl_unfreezeAt = unfreezeAt,
            hl_relatedId = Some instanceId, hl_remark = Some remark,
            hl_buyer = map_option (\<lambda>u. (u_username u, u_email u, u_avatarStyle u)) buyer,
            hl_instanceName = map_option i_name i, hl_createdAt = now\<rparr> in
      s\<lparr>hosting_logs := hosting_logs s @ [entry], hosting_seq := hosting_seq s + 1\<rparr>)"

definition recordHostingIncome :: "int \<Rightarrow> int \<Rightarrow> rat \<Rightarrow> int \<Rightarrow> remark \<Rightarrow> hosting_action \<Rightarrow> db \<Rightarrow> db" where
  "recordHostingIncome now hostOwnerId amount instanceId remark actionType s =
     createHostingLogWithSnapshot now hostOwnerId HT_income actionType amount instanceId True
       (Some (addMonths now 1)) remark s"

definition processHostingIncome :: "int \<Rightarrow> int \<Rightarrow> rat \<Rightarrow> int \<Rightarrow> hosting_action \<Rightarrow> db \<Rightarrow> int option \<times> db" where
  "processHostingIncome now hostId amount instanceId ty s =
     (case find_key h_id hostId (hosts s) of
        None \<Rightarrow> (None, s)
      | Some host \<Rightarrow>
          if role_of (h_userId host) s = Some R_admin then (None, s)
          else (Some (h_userId host),
            recordHostingIncome now (h_userId host) amount instanceId (R_hosting_income ty) ty s))"

section \<open>Deduction\<close>

definition frozen_income :: "int \<Rightarrow> int \<Rightarrow> hosting_log \<Rightarrow> bool" where
  "frozen_income owner instanceId l \<longleftrightarrow>
     hl_userId l = owner \<and> hl_relatedId l = Some instanceId \<and> hl_type l = HT_income \<and> hl_frozen l"

definition use_part :: "rat \<Rightarrow> hosting_log \<Rightarrow> hosting_log" where
  "use_part d r = r\<lparr>hl_amount := column 8 (hl_amount r - d)\<rparr>"

text \<open>The first step: the frozen income of the instance, oldest first; a row that is used up is
  deleted, a row that is used in part keeps the rest.\<close>

fun from_frozen :: "hosting_log list \<Rightarrow> rat \<Rightarrow> rat \<Rightarrow> hosting_log list \<Rightarrow> rat \<times> rat \<times> hosting_log list" where
  "from_frozen [] remaining fromFrozen t = (remaining, fromFrozen, t)"
| "from_frozen (l # ls) remaining fromFrozen t =
     (if remaining \<le> 0 then (remaining, fromFrozen, t)
      else
        let logAmount = hl_amount l;
            deductFromThis = min logAmount remaining;
            t' = (if deductFromThis \<ge> logAmount then delete_where (\<lambda>r. hl_id r = hl_id l) t
                  else update_key hl_id (hl_id l) (use_part deductFromThis) t) in
        from_frozen ls (remaining - deductFromThis) (fromFrozen + deductFromThis) t')"

text \<open>The second step: income already released, when the owner holds any.\<close>

definition from_available :: "int \<Rightarrow> rat \<Rightarrow> db \<Rightarrow> rat \<times> db" where
  "from_available owner remaining s =
     (let availableHostingBalance = hosting_of s owner;
          d = min availableHostingBalance remaining in
      if d > 0 \<and> count_where (\<lambda>u. u_id u = owner \<and> u_hostingBalance u \<ge> d) (users s) = 1
      then (d, put_hosting owner (availableHostingBalance - d) s)
      else (0, s))"

text \<open>The third step: the owner's balance, never below zero.\<close>

definition from_balance :: "int \<Rightarrow> int \<Rightarrow> rat \<Rightarrow> db \<Rightarrow> rat \<times> db" where
  "from_balance owner instanceId remaining s =
     (let availableBalance = balance_of s owner;
          d = min availableBalance remaining in
      if d > 0 \<and> count_where (\<lambda>u. u_id u = owner \<and> u_balance u \<ge> d) (users s) = 1
      then
        let s1 = put_balance owner (availableBalance - d) s;
            balanceAfter = balance_of s1 owner;
            balanceBefore = to_fixed 2 (balanceAfter + d) in
        (d, add_log (mk_log owner BL_hosting_deduction (column 8 (- d)) (column 8 balanceBefore) balanceAfter
               None (Some instanceId) None (Some R_hosting_shortfall)) s1)
      else (0, s))"

record deduction =
  dd_hostOwnerId :: int
  dd_deductedAmount :: rat
  dd_fromFrozen :: rat
  dd_fromAvailable :: rat
  dd_fromBalance :: rat

definition deductHostingBalance ::
    "int \<Rightarrow> bool \<Rightarrow> int \<Rightarrow> rat \<Rightarrow> int \<Rightarrow> remark \<Rightarrow> db \<Rightarrow> (deduction option \<times> db) outcome" where
  "deductHostingBalance now locked hostId amount instanceId remark s =
     (case resolveHostedIncomeOwner hostId (Some instanceId) True s of
        None \<Rightarrow> Inr (None, s)
      | Some owner \<Rightarrow>
          if \<not> locked then Inl (Failure M_hosting_busy)
          else
            let frozenLogs = sort_key hl_createdAt (filter (frozen_income owner instanceId) (hosting_logs s));
                (remaining, fromFrozen, logs) = from_frozen frozenLogs amount 0 (hosting_logs s);
                s1 = s\<lparr>hosting_logs := logs\<rparr>;
                (fromAvailable, s2) = (if remaining > 0 then from_available owner remaining s1 else (0, s1));
                remaining2 = remaining - fromAvailable;
                (fromBalance, s3) = (if remaining > 0 \<and> remaining2 > 0
                   then from_balance owner instanceId remaining2 s2 else (0, s2));
                totalDeducted = fromFrozen + fromAvailable + fromBalance;
                s4 = (if totalDeducted > 0
                  then createHostingLogWithSnapshot now owner HT_deduction HA_destroy (- totalDeducted) instanceId
                    False None (R_hosting_deducted remark fromFrozen fromAvailable fromBalance) s3
                  else s3) in
            Inr (Some \<lparr>dd_hostOwnerId = owner, dd_deductedAmount = totalDeducted, dd_fromFrozen = fromFrozen,
              dd_fromAvailable = fromAvailable, dd_fromBalance = fromBalance\<rparr>, s4))"

section \<open>Release\<close>

definition due :: "int \<Rightarrow> hosting_log \<Rightarrow> bool" where
  "due now l \<longleftrightarrow> hl_frozen l \<and> (case hl_unfreezeAt l of None \<Rightarrow> False | Some t \<Rightarrow> t \<le> now)"

text \<open>\<open>Map.set(userId, (get(userId) || 0) + amount)\<close> over the rows, users in the order they appear.\<close>

fun add_amount :: "int \<Rightarrow> rat \<Rightarrow> (int \<times> rat) list \<Rightarrow> (int \<times> rat) list" where
  "add_amount k a [] = [(k, a)]"
| "add_amount k a ((j, b) # m) = (if j = k then (j, b + a) # m else (j, b) # add_amount k a m)"

definition lockedAmounts :: "hosting_log list \<Rightarrow> (int \<times> rat) list" where
  "lockedAmounts rows = foldl (\<lambda>m r. add_amount (hl_userId r) (hl_amount r) m) [] rows"

text \<open>\<open>user.update\<close> with an increment: it throws when there is no such user.\<close>

fun credit_hosting :: "(int \<times> rat) list \<Rightarrow> db \<Rightarrow> db outcome" where
  "credit_hosting [] s = Inr s"
| "credit_hosting ((k, a) # m) s =
     (case find_key u_id k (users s) of
        None \<Rightarrow> Inl RecordNotFound
      | Some u \<Rightarrow> credit_hosting m (put_hosting k (u_hostingBalance u + a) s))"

definition unfreeze_tx :: "int \<Rightarrow> (int \<Rightarrow> bool) \<Rightarrow> int list \<Rightarrow> db \<Rightarrow> (nat \<times> db) outcome" where
  "unfreeze_tx now locked recordIds s =
     (let lockedRecords = filter (\<lambda>l. hl_id l \<in> set recordIds \<and> due now l) (hosting_logs s) in
      if lockedRecords = [] then Inr (0, s)
      else
        let amounts = lockedAmounts lockedRecords;
            lockedRecordIds = map hl_id lockedRecords in
        if \<exists>p\<in>set amounts. \<not> locked (fst p) then Inl (Failure M_unfreeze_busy)
        else
          let hit = (\<lambda>l. hl_id l \<in> set lockedRecordIds \<and> due now l) in
          if count_where hit (hosting_logs s) \<noteq> length lockedRecordIds then Inl (Failure M_unfreeze_conflict)
          else
            case credit_hosting amounts
                (s\<lparr>hosting_logs := update_where hit (\<lambda>l. l\<lparr>hl_frozen := False\<rparr>) (hosting_logs s)\<rparr>) of
              Inl e \<Rightarrow> Inl e
            | Inr s' \<Rightarrow> Inr (length lockedRecords, s'))"

text \<open>The job reads the rows to release before its transaction (\<open>s0\<close>), which runs on the database
  as the other transactions have left it (\<open>s\<close>). A failure is caught and logged.\<close>

definition unfreezeHostingBalance :: "int \<Rightarrow> (int \<Rightarrow> bool) \<Rightarrow> db \<Rightarrow> db \<Rightarrow> db" where
  "unfreezeHostingBalance now locked s0 s =
     (let frozenRecords = filter (due now) (hosting_logs s0) in
      if frozenRecords = [] then s
      else case unfreeze_tx now locked (map hl_id frozenRecords) s of Inl _ \<Rightarrow> s | Inr (_, s') \<Rightarrow> s')"

record unfreeze_stats =
  uf_total :: nat
  uf_totalAmount :: rat
  uf_nextUnfreezeAt :: "int option"

definition getPendingUnfreezeStats :: "db \<Rightarrow> unfreeze_stats" where
  "getPendingUnfreezeStats s =
     (let rows = filter hl_frozen (hosting_logs s);
          times = List.map_filter hl_unfreezeAt rows in
      \<lparr>uf_total = length rows, uf_totalAmount = (\<Sum>l\<leftarrow>rows. hl_amount l),
       uf_nextUnfreezeAt = (if times = [] then None else Some (Min (set times)))\<rparr>)"

section \<open>Lemmas\<close>

lemma set_hosting_simps [simp]: "u_id (set_hosting v u) = u_id u" "u_balance (set_hosting v u) = u_balance u"
  "u_role (set_hosting v u) = u_role u" "u_role (set_balance v u) = u_role u"
  "u_hostingBalance (set_balance v u) = u_hostingBalance u" "u_hostingBalance (set_hosting v u) = column 8 v"
  by (simp_all add: set_hosting_def set_balance_def)

lemma put_hosting_simps [simp]:
  "balance_of (put_hosting k v s) j = balance_of s j"
  "hosting_logs (put_hosting k v s) = hosting_logs s" "hosts (put_hosting k v s) = hosts s"
  "instances (put_hosting k v s) = instances s" "hosting_seq (put_hosting k v s) = hosting_seq s"
  "balance_logs (put_hosting k v s) = balance_logs s"
  by (auto simp: put_hosting_def balance_of_def find_key_update_key split: option.splits)

lemma hosting_of_put_hosting:
  "find_key u_id k (users s) = Some u \<Longrightarrow>
     hosting_of (put_hosting k v s) j = (if j = k then column 8 v else hosting_of s j)"
  by (simp add: hosting_of_def put_hosting_def find_key_update_key)

lemma put_balance_hosting [simp]:
  "hosting_logs (put_balance k v s) = hosting_logs s" "hosting_logs (add_log e s) = hosting_logs s"
  "hosting_seq (put_balance k v s) = hosting_seq s" "hosting_seq (add_log e s) = hosting_seq s"
  "hosts (put_balance k v s) = hosts s" "hosts (add_log e s) = hosts s"
  by (simp_all add: put_balance_def add_log_def)

lemma hosting_of_frame: "users s' = users s \<Longrightarrow> hosting_of s' k = hosting_of s k"
  by (simp add: hosting_of_def)

lemma hosting_of_put_balance [simp]: "hosting_of (put_balance k v s) j = hosting_of s j"
  by (auto simp: hosting_of_def put_balance_def find_key_update_key set_balance_def split: option.splits)

lemma hosting_of_add_log [simp]: "hosting_of (add_log e s) j = hosting_of s j"
  by (simp add: hosting_of_def)

lemma createHostingLog_simps [simp]:
  "users (createHostingLogWithSnapshot now k ty ac a i fr un re s) = users s"
  "hosts (createHostingLogWithSnapshot now k ty ac a i fr un re s) = hosts s"
  "instances (createHostingLogWithSnapshot now k ty ac a i fr un re s) = instances s"
  "balance_logs (createHostingLogWithSnapshot now k ty ac a i fr un re s) = balance_logs s"
  by (simp_all add: createHostingLogWithSnapshot_def Let_def)

text \<open>Rows weighted by a quantity, when the rows of a kind are counted.\<close>

definition weigh :: "(hosting_log \<Rightarrow> bool) \<Rightarrow> hosting_log list \<Rightarrow> rat" where
  "weigh Q t = (\<Sum>l\<leftarrow>t. if Q l then hl_amount l else 0)"

lemma weigh_simps [simp]:
  "weigh Q [] = 0" "weigh Q (l # t) = (if Q l then hl_amount l else 0) + weigh Q t"
  "weigh Q (t @ t') = weigh Q t + weigh Q t'"
  by (simp_all add: weigh_def)

lemma weigh_filter: "weigh Q t = (\<Sum>l\<leftarrow>filter Q t. hl_amount l)"
  by (induction t) auto

lemma weigh_sort [simp]: "weigh Q (sort_key f t) = weigh Q t"
proof -
  have "mset (map (\<lambda>l. if Q l then hl_amount l else 0) (sort_key f t)) = mset (map (\<lambda>l. if Q l then hl_amount l else 0) t)"
    by simp
  then show ?thesis unfolding weigh_def by (metis sum_mset_sum_list)
qed

lemma weigh_all: "\<forall>l\<in>set t. Q l \<Longrightarrow> weigh Q t = (\<Sum>l\<leftarrow>t. hl_amount l)"
  by (induction t) auto

lemma weigh_nonneg: "\<forall>l\<in>set t. Q l \<longrightarrow> 0 \<le> hl_amount l \<Longrightarrow> 0 \<le> weigh Q t"
  unfolding weigh_def by (intro sum_list_nonneg) auto

lemma has_scale_weigh: "\<forall>l\<in>set t. Q l \<longrightarrow> has_scale d (hl_amount l) \<Longrightarrow> has_scale d (weigh Q t)"
  by (induction t) auto

lemma sum_delete_key:
  fixes g :: "'r \<Rightarrow> 'v::ab_group_add"
  assumes "distinct (map key t)" and "find_key key k t = Some r"
  shows "(\<Sum>s\<leftarrow>delete_where (\<lambda>r. key r = k) t. g s) = (\<Sum>s\<leftarrow>t. g s) - g r"
  using assms
proof (induction t)
  case (Cons s t)
  show ?case
  proof (cases "key s = k")
    case True
    with Cons.prems have "s = r" and "\<forall>q\<in>set t. key q \<noteq> k" by (auto simp: image_iff)
    with True show ?thesis by (simp add: delete_where_def filter_id_conv)
  next
    case False
    with Cons show ?thesis by (simp add: delete_where_def algebra_simps)
  qed
qed simp

lemma hosting_key_deleted: "k' \<noteq> k \<Longrightarrow> find_key key k' (delete_where (\<lambda>r. key r = k) t) = find_key key k' t"
  by (induction t) (auto simp: delete_where_def)

lemma distinct_delete: "distinct (map key t) \<Longrightarrow> distinct (map key (delete_where P t))"
  by (induction t) (auto simp: delete_where_def)


text \<open>A row of \<open>t'\<close> is a row of \<open>t\<close>, perhaps with a smaller amount that fits its column.\<close>

definition rows_from :: "hosting_log list \<Rightarrow> hosting_log list \<Rightarrow> bool" where
  "rows_from t t' \<longleftrightarrow> (\<forall>l'\<in>set t'. \<exists>l\<in>set t. \<exists>x. l' = l\<lparr>hl_amount := x\<rparr>
     \<and> (x = hl_amount l \<or> (0 \<le> x \<and> has_scale 8 x)))"

lemma rows_from_refl: "rows_from t t"
  unfolding rows_from_def by (metis hosting_log.surjective hosting_log.update_convs(5))

lemma rows_from_trans: "rows_from t u \<Longrightarrow> rows_from u v \<Longrightarrow> rows_from t v"
  unfolding rows_from_def by fastforce

definition amount_blind :: "(hosting_log \<Rightarrow> bool) \<Rightarrow> bool" where
  "amount_blind Q \<longleftrightarrow> (\<forall>l x. Q (l\<lparr>hl_amount := x\<rparr>) = Q l)"

lemma use_part_id [simp]: "hl_id (use_part d l) = hl_id l"
  by (simp add: use_part_def)

lemma amount_blind_frozen [simp]:
  "amount_blind (frozen_income k i)" "amount_blind (\<lambda>l. hl_userId l = k \<and> hl_frozen l)"
  by (simp_all add: amount_blind_def frozen_income_def)

lemma from_frozen_step:
  assumes l: "find_key hl_id (hl_id l) t = Some l" "0 \<le> hl_amount l" "has_scale 8 (hl_amount l)"
    and t: "distinct (map hl_id t)" and r: "0 < rem" "has_scale 8 rem"
    and t': "t' = (if min (hl_amount l) rem \<ge> hl_amount l then delete_where (\<lambda>r. hl_id r = hl_id l) t
      else update_key hl_id (hl_id l) (use_part (min (hl_amount l) rem)) t)"
  shows "distinct (map hl_id t') \<and> rows_from t t'
    \<and> (\<forall>j. j \<noteq> hl_id l \<longrightarrow> find_key hl_id j t' = find_key hl_id j t)
    \<and> (\<forall>Q. amount_blind Q \<longrightarrow> weigh Q t' = weigh Q t - (if Q l then min (hl_amount l) rem else 0))"
proof (cases "hl_amount l \<le> rem")
  case True
  then have t': "t' = delete_where (\<lambda>r. hl_id r = hl_id l) t" by (simp add: t')
  have "rows_from t t'" using rows_from_refl [of t] by (auto simp: rows_from_def t' delete_where_def)
  moreover have "weigh Q t' = weigh Q t - (if Q l then min (hl_amount l) rem else 0)" for Q
    using sum_delete_key [OF t l(1), of "\<lambda>l. if Q l then hl_amount l else 0"] True
    by (auto simp: weigh_def t' min_def)
  ultimately show ?thesis using t by (simp add: t' distinct_delete hosting_key_deleted)
next
  case False
  let ?f = "use_part (min (hl_amount l) rem)"
  have t': "t' = update_key hl_id (hl_id l) ?f t" using False by (simp add: t')
  have new: "?f l = l\<lparr>hl_amount := hl_amount l - rem\<rparr>"
    using False l(3) r(2) by (simp add: use_part_def min_def to_fixed_id has_scale_diff)
  have "rows_from t t'"
    unfolding rows_from_def
  proof
    fix x assume "x \<in> set t'"
    then obtain y where y: "y \<in> set t" "x = (if hl_id y = hl_id l then ?f y else y)"
      unfolding t' by (elim set_update_keyE)
    have "y = l" if "hl_id y = hl_id l" using find_key_distinct [OF t y(1)] that l(1) by simp
    moreover have "0 \<le> hl_amount l - rem" "has_scale 8 (hl_amount l - rem)" using False l(3) r(2) by auto
    ultimately show "\<exists>l\<in>set t. \<exists>z. x = l\<lparr>hl_amount := z\<rparr> \<and> (z = hl_amount l \<or> 0 \<le> z \<and> has_scale 8 z)"
      using y new by (intro bexI [of _ y] exI [of _ "hl_amount x"]) auto
  qed
  moreover have "weigh Q t' = weigh Q t - (if Q l then min (hl_amount l) rem else 0)" if "amount_blind Q" for Q
    using sum_update_key [OF t l(1), where f = ?f and g = "\<lambda>l. if Q l then hl_amount l else 0"] that False new
    by (auto simp: weigh_def t' amount_blind_def min_def)
  ultimately show ?thesis using t by (simp add: t' map_update_key find_key_update_other)
qed

lemma from_frozen_spec:
  assumes "\<forall>l\<in>set ls. find_key hl_id (hl_id l) t = Some l \<and> 0 \<le> hl_amount l \<and> has_scale 8 (hl_amount l)"
    and "distinct (map hl_id ls)" and "distinct (map hl_id t)" and "0 \<le> rem" and "has_scale 8 rem"
    and "from_frozen ls rem ff t = (rem', ff', t')"
  shows "rem' = rem - min (\<Sum>l\<leftarrow>ls. hl_amount l) rem \<and> ff' = ff + min (\<Sum>l\<leftarrow>ls. hl_amount l) rem
    \<and> distinct (map hl_id t') \<and> rows_from t t'
    \<and> (\<forall>Q. amount_blind Q \<longrightarrow> (\<forall>l\<in>set ls. Q l) \<longrightarrow> weigh Q t' = weigh Q t - min (\<Sum>l\<leftarrow>ls. hl_amount l) rem)
    \<and> (\<forall>Q. amount_blind Q \<longrightarrow> (\<forall>l\<in>set ls. \<not> Q l) \<longrightarrow> weigh Q t' = weigh Q t)"
  using assms
proof (induction ls arbitrary: rem ff t)
  case Nil
  then show ?case by (auto simp: rows_from_refl min_def)
next
  case (Cons l ls)
  have rest: "0 \<le> (\<Sum>l\<leftarrow>ls. hl_amount l)" using Cons.prems(1) by (intro sum_list_nonneg) auto
  show ?case
  proof (cases "rem = 0")
    case True
    with Cons.prems rest show ?thesis by (auto simp: rows_from_refl min_def)
  next
    case False
    define d where "d = min (hl_amount l) rem"
    define u where "u = (if d \<ge> hl_amount l then delete_where (\<lambda>r. hl_id r = hl_id l) t
      else update_key hl_id (hl_id l) (use_part d) t)"
    from False Cons.prems have l: "find_key hl_id (hl_id l) t = Some l" "0 \<le> hl_amount l" "has_scale 8 (hl_amount l)"
      and r: "0 < rem" "has_scale 8 rem" by auto
    from from_frozen_step [OF l Cons.prems(3) r u_def [unfolded d_def], folded d_def]
    have u: "distinct (map hl_id u)" "rows_from t u" "\<forall>j. j \<noteq> hl_id l \<longrightarrow> find_key hl_id j u = find_key hl_id j t"
      "\<forall>Q. amount_blind Q \<longrightarrow> weigh Q u = weigh Q t - (if Q l then d else 0)" by blast+
    have run: "from_frozen ls (rem - d) (ff + d) u = (rem', ff', t')"
      using Cons.prems(6) r(1) unfolding d_def u_def by (simp only: from_frozen.simps Let_def linorder_not_le [symmetric] if_False)
    have pre: "\<forall>x\<in>set ls. find_key hl_id (hl_id x) u = Some x \<and> 0 \<le> hl_amount x \<and> has_scale 8 (hl_amount x)"
      using Cons.prems(1,2) u(3) by (auto simp: image_iff)
    have "0 \<le> rem - d" "has_scale 8 (rem - d)" using r l(3) by (auto simp: d_def min_def)
    note ih = Cons.IH [OF pre _ u(1) this run]
    have m: "d + min (\<Sum>l\<leftarrow>ls. hl_amount l) (rem - d) = min (\<Sum>l\<leftarrow>l # ls. hl_amount l) rem"
      using rest l(2) r(1) by (auto simp: d_def min_def)
    show ?thesis using ih u(2,4) Cons.prems(2) m by (auto intro: rows_from_trans)
  qed
qed

section \<open>The invariant and what a deduction does\<close>

definition hosting_wf :: "db \<Rightarrow> bool" where
  "hosting_wf s \<longleftrightarrow> balances_wf s \<and> distinct (map hl_id (hosting_logs s))
     \<and> (\<forall>l\<in>set (hosting_logs s). hl_id l < hosting_seq s)
     \<and> (\<forall>l\<in>set (hosting_logs s). hl_frozen l \<longrightarrow> 0 \<le> hl_amount l \<and> has_scale 8 (hl_amount l))
     \<and> (\<forall>u\<in>set (users s). has_scale 8 (u_hostingBalance u))"

text \<open>What an owner has earned but not received: on an instance, and in all.\<close>

definition frozen_on :: "db \<Rightarrow> int \<Rightarrow> int \<Rightarrow> rat" where
  "frozen_on s k i = weigh (frozen_income k i) (hosting_logs s)"

definition frozen_of :: "db \<Rightarrow> int \<Rightarrow> rat" where
  "frozen_of s k = weigh (\<lambda>l. hl_userId l = k \<and> hl_frozen l) (hosting_logs s)"

text \<open>A change of money and hosting rows only.\<close>

definition rest :: "db \<Rightarrow> db" where
  "rest s = s\<lparr>users := [], balance_logs := [], hosting_logs := [], hosting_seq := 0\<rparr>"

definition hosting_frame :: "db \<Rightarrow> db \<Rightarrow> bool" where
  "hosting_frame s s' \<longleftrightarrow> rest s' = rest s \<and> map u_id (users s') = map u_id (users s)
     \<and> (\<forall>k. role_of k s' = role_of k s)"

lemma hosting_frame_refl [simp]: "hosting_frame s s"
  by (simp add: hosting_frame_def)

lemma hosting_frame_trans: "hosting_frame s s' \<Longrightarrow> hosting_frame s' s'' \<Longrightarrow> hosting_frame s s''"
  by (simp add: hosting_frame_def)

lemma hosting_frame_tables:
  assumes "hosting_frame s s'"
  shows "instances s' = instances s" "hosts s' = hosts s" "billing_records s' = billing_records s"
    "official_usages s' = official_usages s" "destroy_records s' = destroy_records s"
    "aff_codes s' = aff_codes s" "aff_logs s' = aff_logs s" "aff_bindings s' = aff_bindings s"
proof -
  have "instances (rest s') = instances (rest s)" "hosts (rest s') = hosts (rest s)"
    "billing_records (rest s') = billing_records (rest s)" "official_usages (rest s') = official_usages (rest s)"
    "destroy_records (rest s') = destroy_records (rest s)" "aff_codes (rest s') = aff_codes (rest s)"
    "aff_logs (rest s') = aff_logs (rest s)" "aff_bindings (rest s') = aff_bindings (rest s)"
    using assms by (simp_all add: hosting_frame_def)
  then show "instances s' = instances s" "hosts s' = hosts s" "billing_records s' = billing_records s"
    "official_usages s' = official_usages s" "destroy_records s' = destroy_records s"
    "aff_codes s' = aff_codes s" "aff_logs s' = aff_logs s" "aff_bindings s' = aff_bindings s"
    by (simp_all add: rest_def)
qed

lemma role_of_put [simp]: "role_of j (put_hosting k v s) = role_of j s" "role_of j (put_balance k v s) = role_of j s"
  "role_of j (add_log e s) = role_of j s"
  by (auto simp: role_of_def put_hosting_def put_balance_def add_log_def find_key_update_key option.map_comp comp_def)

lemma hosting_frame_put: "hosting_frame s (put_hosting k v s)" "hosting_frame s (put_balance k v s)"
  "hosting_frame s (add_log e s)" "hosting_frame s (createHostingLogWithSnapshot now k ty ac a i fr un re s)"
  by (simp_all add: hosting_frame_def rest_def)
    (simp_all add: put_hosting_def put_balance_def add_log_def map_update_key createHostingLogWithSnapshot_def role_of_def Let_def)

lemma hosting_wf_frozen: "hosting_wf s \<Longrightarrow> l \<in> set (hosting_logs s) \<Longrightarrow> hl_frozen l \<Longrightarrow> 0 \<le> hl_amount l \<and> has_scale 8 (hl_amount l)"
  by (simp add: hosting_wf_def)

lemma hosting_wf_put [simp]:
  "hosting_wf s \<Longrightarrow> hosting_wf (put_hosting k v s)" "hosting_wf s \<Longrightarrow> hosting_wf (put_balance k v s)"
  "hosting_wf s \<Longrightarrow> hosting_wf (add_log e s)"
  by (auto simp: hosting_wf_def balances_wf_def put_hosting_def put_balance_def add_log_def map_update_key elim!: set_update_keyE)

lemma hosting_wf_log:
  "hosting_wf s \<Longrightarrow> \<not> frozen \<or> 0 \<le> a \<Longrightarrow> hosting_wf (createHostingLogWithSnapshot now k ty ac a i frozen un re s)"
  by (auto simp: hosting_wf_def createHostingLogWithSnapshot_def Let_def balances_wf_def to_fixed_nonneg)

lemma frozen_on_le: "hosting_wf s \<Longrightarrow> frozen_on s k i \<le> frozen_of s k"
  unfolding frozen_on_def frozen_of_def weigh_def
  by (intro sum_list_mono) (auto simp: frozen_income_def dest: hosting_wf_frozen)

lemma frozen_on_nonneg: "hosting_wf s \<Longrightarrow> 0 \<le> frozen_on s k i"
  unfolding frozen_on_def by (intro weigh_nonneg) (auto simp: frozen_income_def dest: hosting_wf_frozen)

lemma frozen_on_scale: "hosting_wf s \<Longrightarrow> has_scale 8 (frozen_on s k i)"
  unfolding frozen_on_def by (intro has_scale_weigh) (auto simp: frozen_income_def dest: hosting_wf_frozen)

lemma hosting_of_scale: "hosting_wf s \<Longrightarrow> has_scale 8 (hosting_of s k)"
  by (auto simp: hosting_of_def hosting_wf_def split: option.splits dest: find_key_SomeD)

lemma balance_of_scale: "balances_wf s \<Longrightarrow> has_scale 8 (balance_of s k)"
  by (auto simp: balance_of_def split: option.splits dest: balances_wf_scale)

lemma has_scale_min: "has_scale d x \<Longrightarrow> has_scale d y \<Longrightarrow> has_scale d (min x y)"
  by (simp add: min_def)

lemma has_scale_max: "has_scale d x \<Longrightarrow> has_scale d y \<Longrightarrow> has_scale d (max x y)"
  by (simp add: max_def)

lemma from_available_spec:
  assumes "hosting_wf s" and "0 < rem" and "has_scale 8 rem" and "from_available k rem s = (x, s')"
  shows "x = min (max 0 (hosting_of s k)) rem \<and> hosting_frame s s' \<and> hosting_wf s' \<and> hosting_logs s' = hosting_logs s
    \<and> balance_logs s' = balance_logs s \<and> (\<forall>j. balance_of s' j = balance_of s j)
    \<and> (\<forall>j. hosting_of s' j = hosting_of s j - (if j = k then x else 0))"
proof (cases "hosting_of s k > 0")
  case True
  then obtain u where u: "find_key u_id k (users s) = Some u" by (auto simp: hosting_of_def split: option.splits)
  then have h: "hosting_of s k = u_hostingBalance u" by (simp add: hosting_of_def)
  let ?d = "min (hosting_of s k) rem"
  have "count_where (\<lambda>u. u_id u = k \<and> u_hostingBalance u \<ge> ?d) (users s) = 1"
    using count_key [of u_id "users s" k "\<lambda>u. u_hostingBalance u \<ge> ?d"] assms(1) u h
    by (simp add: hosting_wf_def balances_wf_def)
  then have r: "x = ?d" "s' = put_hosting k (hosting_of s k - ?d) s"
    using assms(2,4) True by (auto simp: from_available_def Let_def)
  have "has_scale 8 (hosting_of s k - ?d)"
    using hosting_of_scale [OF assms(1)] assms(3) by (auto intro: has_scale_min)
  then show ?thesis using True assms(1) hosting_of_put_hosting [OF u]
    by (auto simp: r hosting_frame_put to_fixed_id)
qed (use assms in \<open>auto simp: from_available_def Let_def min_def\<close>)

definition shortfall_log :: "int \<Rightarrow> int \<Rightarrow> rat \<Rightarrow> rat \<Rightarrow> balance_log" where
  "shortfall_log owner instanceId x balanceAfter =
     mk_log owner BL_hosting_deduction (- x) (to_fixed 2 (balanceAfter + x)) balanceAfter None (Some instanceId) None
       (Some R_hosting_shortfall)"

lemma from_balance_spec:
  assumes "hosting_wf s" and "0 < rem" and "has_scale 8 rem" and "from_balance k i rem s = (x, s')"
  shows "x = min (max 0 (balance_of s k)) rem \<and> hosting_frame s s' \<and> hosting_wf s' \<and> hosting_logs s' = hosting_logs s
    \<and> (\<forall>j. hosting_of s' j = hosting_of s j) \<and> (\<forall>j. balance_of s' j = balance_of s j - (if j = k then x else 0))
    \<and> balance_logs s' = balance_logs s @ (if 0 < x then [shortfall_log k i x (balance_of s k - x)] else [])"
proof (cases "balance_of s k > 0")
  case True
  then obtain u where u: "find_key u_id k (users s) = Some u" by (auto simp: balance_of_def split: option.splits)
  then have h: "balance_of s k = u_balance u" by (simp add: balance_of_def)
  let ?d = "min (balance_of s k) rem"
  have d: "0 < ?d" using True assms(2) by simp
  have c: "count_where (\<lambda>u. u_id u = k \<and> u_balance u \<ge> ?d) (users s) = 1"
    using count_key [of u_id "users s" k "\<lambda>u. u_balance u \<ge> ?d"] assms(1) u h
    by (simp add: hosting_wf_def balances_wf_def)
  have sc: "has_scale 8 ?d" "has_scale 8 (balance_of s k - ?d)"
    using balance_of_scale [of s k] assms(1,3) by (auto intro: has_scale_min simp: hosting_wf_def)
  let ?s1 = "put_balance k (balance_of s k - ?d) s"
  have b: "balance_of ?s1 j = balance_of s j - (if j = k then ?d else 0)" for j
    using balance_of_set_balance [OF u] sc(2) by (simp add: put_balance_def to_fixed_id)
  have two: "has_scale 8 (to_fixed 2 y)" for y by (rule has_scale_28) simp
  have r: "x = ?d" "s' = add_log (shortfall_log k i ?d (balance_of s k - ?d)) ?s1"
    using assms(4) d c sc b [of k] two
    by (auto simp: from_balance_def Let_def shortfall_log_def to_fixed_id)
  show ?thesis using True assms(1) d b
    by (auto simp: r intro: hosting_frame_put hosting_frame_trans)
qed (use assms in \<open>auto simp: from_balance_def Let_def min_def\<close>)

definition deducted_log :: "int \<Rightarrow> int \<Rightarrow> remark \<Rightarrow> int \<Rightarrow> deduction \<Rightarrow> db \<Rightarrow> db" where
  "deducted_log now instanceId remark owner d s =
     (if dd_deductedAmount d > 0
      then createHostingLogWithSnapshot now owner HT_deduction HA_destroy (- dd_deductedAmount d) instanceId
        False None (R_hosting_deducted remark (dd_fromFrozen d) (dd_fromAvailable d) (dd_fromBalance d)) s
      else s)"

text \<open>A deduction takes what it asks for from the three funds in their order, never more than a fund holds.\<close>

definition three_funds :: "rat \<Rightarrow> rat \<Rightarrow> rat \<Rightarrow> rat \<Rightarrow> deduction \<Rightarrow> bool" where
  "three_funds amount F A B d \<longleftrightarrow>
     dd_fromFrozen d = min F amount \<and> dd_fromAvailable d = min A (amount - dd_fromFrozen d)
     \<and> dd_fromBalance d = min B (amount - dd_fromFrozen d - dd_fromAvailable d)
     \<and> dd_deductedAmount d = min (F + A + B) amount"

lemma three_fundsI:
  assumes "0 \<le> F" "0 \<le> A" "0 \<le> B" "0 \<le> (amount::rat)"
    and "dd_fromFrozen d = min F amount" "dd_fromAvailable d = min A (amount - min F amount)"
    and "dd_fromBalance d = min B (amount - min F amount - dd_fromAvailable d)"
    and "dd_deductedAmount d = dd_fromFrozen d + dd_fromAvailable d + dd_fromBalance d"
  shows "three_funds amount F A B d"
  using assms by (auto simp: three_funds_def min_def)

lemma hosting_wf_rows:
  assumes "hosting_wf s" and "rows_from (hosting_logs s) t" and "distinct (map hl_id t)"
  shows "hosting_wf (s\<lparr>hosting_logs := t\<rparr>)"
proof -
  have "hl_id l < hosting_seq s \<and> (hl_frozen l \<longrightarrow> 0 \<le> hl_amount l \<and> has_scale 8 (hl_amount l))"
    if "l \<in> set t" for l
  proof -
    from assms(2) that obtain r x where r: "r \<in> set (hosting_logs s)" "l = r\<lparr>hl_amount := x\<rparr>"
      "x = hl_amount r \<or> 0 \<le> x \<and> has_scale 8 x" unfolding rows_from_def by blast
    with assms(1) show ?thesis by (auto simp: hosting_wf_def)
  qed
  with assms(1,3) show ?thesis by (simp add: hosting_wf_def balances_wf_def)
qed

lemma frozen_rows:
  assumes "hosting_wf s" and "ls = sort_key hl_createdAt (filter (frozen_income k i) (hosting_logs s))"
  shows "\<forall>l\<in>set ls. find_key hl_id (hl_id l) (hosting_logs s) = Some l \<and> 0 \<le> hl_amount l \<and> has_scale 8 (hl_amount l)"
    and "distinct (map hl_id ls)" and "\<forall>l\<in>set ls. frozen_income k i l" and "(\<Sum>l\<leftarrow>ls. hl_amount l) = frozen_on s k i"
proof -
  have m: "mset ls = mset (filter (frozen_income k i) (hosting_logs s))" by (simp add: assms(2))
  then have st: "set ls = set (filter (frozen_income k i) (hosting_logs s))" by (rule mset_eq_setD)
  have d: "distinct (map hl_id (hosting_logs s))" using assms(1) by (simp add: hosting_wf_def)
  then show "\<forall>l\<in>set ls. find_key hl_id (hl_id l) (hosting_logs s) = Some l \<and> 0 \<le> hl_amount l \<and> has_scale 8 (hl_amount l)"
    using st assms(1) by (auto simp: find_key_distinct frozen_income_def dest: hosting_wf_frozen)
  have "mset (map hl_id ls) = mset (map hl_id (filter (frozen_income k i) (hosting_logs s)))" using m by simp
  moreover have "distinct (map hl_id (filter (frozen_income k i) (hosting_logs s)))"
    using d by (rule distinct_map_filter)
  ultimately show "distinct (map hl_id ls)" by (metis mset_eq_imp_distinct_iff)
  show "\<forall>l\<in>set ls. frozen_income k i l" using st by simp
  have "mset (map hl_amount ls) = mset (map hl_amount (filter (frozen_income k i) (hosting_logs s)))" using m by simp
  then show "(\<Sum>l\<leftarrow>ls. hl_amount l) = frozen_on s k i"
    unfolding frozen_on_def weigh_filter by (metis sum_mset_sum_list)
qed

lemma take_frozen:
  assumes w: "hosting_wf s" and a: "0 \<le> amount" "has_scale 8 amount"
    and run: "from_frozen (sort_key hl_createdAt (filter (frozen_income k i) (hosting_logs s))) amount 0 (hosting_logs s) = (rem, ff, t)"
  shows "ff = min (frozen_on s k i) amount \<and> rem = amount - ff \<and> hosting_wf (s\<lparr>hosting_logs := t\<rparr>)
    \<and> frozen_on (s\<lparr>hosting_logs := t\<rparr>) k i = frozen_on s k i - ff
    \<and> (\<forall>j. frozen_of (s\<lparr>hosting_logs := t\<rparr>) j = frozen_of s j - (if j = k then ff else 0))"
proof -
  define ls where "ls = sort_key hl_createdAt (filter (frozen_income k i) (hosting_logs s))"
  note f = frozen_rows [OF w ls_def]
  have "distinct (map hl_id (hosting_logs s))" using w by (simp add: hosting_wf_def)
  from from_frozen_spec [OF f(1,2) this a run [folded ls_def], unfolded f(4)]
  have r: "rem = amount - min (frozen_on s k i) amount" "ff = min (frozen_on s k i) amount" "distinct (map hl_id t)"
    "rows_from (hosting_logs s) t"
    and on: "\<And>Q. amount_blind Q \<Longrightarrow> \<forall>l\<in>set ls. Q l \<Longrightarrow> weigh Q t = weigh Q (hosting_logs s) - ff"
    and off: "\<And>Q. amount_blind Q \<Longrightarrow> \<forall>l\<in>set ls. \<not> Q l \<Longrightarrow> weigh Q t = weigh Q (hosting_logs s)" by auto
  have "frozen_of (s\<lparr>hosting_logs := t\<rparr>) j = frozen_of s j - (if j = k then ff else 0)" for j
    using f(3) on [of "\<lambda>l. hl_userId l = j \<and> hl_frozen l"] off [of "\<lambda>l. hl_userId l = j \<and> hl_frozen l"]
    by (auto simp: frozen_of_def frozen_income_def)
  moreover have "frozen_on (s\<lparr>hosting_logs := t\<rparr>) k i = frozen_on s k i - ff"
    using f(3) on [of "frozen_income k i"] by (simp add: frozen_on_def)
  ultimately show ?thesis using r hosting_wf_rows [OF w r(4,3)] by simp
qed

lemma frozen_of_frame: "hosting_logs s' = hosting_logs s \<Longrightarrow> frozen_of s' k = frozen_of s k"
  by (simp add: frozen_of_def)

lemma frozen_of_log [simp]:
  "frozen_of (createHostingLogWithSnapshot now k ty ac a i fr un re s) j =
     frozen_of s j + (if fr \<and> k = j then column 8 a else 0)"
  by (simp add: frozen_of_def createHostingLogWithSnapshot_def Let_def)

lemma money_of_log [simp]:
  "hosting_of (createHostingLogWithSnapshot now k ty ac a i fr un re s) j = hosting_of s j"
  "balance_of (createHostingLogWithSnapshot now k ty ac a i fr un re s) j = balance_of s j"
  by (simp_all add: hosting_of_def balance_of_def)

lemma hosting_frame_logs: "hosting_frame s (s\<lparr>hosting_logs := t\<rparr>)"
  by (simp add: hosting_frame_def rest_def role_of_def)

text \<open>The second and third step with their guards.\<close>

lemma available_part:
  assumes "hosting_wf s" "0 \<le> rem" "has_scale 8 rem" "(if rem > 0 then from_available k rem s else (0, s)) = (x, s')"
  shows "x = min (max 0 (hosting_of s k)) rem \<and> 0 \<le> x \<and> x \<le> rem \<and> has_scale 8 (rem - x) \<and> hosting_frame s s' \<and> hosting_wf s'
    \<and> hosting_logs s' = hosting_logs s \<and> balance_logs s' = balance_logs s \<and> (\<forall>j. balance_of s' j = balance_of s j)
    \<and> (\<forall>j. hosting_of s' j = hosting_of s j - (if j = k then x else 0))"
proof -
  have "has_scale 8 (rem - min (max 0 (hosting_of s k)) rem)"
    using assms(3) hosting_of_scale [OF assms(1), of k] by (auto intro!: has_scale_diff has_scale_min has_scale_max)
  moreover have "0 \<le> min (max 0 (hosting_of s k)) rem" "min (max 0 (hosting_of s k)) rem \<le> rem" using assms(2) by auto
  moreover have "rem = 0" if "\<not> rem > 0" using that assms(2) by simp
  ultimately show ?thesis
    using assms from_available_spec [OF assms(1) _ assms(3), of k x s'] by (cases "rem > 0") simp_all
qed

lemma balance_part:
  assumes "hosting_wf s" "0 \<le> rem" "has_scale 8 rem" "(if rem > 0 then from_balance k i rem s else (0, s)) = (x, s')"
  shows "x = min (max 0 (balance_of s k)) rem \<and> hosting_frame s s' \<and> hosting_wf s' \<and> hosting_logs s' = hosting_logs s
    \<and> (\<forall>j. hosting_of s' j = hosting_of s j) \<and> (\<forall>j. balance_of s' j = balance_of s j - (if j = k then x else 0))
    \<and> balance_logs s' = balance_logs s @ (if 0 < x then [shortfall_log k i x (balance_of s k - x)] else [])"
  using assms from_balance_spec [OF assms(1) _ assms(3)] by (cases "rem > 0") (auto simp: min_def)

lemma deduct_cases:
  assumes "deductHostingBalance now lk hostId amount i re s = Inr (Some d, s')"
  obtains k rem t s2 s3 where "resolveHostedIncomeOwner hostId (Some i) True s = Some k" "lk"
    "from_frozen (sort_key hl_createdAt (filter (frozen_income k i) (hosting_logs s))) amount 0 (hosting_logs s)
       = (rem, dd_fromFrozen d, t)"
    "(if rem > 0 then from_available k rem (s\<lparr>hosting_logs := t\<rparr>) else (0, s\<lparr>hosting_logs := t\<rparr>)) = (dd_fromAvailable d, s2)"
    "(if rem > 0 \<and> rem - dd_fromAvailable d > 0 then from_balance k i (rem - dd_fromAvailable d) s2 else (0, s2))
       = (dd_fromBalance d, s3)"
    "dd_hostOwnerId d = k" "dd_deductedAmount d = dd_fromFrozen d + dd_fromAvailable d + dd_fromBalance d"
    "s' = deducted_log now i re k d s3"
proof -
  from assms obtain k where k: "resolveHostedIncomeOwner hostId (Some i) True s = Some k" and lk: "lk"
    by (auto simp: deductHostingBalance_def split: option.splits if_splits)
  obtain rem ff t where f: "from_frozen (sort_key hl_createdAt (filter (frozen_income k i) (hosting_logs s))) amount 0 (hosting_logs s) = (rem, ff, t)"
    by (metis prod_cases3)
  obtain x s2 where x: "(if rem > 0 then from_available k rem (s\<lparr>hosting_logs := t\<rparr>) else (0, s\<lparr>hosting_logs := t\<rparr>)) = (x, s2)"
    by fastforce
  obtain y s3 where y: "(if rem > 0 \<and> rem - x > 0 then from_balance k i (rem - x) s2 else (0, s2)) = (y, s3)" by fastforce
  from assms k lk f x y have "d = \<lparr>dd_hostOwnerId = k, dd_deductedAmount = ff + x + y, dd_fromFrozen = ff,
      dd_fromAvailable = x, dd_fromBalance = y\<rparr>" "s' = deducted_log now i re k d s3"
    by (auto simp: deductHostingBalance_def deducted_log_def Let_def)
  then show thesis using k lk f x y
    by (intro that [of k rem t s2 s3]) (auto split: if_splits)
qed

text \<open>The effect of a deduction, for the operations that make one.\<close>

lemma deduct_effect:
  assumes w: "hosting_wf s" and a: "0 \<le> amount" "has_scale 8 amount"
    and run: "deductHostingBalance now lk hostId amount i re s = Inr (Some d, s')"
  shows "lk \<and> resolveHostedIncomeOwner hostId (Some i) True s = Some (dd_hostOwnerId d)
    \<and> three_funds amount (frozen_on s (dd_hostOwnerId d) i) (max 0 (hosting_of s (dd_hostOwnerId d)))
        (max 0 (balance_of s (dd_hostOwnerId d))) d
    \<and> hosting_wf s' \<and> hosting_frame s s'
    \<and> (\<forall>k. frozen_of s' k = frozen_of s k - (if k = dd_hostOwnerId d then dd_fromFrozen d else 0))
    \<and> (\<forall>k. hosting_of s' k = hosting_of s k - (if k = dd_hostOwnerId d then dd_fromAvailable d else 0))
    \<and> (\<forall>k. balance_of s' k = balance_of s k - (if k = dd_hostOwnerId d then dd_fromBalance d else 0))
    \<and> balance_logs s' = balance_logs s @ (if 0 < dd_fromBalance d then [shortfall_log (dd_hostOwnerId d) i
        (dd_fromBalance d) (balance_of s (dd_hostOwnerId d) - dd_fromBalance d)] else [])"
proof -
  from run obtain k rem t s2 s3 where k: "resolveHostedIncomeOwner hostId (Some i) True s = Some k" "lk"
    and f: "from_frozen (sort_key hl_createdAt (filter (frozen_income k i) (hosting_logs s))) amount 0 (hosting_logs s)
       = (rem, dd_fromFrozen d, t)"
    and x: "(if rem > 0 then from_available k rem (s\<lparr>hosting_logs := t\<rparr>) else (0, s\<lparr>hosting_logs := t\<rparr>)) = (dd_fromAvailable d, s2)"
    and y: "(if rem > 0 \<and> rem - dd_fromAvailable d > 0 then from_balance k i (rem - dd_fromAvailable d) s2 else (0, s2))
       = (dd_fromBalance d, s3)"
    and d: "dd_hostOwnerId d = k" "dd_deductedAmount d = dd_fromFrozen d + dd_fromAvailable d + dd_fromBalance d"
    and s': "s' = deducted_log now i re k d s3"
    by (rule deduct_cases)
  define s1 where "s1 = s\<lparr>hosting_logs := t\<rparr>"
  have same: "hosting_of s1 j = hosting_of s j" "balance_of s1 j = balance_of s j" "balance_logs s1 = balance_logs s" for j
    by (simp_all add: s1_def hosting_of_def balance_of_def)
  note tf = take_frozen [OF w a f, folded s1_def]
  from tf have ff: "dd_fromFrozen d = min (frozen_on s k i) amount" and rem: "rem = amount - dd_fromFrozen d"
    and w1: "hosting_wf s1" and fz: "\<And>j. frozen_of s1 j = frozen_of s j - (if j = k then dd_fromFrozen d else 0)" by blast+
  have "0 \<le> rem" "has_scale 8 rem"
    using a frozen_on_scale [OF w, of k i] unfolding rem ff by (auto intro: has_scale_min)
  note av = available_part [OF w1 this x [folded s1_def], unfolded same]
  then have w2: "hosting_wf s2" and b2: "balance_of s2 j = balance_of s j" and l2: "hosting_logs s2 = hosting_logs s1"
    and le: "0 \<le> rem - dd_fromAvailable d" "has_scale 8 (rem - dd_fromAvailable d)" for j by auto
  from y le av have "(if rem - dd_fromAvailable d > 0 then from_balance k i (rem - dd_fromAvailable d) s2 else (0, s2))
      = (dd_fromBalance d, s3)" by (cases "rem > 0") auto
  note ba = balance_part [OF w2 le this, unfolded b2]
  have logs: "hosting_logs s3 = hosting_logs s1" using ba l2 by metis
  have "three_funds amount (frozen_on s k i) (max 0 (hosting_of s k)) (max 0 (balance_of s k)) d"
  proof (rule three_fundsI)
    show "0 \<le> frozen_on s k i" by (rule frozen_on_nonneg [OF w])
    show "dd_fromAvailable d = min (max 0 (hosting_of s k)) (amount - min (frozen_on s k i) amount)"
      using av unfolding rem ff by blast
    show "dd_fromBalance d = min (max 0 (balance_of s k)) (amount - min (frozen_on s k i) amount - dd_fromAvailable d)"
      using ba unfolding rem ff by blast
  qed (use a ff d in simp_all)
  moreover have "hosting_frame s s'"
  proof -
    have "hosting_frame s1 s3" using av ba hosting_frame_trans by blast
    moreover have "hosting_frame s s1" unfolding s1_def by (rule hosting_frame_logs)
    moreover have "hosting_frame s3 s'" by (simp add: s' deducted_log_def hosting_frame_put(4))
    ultimately show ?thesis using hosting_frame_trans by blast
  qed
  moreover have "hosting_wf s'" using ba by (simp add: s' deducted_log_def hosting_wf_log)
  moreover have "frozen_of s' j = frozen_of s j - (if j = k then dd_fromFrozen d else 0)" for j
    using fz [of j] frozen_of_frame [OF logs, of j] by (cases "j = k") (simp_all add: s' deducted_log_def)
  moreover have "hosting_of s' j = hosting_of s j - (if j = k then dd_fromAvailable d else 0)"
    "balance_of s' j = balance_of s j - (if j = k then dd_fromBalance d else 0)" for j
    using av ba by (simp_all add: s' deducted_log_def)
  moreover have "balance_logs s' = balance_logs s3" by (simp add: s' deducted_log_def)
  ultimately show ?thesis using k av ba same unfolding d(1) by simp
qed

section \<open>What a release does\<close>

definition amount_in :: "(int \<times> rat) list \<Rightarrow> int \<Rightarrow> rat" where
  "amount_in m k = (case map_of m k of None \<Rightarrow> 0 | Some a \<Rightarrow> a)"

lemma add_amount_keys: "fst ` set (add_amount k a m) = insert k (fst ` set m)"
  by (induction k a m rule: add_amount.induct) auto

lemma add_amount_distinct: "distinct (map fst m) \<Longrightarrow> distinct (map fst (add_amount k a m))"
proof (induction k a m rule: add_amount.induct)
  case (2 k a j b m)
  then have "j \<notin> fst ` set (add_amount k a m)" if "j \<noteq> k" using that by (simp add: add_amount_keys)
  with 2 show ?case by (cases "j = k") simp_all
qed simp

lemma amount_in_add [simp]: "amount_in (add_amount k a m) j = amount_in m j + (if j = k then a else 0)"
  by (induction k a m rule: add_amount.induct) (auto simp: amount_in_def)

lemma lockedAmounts_spec:
  "distinct (map fst (lockedAmounts rows)) \<and> fst ` set (lockedAmounts rows) = hl_userId ` set rows
    \<and> (\<forall>k. amount_in (lockedAmounts rows) k = (\<Sum>r\<leftarrow>rows. if hl_userId r = k then hl_amount r else 0))"
proof (induction rows rule: rev_induct)
  case Nil
  then show ?case by (simp add: lockedAmounts_def amount_in_def)
next
  case (snoc r rows)
  have "lockedAmounts (rows @ [r]) = add_amount (hl_userId r) (hl_amount r) (lockedAmounts rows)"
    by (simp add: lockedAmounts_def)
  with snoc show ?case by (auto simp: add_amount_keys add_amount_distinct)
qed

lemma amount_in_Cons: "amount_in ((j, b) # m) k = (if k = j then b else amount_in m k)"
  by (simp add: amount_in_def)

lemma amount_in_notin: "k \<notin> fst ` set m \<Longrightarrow> amount_in m k = 0"
  by (auto simp: amount_in_def map_of_eq_None_iff split: option.splits) (metis map_of_eq_None_iff option.distinct(1))

lemma credit_hosting_effect:
  assumes "credit_hosting m s = Inr s'" and "distinct (map fst m)" and "\<forall>k\<in>fst ` set m. has_scale 8 (amount_in m k)" and "hosting_wf s"
  shows "hosting_wf s' \<and> hosting_frame s s' \<and> hosting_logs s' = hosting_logs s \<and> balance_logs s' = balance_logs s
    \<and> (\<forall>k. balance_of s' k = balance_of s k) \<and> (\<forall>k. hosting_of s' k = hosting_of s k + amount_in m k)"
  using assms
proof (induction m arbitrary: s)
  case Nil
  then show ?case by (simp add: amount_in_def)
next
  case (Cons p m)
  obtain k a where p: "p = (k, a)" by (cases p)
  with Cons.prems obtain u where u: "find_key u_id k (users s) = Some u"
    and run: "credit_hosting m (put_hosting k (u_hostingBalance u + a) s) = Inr s'" by (auto split: option.splits)
  let ?s1 = "put_hosting k (u_hostingBalance u + a) s"
  have out: "k \<notin> fst ` set m" using Cons.prems(2) p by auto
  then have "amount_in (p # m) j = amount_in m j" if "j \<in> fst ` set m" for j
    using that by (auto simp: p amount_in_Cons)
  then have sc: "\<forall>j\<in>fst ` set m. has_scale 8 (amount_in m j)" using Cons.prems(3) by simp
  have h: "hosting_of s k = u_hostingBalance u" using u by (simp add: hosting_of_def)
  have "has_scale 8 a" using Cons.prems(3) by (simp add: p amount_in_Cons)
  then have "has_scale 8 (u_hostingBalance u + a)" using hosting_of_scale [OF Cons.prems(4), of k] h by auto
  then have new: "hosting_of ?s1 j = hosting_of s j + (if j = k then a else 0)" for j
    using hosting_of_put_hosting [OF u] h by (simp add: to_fixed_id)
  have "distinct (map fst m)" using Cons.prems(2) by simp
  from Cons.IH [OF run this sc hosting_wf_put(1) [OF Cons.prems(4)]] new hosting_frame_put(1) [of s k]
  show ?case by (auto simp: p amount_in_Cons amount_in_notin [OF out] intro: hosting_frame_trans)
qed

lemma credit_hosting_succeeds:
  "\<forall>k\<in>fst ` set m. k \<in> u_id ` set (users s) \<Longrightarrow> \<exists>s'. credit_hosting m s = Inr s'"
proof (induction m arbitrary: s)
  case (Cons p m)
  obtain k a where p: "p = (k, a)" by (cases p)
  with Cons.prems obtain u where u: "find_key u_id k (users s) = Some u"
    by (metis find_key_None fst_conv image_eqI list.set_intros(1) not_Some_eq)
  have "u_id ` set (users (put_hosting k v s)) = u_id ` set (users s)" for v
    by (metis (no_types, lifting) hosting_frame_def hosting_frame_put(1) list.set_map)
  then show ?case using Cons p u by simp
qed simp

lemma weigh_release:
  "weigh (\<lambda>l. hl_userId l = k \<and> hl_frozen l) (update_where hit (\<lambda>l. l\<lparr>hl_frozen := False\<rparr>) t) =
     weigh (\<lambda>l. hl_userId l = k \<and> hl_frozen l) t - weigh (\<lambda>l. hl_userId l = k \<and> hl_frozen l \<and> hit l) t"
  by (induction t) auto

text \<open>A release that commits has passed its checks.\<close>

lemma unfreeze_cases:
  assumes "unfreeze_tx now lk ids s = Inr (n, s')" and "filter (\<lambda>l. hl_id l \<in> set ids \<and> due now l) (hosting_logs s) \<noteq> []"
  shows "credit_hosting (lockedAmounts (filter (\<lambda>l. hl_id l \<in> set ids \<and> due now l) (hosting_logs s)))
      (s\<lparr>hosting_logs := update_where (\<lambda>l. hl_id l \<in> set ids \<and> due now l) (\<lambda>l. l\<lparr>hl_frozen := False\<rparr>) (hosting_logs s)\<rparr>) = Inr s'
    \<and> n = length (filter (\<lambda>l. hl_id l \<in> set ids \<and> due now l) (hosting_logs s))"
proof -
  let ?rows = "filter (\<lambda>l. hl_id l \<in> set ids \<and> due now l) (hosting_logs s)"
  have "update_where (\<lambda>l. hl_id l \<in> set (map hl_id ?rows) \<and> due now l) f (hosting_logs s) =
      update_where (\<lambda>l. hl_id l \<in> set ids \<and> due now l) f (hosting_logs s)" for f
    by (auto simp: update_where_def)
  with assms show ?thesis by (simp add: unfreeze_tx_def Let_def split: if_splits sum.splits)
qed

lemma release_effect:
  assumes w: "hosting_wf s" and run: "unfreeze_tx now lk ids s = Inr (n, s')"
  shows "hosting_wf s' \<and> hosting_frame s s' \<and> balance_logs s' = balance_logs s \<and> (\<forall>k. balance_of s' k = balance_of s k)
    \<and> (\<forall>k. hosting_of s' k = hosting_of s k + weigh (\<lambda>l. hl_userId l = k \<and> hl_id l \<in> set ids \<and> due now l) (hosting_logs s))
    \<and> hosting_logs s' = update_where (\<lambda>l. hl_id l \<in> set ids \<and> due now l) (\<lambda>l. l\<lparr>hl_frozen := False\<rparr>) (hosting_logs s)"
proof (cases "filter (\<lambda>l. hl_id l \<in> set ids \<and> due now l) (hosting_logs s) = []")
  case True
  then have none: "\<forall>l\<in>set (hosting_logs s). \<not> (hl_id l \<in> set ids \<and> due now l)" by (simp add: filter_empty_conv)
  then have "weigh (\<lambda>l. hl_userId l = k \<and> hl_id l \<in> set ids \<and> due now l) (hosting_logs s) = 0" for k
    unfolding weigh_filter by (simp add: filter_False)
  moreover have "s' = s" using run True by (simp add: unfreeze_tx_def)
  ultimately show ?thesis using w none by (simp add: update_where_id)
next
  case False
  define hit where "hit = (\<lambda>l. hl_id l \<in> set ids \<and> due now l)"
  define rows where "rows = filter hit (hosting_logs s)"
  define s1 where "s1 = s\<lparr>hosting_logs := update_where hit (\<lambda>l. l\<lparr>hl_frozen := False\<rparr>) (hosting_logs s)\<rparr>"
  have c: "credit_hosting (lockedAmounts rows) s1 = Inr s'"
    using unfreeze_cases [OF run False] by (simp add: rows_def hit_def s1_def)
  have w1: "hosting_wf s1" using w
    by (auto simp: hosting_wf_def s1_def map_update_where balances_wf_def elim!: set_update_whereE split: if_splits)
  have am: "amount_in (lockedAmounts rows) k = weigh (\<lambda>l. hl_userId l = k \<and> hit l) (hosting_logs s)" for k
  proof -
    have "(\<Sum>r\<leftarrow>filter hit t. if hl_userId r = k then hl_amount r else 0) = weigh (\<lambda>l. hl_userId l = k \<and> hit l) t" for t
      by (induction t) auto
    then show ?thesis using lockedAmounts_spec [of rows] by (simp add: rows_def)
  qed
  have "has_scale 8 (amount_in (lockedAmounts rows) k)" for k
    unfolding am using w by (intro has_scale_weigh) (auto simp: hit_def due_def dest: hosting_wf_frozen)
  then have "hosting_wf s' \<and> hosting_frame s1 s' \<and> hosting_logs s' = hosting_logs s1 \<and> balance_logs s' = balance_logs s1
    \<and> (\<forall>k. balance_of s' k = balance_of s1 k) \<and> (\<forall>k. hosting_of s' k = hosting_of s1 k + amount_in (lockedAmounts rows) k)"
    using lockedAmounts_spec [of rows] by (intro credit_hosting_effect [OF c _ _ w1]) simp_all
  moreover have "hosting_frame s s1" by (simp add: s1_def hosting_frame_logs)
  ultimately show ?thesis
    by (auto simp: am hit_def s1_def hosting_of_def balance_of_def intro: hosting_frame_trans)
qed

lemma release_frozen:
  assumes "hosting_wf s" and "unfreeze_tx now lk ids s = Inr (n, s')"
  shows "frozen_of s' k = frozen_of s k - weigh (\<lambda>l. hl_userId l = k \<and> hl_id l \<in> set ids \<and> due now l) (hosting_logs s)"
proof -
  have "weigh (\<lambda>l. hl_userId l = k \<and> hl_frozen l \<and> hl_id l \<in> set ids \<and> due now l) t =
      weigh (\<lambda>l. hl_userId l = k \<and> hl_id l \<in> set ids \<and> due now l) t" for t
    by (induction t) (auto simp: due_def)
  then show ?thesis using release_effect [OF assms] by (simp add: frozen_of_def weigh_release)
qed

lemma credit_hosting_logs: "credit_hosting m s = Inr s' \<Longrightarrow> hosting_logs s' = hosting_logs s"
  by (induction m s rule: credit_hosting.induct) (auto split: option.splits)

lemma release_logs:
  assumes "unfreeze_tx now lk ids s = Inr (n, s')"
  shows "hosting_logs s' = update_where (\<lambda>l. hl_id l \<in> set ids \<and> due now l) (\<lambda>l. l\<lparr>hl_frozen := False\<rparr>) (hosting_logs s)"
proof (cases "filter (\<lambda>l. hl_id l \<in> set ids \<and> due now l) (hosting_logs s) = []")
  case True
  then have "s' = s" using assms by (simp add: unfreeze_tx_def)
  moreover from True have "\<forall>l\<in>set (hosting_logs s). \<not> (hl_id l \<in> set ids \<and> due now l)" by (simp add: filter_empty_conv)
  ultimately show ?thesis by (simp add: update_where_id)
next
  case False
  show ?thesis using credit_hosting_logs unfreeze_cases [OF assms False] by fastforce
qed

lemma release_commits:
  assumes "\<forall>k. lk k" and "\<forall>l\<in>set (hosting_logs s). hl_userId l \<in> u_id ` set (users s)"
  shows "\<exists>n s'. unfreeze_tx now lk ids s = Inr (n, s')"
proof -
  let ?rows = "filter (\<lambda>l. hl_id l \<in> set ids \<and> due now l) (hosting_logs s)"
  have hit: "(\<lambda>l. (hl_id l \<in> hl_id ` {l \<in> set (hosting_logs s). hl_id l \<in> set ids \<and> due now l}) \<and> due now l) l =
      (hl_id l \<in> set ids \<and> due now l)" if "l \<in> set (hosting_logs s)" for l using that by auto
  have "count_where (\<lambda>l. hl_id l \<in> set (map hl_id ?rows) \<and> due now l) (hosting_logs s) = length (map hl_id ?rows)"
    using hit by (simp add: count_where_def cong: filter_cong)
  moreover have "\<exists>s'. credit_hosting (lockedAmounts ?rows) (s\<lparr>hosting_logs := t\<rparr>) = Inr s'" for t
    using lockedAmounts_spec [of ?rows] assms(2) by (intro credit_hosting_succeeds) auto
  then obtain s' where "credit_hosting (lockedAmounts ?rows) (s\<lparr>hosting_logs := update_where
      (\<lambda>l. hl_id l \<in> set (map hl_id ?rows) \<and> due now l) (\<lambda>l. l\<lparr>hl_frozen := False\<rparr>) (hosting_logs s)\<rparr>) = Inr s'" by blast
  ultimately show ?thesis unfolding unfreeze_tx_def Let_def using assms(1)
    by (cases "?rows = []") (simp_all del: set_map)
qed

lemma deduct_returns:
  "resolveHostedIncomeOwner hostId (Some i) True s = Some k \<Longrightarrow>
     \<exists>d s'. deductHostingBalance now True hostId amount i re s = Inr (Some d, s') \<and> dd_hostOwnerId d = k"
  by (simp add: deductHostingBalance_def Let_def split_beta)

section \<open>Runs\<close>

inductive hosting_step :: "db \<Rightarrow> db \<Rightarrow> bool" where
  income: "0 \<le> amount \<Longrightarrow> processHostingIncome now hostId amount i ty s = (r, s') \<Longrightarrow> hosting_step s s'"
| deduct: "0 \<le> amount \<Longrightarrow> has_scale 8 amount \<Longrightarrow> deductHostingBalance now lk hostId amount i re s = Inr (r, s') \<Longrightarrow> hosting_step s s'"
| release: "hosting_step s (unfreezeHostingBalance now granted s0 s)"

definition funds_sound :: "db \<Rightarrow> bool" where
  "funds_sound s \<longleftrightarrow> hosting_wf s \<and> (\<forall>k. 0 \<le> hosting_of s k \<and> 0 \<le> balance_of s k)"

lemma deduct_None:
  "deductHostingBalance now lk hostId amount i re s = Inr (None, s') \<Longrightarrow> s' = s"
  by (auto simp: deductHostingBalance_def Let_def split: option.splits if_splits prod.splits)

lemma income_effect:
  assumes "0 \<le> amount" and "processHostingIncome now hostId amount i ty s = (r, s')"
  shows "(hosting_wf s \<longrightarrow> hosting_wf s') \<and> users s' = users s"
  using assms by (auto simp: processHostingIncome_def recordHostingIncome_def hosting_wf_log split: option.splits if_splits)

lemma weigh_due_nonneg: "hosting_wf s \<Longrightarrow> 0 \<le> weigh (\<lambda>l. P l \<and> due now l) (hosting_logs s)"
  by (intro weigh_nonneg) (auto simp: due_def dest: hosting_wf_frozen)

lemma release_sound: "funds_sound s \<Longrightarrow> funds_sound (unfreezeHostingBalance now granted s0 s)"
proof -
  assume f: "funds_sound s"
  then have w: "hosting_wf s" by (simp add: funds_sound_def)
  show ?thesis
  proof (cases "\<exists>n s'. unfreeze_tx now granted (map hl_id (filter (due now) (hosting_logs s0))) s = Inr (n, s')")
    case True
    then obtain n s' where r: "unfreeze_tx now granted (map hl_id (filter (due now) (hosting_logs s0))) s = Inr (n, s')" by blast
    have "funds_sound s'"
      using release_effect [OF w r] f weigh_due_nonneg [OF w, where P = "\<lambda>l. hl_userId l = k \<and> hl_id l \<in> Q" for k Q]
      by (simp add: funds_sound_def conj_assoc)
    then show ?thesis using f r by (simp add: unfreezeHostingBalance_def Let_def)
  next
    case False
    then show ?thesis using f
      by (cases "unfreeze_tx now granted (map hl_id (filter (due now) (hosting_logs s0))) s")
        (auto simp: unfreezeHostingBalance_def Let_def)
  qed
qed

lemma deduct_sound:
  assumes "funds_sound s" "0 \<le> amount" "has_scale 8 amount" "deductHostingBalance now lk hostId amount i re s = Inr (r, s')"
  shows "funds_sound s'"
proof (cases r)
  case None
  then show ?thesis using assms deduct_None by blast
next
  case (Some d)
  let ?k = "dd_hostOwnerId d"
  have w: "hosting_wf s" and pos: "\<And>k. 0 \<le> hosting_of s k \<and> 0 \<le> balance_of s k" using assms(1) by (auto simp: funds_sound_def)
  note e = deduct_effect [OF w assms(2,3) assms(4) [unfolded Some]]
  then have "dd_fromAvailable d \<le> hosting_of s ?k \<and> dd_fromBalance d \<le> balance_of s ?k"
    using pos [of ?k] by (auto simp: three_funds_def)
  then have "0 \<le> hosting_of s' k \<and> 0 \<le> balance_of s' k" for k
    using e pos [of k] by (cases "k = ?k") auto
  then show ?thesis using e by (simp add: funds_sound_def)
qed

interpretation hosting_runs: invariant_system hosting_step funds_sound
proof
  fix s s' assume "hosting_step s s'" and f: "funds_sound s"
  then show "funds_sound s'"
  proof cases
    case (income amount now hostId i ty r)
    then show ?thesis using f income_effect [OF income] by (auto simp: funds_sound_def hosting_of_def balance_of_def)
  qed (auto intro: f deduct_sound release_sound)
qed

section \<open>Properties\<close>

text \<open>C4: A refund to a buyer is recovered from the owner of the host in this order: the frozen income of the
  instance, the income already released, the balance. Exactly the amount asked for is taken, or all three
  funds when they hold less; no fund goes below zero and no other user, host or instance is touched. A
  share of the balance is the only one that is written to the balance log.\<close>

theorem deduction_exact:
  assumes "hosting_wf s" and "0 \<le> amount" and "has_scale 8 amount"
    and "deductHostingBalance now granted hostId amount instanceId remark s = Inr (Some d, s')"
  shows "let k = dd_hostOwnerId d in
    three_funds amount (frozen_on s k instanceId) (max 0 (hosting_of s k)) (max 0 (balance_of s k)) d
    \<and> (\<forall>j. frozen_of s' j = frozen_of s j - (if j = k then dd_fromFrozen d else 0)
         \<and> hosting_of s' j = hosting_of s j - (if j = k then dd_fromAvailable d else 0)
         \<and> balance_of s' j = balance_of s j - (if j = k then dd_fromBalance d else 0))
    \<and> instances s' = instances s \<and> hosts s' = hosts s \<and> billing_records s' = billing_records s
    \<and> length (balance_logs s') = length (balance_logs s) + (if 0 < dd_fromBalance d then 1 else 0)"
  using deduct_effect [OF assms] hosting_frame_tables [of s s'] by (auto simp: Let_def)

text \<open>C21: A release moves frozen income into the owner's hosting balance and nothing else: for every user the
  two together stay the same, and balances are untouched.\<close>

theorem release_conserves:
  assumes "hosting_wf s" and "unfreeze_tx now granted ids s = Inr (n, s')"
  shows "hosting_wf s' \<and> (\<forall>k. hosting_of s' k + frozen_of s' k = hosting_of s k + frozen_of s k
      \<and> hosting_of s k \<le> hosting_of s' k \<and> balance_of s' k = balance_of s k)
    \<and> balance_logs s' = balance_logs s"
  using release_effect [OF assms] release_frozen [OF assms] weigh_due_nonneg [OF assms(1), where P = "\<lambda>l. hl_userId l = k \<and> hl_id l \<in> Q" for k Q]
  by (simp add: conj_assoc)

text \<open>No interleaving of incomes, refunds and releases, with the release job reading its rows from any
  earlier state, takes a hosting balance or a balance below zero.\<close>

theorem hosting_funds_nonneg:
  assumes "hosting_step\<^sup>*\<^sup>* s s'" and "funds_sound s"
  shows "\<forall>k i. 0 \<le> hosting_of s' k \<and> 0 \<le> balance_of s' k \<and> 0 \<le> frozen_on s' k i"
  using hosting_runs.inv_run [OF assms] frozen_on_nonneg by (simp add: funds_sound_def)

text \<open>The release job completes: when no lock is held and the owners of the rows exist, every row it read
  that is still frozen is released; a second job that read the same rows pays nothing again.\<close>

theorem release_completes:
  assumes "\<forall>k. granted k" and "\<forall>l\<in>set (hosting_logs s). hl_userId l \<in> u_id ` set (users s)"
    and "s' = unfreezeHostingBalance now granted s0 s"
  shows "(\<forall>l\<in>set (hosting_logs s'). due now l \<longrightarrow> hl_id l \<notin> hl_id ` set (filter (due now) (hosting_logs s0)))
    \<and> unfreezeHostingBalance now granted s0 s' = s'"
proof -
  define ids where "ids = map hl_id (filter (due now) (hosting_logs s0))"
  have none: "unfreezeHostingBalance now granted s0 t = t" if "\<forall>l\<in>set (hosting_logs t). due now l \<longrightarrow> hl_id l \<notin> set ids" for t
  proof -
    have "filter (\<lambda>l. hl_id l \<in> set ids \<and> due now l) (hosting_logs t) = []" using that by (auto simp: filter_empty_conv)
    then have "unfreeze_tx now granted ids t = Inr (0, t)" by (simp add: unfreeze_tx_def)
    then show ?thesis by (simp add: unfreezeHostingBalance_def ids_def Let_def)
  qed
  have "\<forall>l\<in>set (hosting_logs s'). due now l \<longrightarrow> hl_id l \<notin> set ids"
  proof (cases "\<forall>l\<in>set (hosting_logs s). due now l \<longrightarrow> hl_id l \<notin> set ids")
    case True
    with none [OF True] show ?thesis by (simp add: assms(3))
  next
    case False
    obtain n s1 where r: "unfreeze_tx now granted ids s = Inr (n, s1)"
      using release_commits [OF assms(1,2)] by blast
    have ne: "filter (due now) (hosting_logs s0) \<noteq> []" using False by (auto simp: ids_def filter_empty_conv)
    have "s' = s1" using r ne by (simp add: assms(3) unfreezeHostingBalance_def ids_def)
    moreover have "hosting_logs s1 = update_where (\<lambda>l. hl_id l \<in> set ids \<and> due now l) (\<lambda>l. l\<lparr>hl_frozen := False\<rparr>) (hosting_logs s)"
      using release_logs [OF r] .
    ultimately show ?thesis by (auto simp: due_def elim!: set_update_whereE split: if_splits)
  qed
  then show ?thesis using none by (simp add: ids_def)
qed

section \<open>The properties on concrete databases\<close>

definition mk_user :: "int \<Rightarrow> user_role \<Rightarrow> rat \<Rightarrow> rat \<Rightarrow> user" where
  "mk_user k role balance hosting = \<lparr>u_id = k, u_username = ''u'', u_email = None, u_avatarStyle = ''a'', u_avatarBadgeId = None,
     u_status = U_active, u_balance = balance, u_role = role, u_hostingBalance = hosting, u_hourlyReserved = 0, u_affBalance = 0\<rparr>"

definition mk_host :: "int \<Rightarrow> int \<Rightarrow> host" where
  "mk_host k owner = \<lparr>h_id = k, h_userId = owner, h_natPortStart = None, h_natPortEnd = None, h_cpuUsed = 5, h_memoryUsed = 5,
     h_diskUsed = 5, h_natPortsUsed = 0, h_cpuAllowanceMax = 0, h_memoryMax = 0, h_enableResourcePool = False\<rparr>"

definition mk_income :: "int \<Rightarrow> int \<Rightarrow> int \<Rightarrow> rat \<Rightarrow> hosting_log" where
  "mk_income k owner instanceId amount = \<lparr>hl_id = k, hl_userId = owner, hl_type = HT_income, hl_action = Some HA_purchase,
     hl_amount = amount, hl_frozen = True, hl_unfreezeAt = Some 10, hl_relatedId = Some instanceId, hl_remark = None,
     hl_buyer = None, hl_instanceName = None, hl_createdAt = 0\<rparr>"

definition hosting_db :: db where
  "hosting_db = empty_db\<lparr>users := [mk_user 1 R_user 50 0, mk_user 2 R_user 10 3], hosts := [mk_host 1 2],
     hosting_logs := [mk_income 1 2 5 4], hosting_seq := 2\<rparr>"

lemmas hosting_db_simps = hosting_db_def empty_db_def mk_user_def mk_host_def mk_income_def

lemma hosting_db_sound: "funds_sound hosting_db"
  by (simp add: funds_sound_def hosting_wf_def balances_wf_def hosting_db_simps hosting_of_def balance_of_def)

lemma hosting_db_owner: "resolveHostedIncomeOwner 1 (Some 5) True hosting_db = Some 2"
  by (simp add: resolveHostedIncomeOwner_def hosting_db_simps role_of_def)

lemma hosting_db_funds:
  "frozen_on hosting_db 2 5 = 4" "hosting_of hosting_db 2 = 3" "balance_of hosting_db 2 = 10" "frozen_of hosting_db 2 = 4"
  by (simp_all add: frozen_on_def frozen_of_def frozen_income_def hosting_db_simps hosting_of_def balance_of_def)

theorem deduction_exact_witness:
  "\<exists>d s'. deductHostingBalance 0 True 1 9 5 R_checkin hosting_db = Inr (Some d, s')
     \<and> dd_fromFrozen d = 4 \<and> dd_fromAvailable d = 3 \<and> dd_fromBalance d = 2 \<and> balance_of s' 2 = 8"
proof -
  obtain d s' where d: "deductHostingBalance 0 True 1 9 5 R_checkin hosting_db = Inr (Some d, s')" "dd_hostOwnerId d = 2"
    using deduct_returns [OF hosting_db_owner] by blast
  have "hosting_wf hosting_db" using hosting_db_sound by (simp add: funds_sound_def)
  from deduction_exact [OF this _ _ d(1)] d show ?thesis
    by (auto simp: hosting_db_funds three_funds_def)
qed

theorem release_conserves_witness:
  "\<exists>s'. unfreeze_tx 10 (\<lambda>k. True) [1] hosting_db = Inr (1, s') \<and> hosting_of s' 2 = 7 \<and> frozen_of s' 2 = 0"
proof -
  define t where "t = put_hosting 2 7 (hosting_db\<lparr>hosting_logs := [(mk_income 1 2 5 4)\<lparr>hl_frozen := False\<rparr>]\<rparr>)"
  have r: "unfreeze_tx 10 (\<lambda>k. True) [1] hosting_db = Inr (1, t)"
    by (simp add: t_def unfreeze_tx_def hosting_db_simps due_def lockedAmounts_def count_where_def Let_def)
  have z: "frozen_of t 2 = 0" by (simp add: t_def frozen_of_def)
  have "hosting_wf hosting_db" using hosting_db_sound by (simp add: funds_sound_def)
  from release_conserves [OF this r] have "hosting_of t 2 + frozen_of t 2 = hosting_of hosting_db 2 + frozen_of hosting_db 2" by blast
  with r z show ?thesis by (intro exI [of _ t]) (simp add: hosting_db_funds)
qed

theorem hosting_funds_nonneg_witness:
  "\<exists>s'. hosting_step\<^sup>*\<^sup>* hosting_db s' \<and> 0 \<le> hosting_of s' 2 \<and> hosting_of s' 2 \<noteq> hosting_of hosting_db 2"
proof -
  have s: "hosting_step\<^sup>*\<^sup>* hosting_db (unfreezeHostingBalance 10 (\<lambda>k. True) hosting_db hosting_db)"
    by (intro r_into_rtranclp release)
  have "hosting_of (unfreezeHostingBalance 10 (\<lambda>k. True) hosting_db hosting_db) 2 = 7"
    by (simp add: unfreezeHostingBalance_def unfreeze_tx_def hosting_db_simps due_def lockedAmounts_def count_where_def Let_def
        put_hosting_def set_hosting_def hosting_of_def to_fixed_id)
  then show ?thesis using s hosting_funds_nonneg [OF s hosting_db_sound] hosting_db_funds by fastforce
qed

theorem release_completes_witness:
  "filter (due 10) (hosting_logs (unfreezeHostingBalance 10 (\<lambda>k. True) hosting_db hosting_db)) = []"
proof -
  have "\<forall>l\<in>set (hosting_logs hosting_db). hl_userId l \<in> u_id ` set (users hosting_db)"
    by (simp add: hosting_db_simps)
  from release_completes [OF _ this refl, of "\<lambda>k. True" 10 hosting_db] show ?thesis
    by (simp add: unfreezeHostingBalance_def unfreeze_tx_def hosting_db_simps due_def lockedAmounts_def count_where_def Let_def
        put_hosting_def)
qed

end
