(* ===== verification/BillingRecords.thy ===== *)
theory BillingRecords
  imports Hosting
begin

text \<open>
  The billing records of instances: \<open>server/src/db/billing-records.ts\<close>. An instance that was moved to
  another host got a new row; the records it paid under its old rows are found through the inbox
  messages of the moves (its billing lineage). When a row was last changed (\<open>updatedAt\<close>, kept by the
  database client) is an argument, as is the time.
\<close>

section \<open>The lineage\<close>

definition sameDate :: "int option \<Rightarrow> int option \<Rightarrow> bool" where
  "sameDate a b =
     (case (a, b) of (None, None) \<Rightarrow> True | (Some x, Some y) \<Rightarrow> x = y | _ \<Rightarrow> False)"

definition half_hour :: int where
  "half_hour = 30 * 60 * 1000"

definition record_count :: "int \<Rightarrow> db \<Rightarrow> nat" where
  "record_count k s = count_where (\<lambda>r. br_instanceId r = k) (billing_records s)"

definition deletedCandidates :: "(int \<Rightarrow> int) \<Rightarrow> instance_row \<Rightarrow> int \<Rightarrow> migration_note \<Rightarrow> db \<Rightarrow> instance_row list" where
  "deletedCandidates updatedAt seed oldHostId message s =
     (let expectedName = (case mn_instanceName message of Some n \<Rightarrow> n | None \<Rightarrow> i_name seed) in
      filter (\<lambda>i. i_userId i = i_userId seed \<and> i_hostId i = oldHostId \<and> i_name i = expectedName
          \<and> i_status i = IS_deleted \<and> i_id i \<noteq> i_id seed
          \<and> mn_createdAt message - half_hour \<le> updatedAt (i_id i)
          \<and> updatedAt (i_id i) \<le> mn_createdAt message + half_hour) (instances s))"

text \<open>The only candidate, or the only one with the same expiry, or the only one with records.\<close>

definition the_candidate :: "instance_row \<Rightarrow> instance_row list \<Rightarrow> db \<Rightarrow> int option" where
  "the_candidate seed cands s =
     (let preferred = filter (\<lambda>c. sameDate (i_expiresAt c) (i_expiresAt seed)) cands;
          withRecords = filter (\<lambda>c. record_count (i_id c) s > 0) cands;
          final = (if preferred \<noteq> [] then preferred else cands) in
      if length cands = 1 then Some (i_id (hd cands))
      else if length preferred = 1 then Some (i_id (hd preferred))
      else if length withRecords = 1 then Some (i_id (hd withRecords))
      else if length final = 1 then Some (i_id (hd final))
      else None)"

fun migrated_from :: "(int \<Rightarrow> int) \<Rightarrow> instance_row \<Rightarrow> migration_note list \<Rightarrow> db \<Rightarrow> int option" where
  "migrated_from updatedAt seed [] s = None"
| "migrated_from updatedAt seed (m # ms) s =
     (if mn_instanceId m \<noteq> Some (i_id seed) then migrated_from updatedAt seed ms s
      else case mn_oldHostId m of
        None \<Rightarrow> migrated_from updatedAt seed ms s
      | Some oldHostId \<Rightarrow>
          if mn_newHostId m \<noteq> None \<and> mn_newHostId m \<noteq> Some (i_hostId seed) then migrated_from updatedAt seed ms s
          else
            let cands = deletedCandidates updatedAt seed oldHostId m s in
            if cands = [] then migrated_from updatedAt seed ms s
            else case the_candidate seed cands s of
              Some c \<Rightarrow> Some c
            | None \<Rightarrow> migrated_from updatedAt seed ms s)"

definition resolveImmediateMigratedBillingSource :: "(int \<Rightarrow> int) \<Rightarrow> instance_row \<Rightarrow> db \<Rightarrow> int option" where
  "resolveImmediateMigratedBillingSource updatedAt seed s =
     migrated_from updatedAt seed
       (sort_key (\<lambda>m. - mn_createdAt m) (filter (\<lambda>m. mn_userId m = i_userId seed) (migration_notes s))) s"

text \<open>The loop: \<open>lineage\<close> has the rows found so far, which are the rows visited; it ends because a row
  is visited once.\<close>

function lineage_loop :: "(int \<Rightarrow> int) \<Rightarrow> db \<Rightarrow> int list \<Rightarrow> int \<Rightarrow> int list" where
  "lineage_loop updatedAt s lineage current =
     (case find_key i_id current (instances s) of
        None \<Rightarrow> lineage
      | Some seed \<Rightarrow>
          if current \<in> set lineage then lineage
          else case resolveImmediateMigratedBillingSource updatedAt seed s of
            None \<Rightarrow> current # lineage
          | Some predecessorId \<Rightarrow>
              if predecessorId = 0 \<or> predecessorId \<in> set (current # lineage) then current # lineage
              else lineage_loop updatedAt s (current # lineage) predecessorId)"
  by pat_completeness auto

termination
proof (relation "measure (\<lambda>(u, s, l, k). card (i_id ` set (instances s) - set l))", goal_cases)
  case (2 u s l k seed p)
  then have "k \<in> i_id ` set (instances s) - set l" by (auto dest: find_key_SomeD)
  then have "i_id ` set (instances s) - set (k # l) \<subset> i_id ` set (instances s) - set l" by auto
  then show ?case by (simp add: psubset_card_mono del: set_simps)
qed simp

declare lineage_loop.simps [simp del]

definition getInstanceBillingLineageIds :: "(int \<Rightarrow> int) \<Rightarrow> int \<Rightarrow> db \<Rightarrow> int list" where
  "getInstanceBillingLineageIds updatedAt instanceId s =
     (let lineage = lineage_loop updatedAt s [] instanceId in
      if lineage \<noteq> [] then lineage else [instanceId])"

section \<open>Writing records\<close>

record billing_input =
  bi_instanceId :: int
  bi_userId :: int
  bi_type :: billing_type
  bi_amount :: rat
  bi_months :: int
  bi_periodStart :: int
  bi_periodEnd :: int

definition createBillingRecord :: "int \<Rightarrow> billing_input \<Rightarrow> db \<Rightarrow> db" where
  "createBillingRecord now d s = s\<lparr>billing_records := billing_records s @
     [\<lparr>br_type = bi_type d, br_transferId = None, br_instanceId = bi_instanceId d, br_userId = bi_userId d,
       br_amount = column 2 (bi_amount d), br_months = bi_months d, br_periodStart = bi_periodStart d,
       br_periodEnd = bi_periodEnd d, br_createdAt = now\<rparr>]\<rparr>"

definition createNewPurchaseRecord :: "int \<Rightarrow> int \<Rightarrow> int \<Rightarrow> rat \<Rightarrow> int \<Rightarrow> int \<Rightarrow> int \<Rightarrow> db \<Rightarrow> db" where
  "createNewPurchaseRecord now instanceId userId amount months periodStart periodEnd =
     createBillingRecord now \<lparr>bi_instanceId = instanceId, bi_userId = userId, bi_type = BT_newPurchase, bi_amount = amount,
       bi_months = months, bi_periodStart = periodStart, bi_periodEnd = periodEnd\<rparr>"

definition createRenewRecord :: "int \<Rightarrow> int \<Rightarrow> int \<Rightarrow> rat \<Rightarrow> int \<Rightarrow> int \<Rightarrow> int \<Rightarrow> db \<Rightarrow> db" where
  "createRenewRecord now instanceId userId amount months periodStart periodEnd =
     createBillingRecord now \<lparr>bi_instanceId = instanceId, bi_userId = userId, bi_type = BT_renew, bi_amount = amount,
       bi_months = months, bi_periodStart = periodStart, bi_periodEnd = periodEnd\<rparr>"

definition createUpgradeRecord :: "int \<Rightarrow> int \<Rightarrow> int \<Rightarrow> rat \<Rightarrow> int \<Rightarrow> int \<Rightarrow> db \<Rightarrow> db" where
  "createUpgradeRecord now instanceId userId amount periodStart periodEnd =
     createBillingRecord now \<lparr>bi_instanceId = instanceId, bi_userId = userId, bi_type = BT_upgrade, bi_amount = amount,
       bi_months = 0, bi_periodStart = periodStart, bi_periodEnd = periodEnd\<rparr>"

definition createDowngradeRecord :: "int \<Rightarrow> int \<Rightarrow> int \<Rightarrow> int \<Rightarrow> int \<Rightarrow> db \<Rightarrow> db" where
  "createDowngradeRecord now instanceId userId periodStart periodEnd =
     createBillingRecord now \<lparr>bi_instanceId = instanceId, bi_userId = userId, bi_type = BT_downgrade, bi_amount = 0,
       bi_months = 0, bi_periodStart = periodStart, bi_periodEnd = periodEnd\<rparr>"

definition createRefundRecord :: "int \<Rightarrow> int \<Rightarrow> int \<Rightarrow> rat \<Rightarrow> db \<Rightarrow> db" where
  "createRefundRecord now instanceId userId amount =
     createBillingRecord now \<lparr>bi_instanceId = instanceId, bi_userId = userId, bi_type = BT_refund, bi_amount = - \<bar>amount\<bar>,
       bi_months = 0, bi_periodStart = now, bi_periodEnd = now\<rparr>"

definition reassignInstanceBillingRecords :: "int \<Rightarrow> int \<Rightarrow> db \<Rightarrow> nat \<times> db" where
  "reassignInstanceBillingRecords sourceInstanceId targetInstanceId s =
     (if sourceInstanceId = targetInstanceId then (0, s)
      else (count_where (\<lambda>r. br_instanceId r = sourceInstanceId) (billing_records s),
        s\<lparr>billing_records := update_where (\<lambda>r. br_instanceId r = sourceInstanceId)
            (\<lambda>r. r\<lparr>br_instanceId := targetInstanceId\<rparr>) (billing_records s)\<rparr>))"

section \<open>Totals\<close>

definition is_payment :: "billing_record \<Rightarrow> bool" where
  "is_payment r \<longleftrightarrow> br_type r \<in> {BT_newPurchase, BT_renew, BT_upgrade}"

definition getInstanceTotalSpent :: "int \<Rightarrow> db \<Rightarrow> rat" where
  "getInstanceTotalSpent instanceId s =
     (\<Sum>r\<leftarrow>filter (\<lambda>r. br_instanceId r = instanceId \<and> is_payment r) (billing_records s). br_amount r)"

definition getInstanceTotalRefunded :: "int \<Rightarrow> db \<Rightarrow> rat" where
  "getInstanceTotalRefunded instanceId s =
     (\<Sum>r\<leftarrow>filter (\<lambda>r. br_instanceId r = instanceId \<and> br_type r = BT_refund) (billing_records s). \<bar>br_amount r\<bar>)"

record billing_stats =
  bs_totalSpent :: rat
  bs_totalRefunded :: rat
  bs_purchaseCount :: nat
  bs_renewCount :: nat

definition getUserBillingStats :: "int \<Rightarrow> db \<Rightarrow> billing_stats" where
  "getUserBillingStats userId s =
     \<lparr>bs_totalSpent = (\<Sum>r\<leftarrow>filter (\<lambda>r. br_userId r = userId \<and> is_payment r) (billing_records s). br_amount r),
      bs_totalRefunded = (\<Sum>r\<leftarrow>filter (\<lambda>r. br_userId r = userId \<and> br_type r = BT_refund) (billing_records s). \<bar>br_amount r\<bar>),
      bs_purchaseCount = count_where (\<lambda>r. br_userId r = userId \<and> br_type r = BT_newPurchase) (billing_records s),
      bs_renewCount = count_where (\<lambda>r. br_userId r = userId \<and> br_type r = BT_renew) (billing_records s)\<rparr>"

section \<open>Lemmas on the lineage\<close>

lemma length_1_hd: "length xs = 1 \<Longrightarrow> hd xs \<in> set xs"
  by (cases xs) auto

lemma the_candidate_mem: "the_candidate seed cands s = Some c \<Longrightarrow> c \<in> i_id ` set cands"
proof -
  assume a: "the_candidate seed cands s = Some c"
  have "c \<in> i_id ` set cands" if "length (filter P cands) = 1" "c = i_id (hd (filter P cands))" for P
    using length_1_hd [OF that(1)] that(2) by auto
  moreover have "c \<in> i_id ` set cands" if "length cands = 1" "c = i_id (hd cands)"
    using length_1_hd [OF that(1)] that(2) by auto
  ultimately show ?thesis using a by (auto simp: the_candidate_def Let_def split: if_splits)
qed

lemma migrated_from_mem:
  "migrated_from updatedAt seed ms s = Some c \<Longrightarrow>
     \<exists>i\<in>set (instances s). i_id i = c \<and> i_userId i = i_userId seed \<and> i_status i = IS_deleted \<and> c \<noteq> i_id seed"
  by (induction updatedAt seed ms s rule: migrated_from.induct)
    (fastforce simp: Let_def deletedCandidates_def split: if_splits option.splits dest!: the_candidate_mem)+

lemma source_mem:
  "resolveImmediateMigratedBillingSource updatedAt seed s = Some c \<Longrightarrow>
     \<exists>i\<in>set (instances s). i_id i = c \<and> i_userId i = i_userId seed \<and> i_status i = IS_deleted \<and> c \<noteq> i_id seed"
  unfolding resolveImmediateMigratedBillingSource_def by (rule migrated_from_mem)

lemma no_notes_no_source: "migration_notes s = [] \<Longrightarrow> resolveImmediateMigratedBillingSource updatedAt seed s = None"
  by (simp add: resolveImmediateMigratedBillingSource_def)

text \<open>An instance that never moved is its own lineage.\<close>

lemma lineage_self: "migration_notes s = [] \<Longrightarrow> getInstanceBillingLineageIds updatedAt k s = [k]"
  by (simp add: getInstanceBillingLineageIds_def lineage_loop.simps [of _ s "[]" k] no_notes_no_source Let_def split: option.splits)

text \<open>The rows the loop may add: of the owner \<open>u\<close>, and deleted unless it is the row asked for.\<close>

definition in_lineage :: "db \<Rightarrow> int \<Rightarrow> int \<Rightarrow> int \<Rightarrow> bool" where
  "in_lineage s u k x \<longleftrightarrow>
     (\<exists>i. find_key i_id x (instances s) = Some i \<and> i_userId i = u \<and> (x = k \<or> i_status i = IS_deleted))"

definition lineage_sound :: "db \<Rightarrow> int \<Rightarrow> int \<Rightarrow> int list \<Rightarrow> bool" where
  "lineage_sound s u k l \<longleftrightarrow> distinct l \<and> (\<forall>x\<in>set l. in_lineage s u k x)"

lemma lineage_loop_sound:
  "distinct (map i_id (instances s)) \<Longrightarrow> lineage_sound s u k l \<Longrightarrow> in_lineage s u k current \<Longrightarrow> current \<notin> set l \<Longrightarrow>
    lineage_sound s u k (lineage_loop updatedAt s l current) \<and> (\<exists>pre. lineage_loop updatedAt s l current = pre @ current # l)"
proof (induction updatedAt s l current rule: lineage_loop.induct)
  case (1 updatedAt s l current)
  from "1.prems"(3) obtain seed where seed: "find_key i_id current (instances s) = Some seed" "i_userId seed = u"
    by (auto simp: in_lineage_def)
  have here: "lineage_sound s u k (current # l)" using "1.prems" by (simp add: lineage_sound_def)
  define res where "res = resolveImmediateMigratedBillingSource updatedAt seed s"
  show ?case
  proof (cases "res = None \<or> (\<exists>p. res = Some p \<and> (p = 0 \<or> p \<in> set (current # l)))")
    case True
    then have "lineage_loop updatedAt s l current = current # l"
      using "1.prems"(4) by (subst lineage_loop.simps) (auto simp: seed res_def split: option.splits)
    with here show ?thesis by simp
  next
    case False
    then obtain p where p: "res = Some p" "\<not> (p = 0 \<or> p \<in> set (current # l))" by auto
    then have step: "lineage_loop updatedAt s l current = lineage_loop updatedAt s (current # l) p"
      using "1.prems"(4) by (subst lineage_loop.simps) (simp add: seed res_def)
    from p(1) source_mem [of updatedAt seed s p] obtain i
      where i: "i \<in> set (instances s)" "i_id i = p" "i_userId i = u" "i_status i = IS_deleted"
      using seed(2) by (auto simp: res_def)
    then have "in_lineage s u k p"
      unfolding in_lineage_def using find_key_distinct [OF "1.prems"(1)] by metis
    moreover have "p \<notin> set (current # l)" using p(2) by blast
    ultimately have "lineage_sound s u k (lineage_loop updatedAt s (current # l) p)
        \<and> (\<exists>pre. lineage_loop updatedAt s (current # l) p = pre @ p # current # l)"
      using "1.IH" [OF seed(1) "1.prems"(4) p(1) [unfolded res_def] p(2) "1.prems"(1) here] by blast
    then show ?thesis unfolding step by (metis append.assoc append_Cons append_Nil)
  qed
qed

abbreviation reassigned :: "int \<Rightarrow> int \<Rightarrow> billing_record list \<Rightarrow> billing_record list" where
  "reassigned source target t \<equiv>
     update_where (\<lambda>r. br_instanceId r = source) (\<lambda>r. r\<lparr>br_instanceId := target\<rparr>) t"

lemma reassigned_sum:
  fixes f :: "billing_record \<Rightarrow> rat"
  assumes "source \<noteq> target" and "\<And>r. P (r\<lparr>br_instanceId := target\<rparr>) = P r" and "\<And>r. f (r\<lparr>br_instanceId := target\<rparr>) = f r"
  shows "(\<Sum>r\<leftarrow>filter (\<lambda>r. br_instanceId r = target \<and> P r) (reassigned source target t). f r) =
      (\<Sum>r\<leftarrow>filter (\<lambda>r. br_instanceId r = target \<and> P r) t. f r) + (\<Sum>r\<leftarrow>filter (\<lambda>r. br_instanceId r = source \<and> P r) t. f r)"
  using assms by (induction t) auto

lemma reassigned_all:
  fixes f :: "billing_record \<Rightarrow> rat"
  assumes "\<And>r. P (r\<lparr>br_instanceId := target\<rparr>) = P r" and "\<And>r. f (r\<lparr>br_instanceId := target\<rparr>) = f r"
  shows "(\<Sum>r\<leftarrow>filter P (reassigned source target t). f r) = (\<Sum>r\<leftarrow>filter P t. f r)"
    and "count_where P (reassigned source target t) = count_where P t"
  using assms by (induction t) (auto simp: count_where_def)

lemma reassigned_count:
  assumes "source \<noteq> target"
  shows "count_where (\<lambda>r. br_instanceId r = source) (reassigned source target t) = 0"
    and "count_where (\<lambda>r. br_instanceId r = target) (reassigned source target t) =
      count_where (\<lambda>r. br_instanceId r = target) t + count_where (\<lambda>r. br_instanceId r = source) t"
  using assms by (induction t) (auto simp: count_where_def)

section \<open>Properties\<close>

text \<open>C25: The lineage of an instance ends, lists no row twice, ends with the instance itself, and holds only
  rows of the instance's owner, all deleted but the instance: no refund can draw on what another user paid.\<close>

theorem lineage_is_owners:
  assumes "distinct (map i_id (instances s))" and "find_key i_id instanceId (instances s) = Some i"
  shows "let l = getInstanceBillingLineageIds updatedAt instanceId s in
    distinct l \<and> last l = instanceId
    \<and> (\<forall>x\<in>set l. \<exists>r. find_key i_id x (instances s) = Some r \<and> i_userId r = i_userId i
         \<and> (x = instanceId \<or> i_status r = IS_deleted))"
proof -
  have "in_lineage s (i_userId i) instanceId instanceId" using assms(2) by (simp add: in_lineage_def)
  then have "lineage_sound s (i_userId i) instanceId (lineage_loop updatedAt s [] instanceId)
      \<and> (\<exists>pre. lineage_loop updatedAt s [] instanceId = pre @ [instanceId])"
    using lineage_loop_sound [OF assms(1), of "i_userId i" instanceId "[]" instanceId updatedAt] by (simp add: lineage_sound_def)
  then show ?thesis
    by (auto simp: getInstanceBillingLineageIds_def Let_def lineage_sound_def in_lineage_def)
qed

text \<open>Moving the records of a row to the row that replaces it moves every amount: the new row's totals
  grow by the old row's, which has nothing left; what the users spent and got back stays.\<close>

theorem reassign_moves_all:
  assumes "source \<noteq> target" and "reassignInstanceBillingRecords source target s = (n, s')"
  shows "getInstanceTotalSpent target s' = getInstanceTotalSpent target s + getInstanceTotalSpent source s
    \<and> getInstanceTotalRefunded target s' = getInstanceTotalRefunded target s + getInstanceTotalRefunded source s
    \<and> record_count source s' = 0 \<and> record_count target s' = record_count target s + n
    \<and> getUserBillingStats u s' = getUserBillingStats u s"
proof -
  have s': "billing_records s' = reassigned source target (billing_records s)"
    and n: "n = count_where (\<lambda>r. br_instanceId r = source) (billing_records s)"
    using assms by (auto simp: reassignInstanceBillingRecords_def)
  show ?thesis
    using assms(1)
    by (simp add: getInstanceTotalSpent_def getInstanceTotalRefunded_def getUserBillingStats_def record_count_def s' n
        reassigned_sum reassigned_all reassigned_count is_payment_def)
qed

section \<open>The properties on concrete databases\<close>

definition mk_instance :: "int \<Rightarrow> int \<Rightarrow> int \<Rightarrow> instance_status \<Rightarrow> instance_row" where
  "mk_instance k owner hostId status = \<lparr>i_id = k, i_incusId = ''c'', i_name = ''web'', i_userId = owner, i_hostId = hostId,
     i_packagePlanId = Some 1, i_billingMode = BM_package, i_status = status, i_cleanupPending = False, i_portLimit = None,
     i_snapshotLimit = None, i_backupLimit = None, i_expiresAt = Some 1000, i_suspendedAt = None, i_suspendedBy = None,
     i_suspendReason = None, i_autoRenew = False, i_autoRenewAttempts = 0, i_lastAutoRenewAt = None, i_expiryNotifiedAt = None,
     i_version = 0, i_displayOrder = 0, i_packageId = Some 1, i_billingPrice = Some 10, i_billingCycle = Some 1, i_cpu = 1,
     i_memory = 1, i_disk = 1, i_deletionPending = False, i_remoteDeleted = False, i_deletionMode = None,
     i_deletionValue = None, i_feeWaiver = False\<rparr>"

definition mk_record :: "billing_type \<Rightarrow> int \<Rightarrow> int \<Rightarrow> rat \<Rightarrow> int \<Rightarrow> int \<Rightarrow> billing_record" where
  "mk_record ty instanceId userId amount periodStart periodEnd = \<lparr>br_type = ty, br_transferId = None,
     br_instanceId = instanceId, br_userId = userId, br_amount = amount, br_months = 1, br_periodStart = periodStart,
     br_periodEnd = periodEnd, br_createdAt = periodStart\<rparr>"

text \<open>Instance 6 replaced the deleted instance 5 when it was moved from host 1 to host 2.\<close>

definition moved_db :: db where
  "moved_db = empty_db\<lparr>instances := [mk_instance 5 1 1 IS_deleted, mk_instance 6 1 2 IS_running],
     migration_notes := [\<lparr>mn_userId = 1, mn_instanceId = Some 6, mn_oldHostId = Some 1, mn_newHostId = Some 2,
       mn_instanceName = None, mn_createdAt = 100\<rparr>],
     billing_records := [mk_record BT_newPurchase 5 1 10 0 1000]\<rparr>"

lemmas moved_db_simps = moved_db_def empty_db_def mk_instance_def mk_record_def

lemma moved_db_source:
  "resolveImmediateMigratedBillingSource (\<lambda>k. 100) (mk_instance 6 1 2 IS_running) moved_db = Some 5"
  by (simp add: resolveImmediateMigratedBillingSource_def moved_db_simps deletedCandidates_def half_hour_def the_candidate_def Let_def)

lemma moved_db_source5:
  "resolveImmediateMigratedBillingSource (\<lambda>k. 100) (mk_instance 5 1 1 IS_deleted) moved_db = None"
  by (simp add: resolveImmediateMigratedBillingSource_def moved_db_simps)

lemma moved_db_find:
  "find_key i_id 6 (instances moved_db) = Some (mk_instance 6 1 2 IS_running)"
  "find_key i_id 5 (instances moved_db) = Some (mk_instance 5 1 1 IS_deleted)"
  by (simp_all add: moved_db_simps)

lemma moved_db_lineage: "getInstanceBillingLineageIds (\<lambda>k. 100) 6 moved_db = [5, 6]"
  by (simp add: getInstanceBillingLineageIds_def lineage_loop.simps moved_db_find moved_db_source moved_db_source5 Let_def)

theorem lineage_is_owners_witness:
  "getInstanceBillingLineageIds (\<lambda>k. 100) 6 moved_db = [5, 6] \<and> (\<exists>r. find_key i_id 5 (instances moved_db) = Some r \<and> i_userId r = 1)"
proof -
  have "distinct (map i_id (instances moved_db))" by (simp add: moved_db_simps)
  from lineage_is_owners [OF this moved_db_find(1), of "\<lambda>k. 100"] show ?thesis
    by (simp add: moved_db_lineage) (simp add: moved_db_simps)
qed

theorem reassign_moves_all_witness:
  "getInstanceTotalSpent 6 (snd (reassignInstanceBillingRecords 5 6 moved_db)) = 10"
proof -
  have "getInstanceTotalSpent 6 moved_db = 0" "getInstanceTotalSpent 5 moved_db = 10"
    by (simp_all add: getInstanceTotalSpent_def moved_db_simps is_payment_def)
  then show ?thesis
    using reassign_moves_all [of 5 6 moved_db "fst (reassignInstanceBillingRecords 5 6 moved_db)" "snd (reassignInstanceBillingRecords 5 6 moved_db)"]
    by simp
qed

end
