(* ===== verification/Strings.thy ===== *)
theory Strings
  imports Prelude
begin

text \<open>
  The string functions of the language that the source calls, on ASCII text (lists of characters):
  \<open>trim\<close>, \<open>toUpperCase\<close>, \<open>toLowerCase\<close>, \<open>split\<close> at one character, \<open>startsWith\<close> and \<open>endsWith\<close>
  of one character, \<open>lastIndexOf\<close> of one character.
\<close>

definition is_space :: "char \<Rightarrow> bool" where
  "is_space c \<longleftrightarrow> (let n = of_char c :: nat in n = 32 \<or> (9 \<le> n \<and> n \<le> 13) \<or> n = 160)"

definition trim :: "string \<Rightarrow> string" where
  "trim s = rev (dropWhile is_space (rev (dropWhile is_space s)))"

definition upper_char :: "char \<Rightarrow> char" where
  "upper_char c = (let n = of_char c :: nat in if 97 \<le> n \<and> n \<le> 122 then char_of (n - 32) else c)"

definition lower_char :: "char \<Rightarrow> char" where
  "lower_char c = (let n = of_char c :: nat in if 65 \<le> n \<and> n \<le> 90 then char_of (n + 32) else c)"

definition toUpperCase :: "string \<Rightarrow> string" where
  "toUpperCase s = map upper_char s"

definition toLowerCase :: "string \<Rightarrow> string" where
  "toLowerCase s = map lower_char s"

fun split_at :: "char \<Rightarrow> string \<Rightarrow> string list" where
  "split_at c [] = [[]]"
| "split_at c (x # xs) =
     (if x = c then [] # split_at c xs
      else case split_at c xs of p # ps \<Rightarrow> (x # p) # ps | [] \<Rightarrow> [[x]])"

definition starts_with :: "string \<Rightarrow> char \<Rightarrow> bool" where
  "starts_with s c \<longleftrightarrow> (case s of [] \<Rightarrow> False | x # _ \<Rightarrow> x = c)"

definition ends_with :: "string \<Rightarrow> char \<Rightarrow> bool" where
  "ends_with s c \<longleftrightarrow> starts_with (rev s) c"

text \<open>\<open>s.substring(s.lastIndexOf(c) + 1)\<close>, if the character occurs.\<close>

definition after_last :: "char \<Rightarrow> string \<Rightarrow> string option" where
  "after_last c s = (if c \<in> set s then Some (rev (takeWhile (\<lambda>x. x \<noteq> c) (rev s))) else None)"

lemma split_at_ne [simp]: "split_at c s \<noteq> []"
  by (induction s) (auto split: list.splits)

lemma hd_split_at: "hd (split_at c s) = takeWhile (\<lambda>x. x \<noteq> c) s"
  by (induction s) (auto split: list.splits)

lemma after_last_append: "c \<notin> set d \<Longrightarrow> after_last c (u @ c # d) = Some d"
  by (auto simp: after_last_def takeWhile_append)

lemma dropWhile_none: "\<forall>c\<in>set cs. \<not> is_space c \<Longrightarrow> dropWhile is_space cs = cs"
  by (cases cs) auto

lemma trim_none: "\<forall>c\<in>set cs. \<not> is_space c \<Longrightarrow> trim cs = cs"
  by (simp add: trim_def dropWhile_none)

lemma trim_ends: "trim s = [] \<or> (\<not> is_space (hd (trim s)) \<and> \<not> is_space (last (trim s)))"
proof (cases "trim s = []")
  case False
  let ?d = "dropWhile is_space s" and ?r = "dropWhile is_space (rev (dropWhile is_space s))"
  have r: "?r \<noteq> []" using False by (simp add: trim_def)
  then have "\<not> is_space (last (trim s))" using hd_dropWhile [of is_space "rev ?d"] by (simp add: trim_def last_rev)
  moreover have "\<not> is_space (hd (trim s))"
  proof -
    have d: "?d \<noteq> []" using r by (metis dropWhile.simps(1) rev.simps(1))
    have suf: "rev ?d = takeWhile is_space (rev ?d) @ ?r" by (rule takeWhile_dropWhile_id [symmetric])
    then have "last ?r = last (rev ?d)" using r by (metis last_appendR)
    also have "\<dots> = hd ?d" using d by (simp add: last_rev)
    finally have "hd (trim s) = hd ?d" using r by (simp add: trim_def hd_rev)
    then show ?thesis using hd_dropWhile [OF d] by simp
  qed
  ultimately show ?thesis by blast
qed simp

lemma trim_idem [simp]: "trim (trim s) = trim s"
proof (cases "trim s = []")
  case True
  have "trim [] = []" by (simp add: trim_def)
  with True show ?thesis by (simp only:)
next
  case False
  with trim_ends [of s] have "\<not> is_space (hd (trim s))" "\<not> is_space (last (trim s))" by auto
  moreover from this(1) have "dropWhile is_space (trim s) = trim s" using False by (cases "trim s") auto
  moreover have "dropWhile is_space (rev (trim s)) = rev (trim s)" if "\<not> is_space (last (trim s))"
    using that False by (cases "trim s" rule: rev_cases) auto
  ultimately show ?thesis by (subst (1) trim_def) simp
qed

lemma toLowerCase_idem [simp]: "toLowerCase (toLowerCase s) = toLowerCase s"
proof -
  have "lower_char (lower_char c) = lower_char c" for c
  proof -
    have "of_char c < (256 :: nat)" by simp
    then show ?thesis by (auto simp: lower_char_def Let_def)
  qed
  then show ?thesis by (simp add: toLowerCase_def)
qed

end
