(* ===== verification/Coupons.thy ===== *)
theory Coupons
  imports BillingCalc Strings "HOL-Library.Product_Lexorder"
begin

text \<open>
  Official coupons: \<open>server/src/lib/official-coupon-rules.ts\<close> (codes, scopes, how many months a
  coupon still discounts and by how much) and \<open>server/src/lib/billing-coupon-match.ts\<close> (which use
  of a coupon belongs to which billing record). Coupon codes are ASCII text; a number that may be
  \<open>NaN\<close> or infinite is a \<open>rat option\<close>; the random bytes of a generated code are an argument.
\<close>

section \<open>Codes\<close>

definition COUPON_CODE_ALPHABET :: string where
  "COUPON_CODE_ALPHABET = ''ABCDEFGHJKLMNPQRSTUVWXYZ23456789''"

definition COUPON_CODE_PREFIX :: string where
  "COUPON_CODE_PREFIX = ''PROMO-''"

definition COUPON_CODE_RANDOM_LENGTH :: nat where
  "COUPON_CODE_RANDOM_LENGTH = 8"

definition OFFICIAL_COUPON_CODE_MAX_LENGTH :: nat where
  "OFFICIAL_COUPON_CODE_MAX_LENGTH = 32"

definition normalizeOfficialCouponCode :: "string \<Rightarrow> string" where
  "normalizeOfficialCouponCode code = toUpperCase (trim code)"

fun random_part :: "nat list \<Rightarrow> string" where
  "random_part [] = []"
| "random_part (b # bs) = COUPON_CODE_ALPHABET ! (b mod length COUPON_CODE_ALPHABET) # random_part bs"

definition generateOfficialCouponCode :: "nat list \<Rightarrow> string" where
  "generateOfficialCouponCode bytes =
     COUPON_CODE_PREFIX @ random_part (take COUPON_CODE_RANDOM_LENGTH bytes)"

section \<open>Scopes and limits\<close>

datatype package_scope = Pkg_official | Pkg_hosted

definition isCouponScopeMatched :: "coupon_scope \<Rightarrow> package_scope \<Rightarrow> bool" where
  "isCouponScopeMatched scope packageScope =
     (if scope = Scope_all then True
      else if scope = Scope_official_only then packageScope = Pkg_official
      else packageScope = Pkg_hosted)"

definition resolveUserUsageLimit :: "bool \<Rightarrow> int option \<Rightarrow> int option" where
  "resolveUserUsageLimit reusable maxUsesPerUser = (if \<not> reusable then Some 1 else maxUsesPerUser)"

definition isValidDiscountRate :: "rat option \<Rightarrow> bool" where
  "isValidDiscountRate discountRate =
     (case discountRate of None \<Rightarrow> False | Some d \<Rightarrow> d > 0 \<and> d < 1)"

section \<open>Discounted months\<close>

text \<open>The limit is a database integer; \<open>None\<close> is \<open>null\<close>, in the argument and in the result.\<close>

definition getRemainingDiscountedMonths :: "renewal_mode \<Rightarrow> int option \<Rightarrow> int \<Rightarrow> int option" where
  "getRemainingDiscountedMonths renewalMode discountedChargeLimit discountedMonthsUsed =
     (case renewalMode of
        Mode_recurring \<Rightarrow> None
      | Mode_limited \<Rightarrow>
          (case discountedChargeLimit of
             None \<Rightarrow> Some 0
           | Some limit \<Rightarrow>
               if limit < 1 then Some 0
               else Some (max 0 (limit - max 0 discountedMonthsUsed)))
      | Mode_purchase_only \<Rightarrow> Some 0)"

definition getDiscountedMonthsForPurchase :: "renewal_mode \<Rightarrow> int option \<Rightarrow> int \<Rightarrow> int" where
  "getDiscountedMonthsForPurchase renewalMode discountedChargeLimit purchaseMonths =
     (if purchaseMonths < 1 then 0
      else if renewalMode = Mode_purchase_only then purchaseMonths
      else case getRemainingDiscountedMonths renewalMode discountedChargeLimit 0 of
             None \<Rightarrow> purchaseMonths
           | Some remaining \<Rightarrow> min purchaseMonths remaining)"

definition getDiscountedMonthsForRenewal :: "renewal_mode \<Rightarrow> int option \<Rightarrow> int \<Rightarrow> int \<Rightarrow> int" where
  "getDiscountedMonthsForRenewal renewalMode discountedChargeLimit discountedMonthsUsed requestedMonths =
     (if requestedMonths < 1 then 0
      else case getRemainingDiscountedMonths renewalMode discountedChargeLimit discountedMonthsUsed of
             None \<Rightarrow> requestedMonths
           | Some remaining \<Rightarrow> min requestedMonths remaining)"

definition calculateDiscountAmountForMonths :: "rat option \<Rightarrow> int \<Rightarrow> rat \<Rightarrow> rat option \<Rightarrow> rat" where
  "calculateDiscountAmountForMonths originalAmount requestedMonths discountedMonths discountRate =
     (case (originalAmount, discountRate) of
        (Some original, Some rate) \<Rightarrow>
          if original \<le> 0 then 0
          else if requestedMonths < 1 then 0
          else if rate \<le> 0 then 0
          else
            let effectiveMonths = max 0 (min requestedMonths \<lfloor>discountedMonths\<rfloor>) in
            if effectiveMonths = 0 then 0
            else
              let discountedBase = to_fixed 2 (original * of_int effectiveMonths / of_int requestedMonths) in
              to_fixed 2 (discountedBase * rate)
      | _ \<Rightarrow> 0)"

definition shouldDiscountRenewal :: "renewal_mode \<Rightarrow> int option \<Rightarrow> int option \<Rightarrow> int option \<Rightarrow> bool" where
  "shouldDiscountRenewal renewalMode discountedChargeLimit discountedMonthsUsed discountedChargeCount =
     (getDiscountedMonthsForRenewal renewalMode discountedChargeLimit
        (case discountedMonthsUsed of Some u \<Rightarrow> u | None \<Rightarrow>
           (case discountedChargeCount of Some c \<Rightarrow> c | None \<Rightarrow> 0)) 1 > 0)"

section \<open>Matching uses of coupons to billing records\<close>

record paid_record =
  pd_type :: string
  pd_amount :: rat
  pd_createdAt :: int

record coupon_usage =
  cg_type :: string
  cg_originalPrice :: rat
  cg_discountAmount :: rat
  cg_createdAt :: int

record candidate =
  cd_recordIndex :: nat
  cd_usageIndex :: nat
  cd_distance :: int

definition usage_type_of :: "string \<Rightarrow> string option" where
  "usage_type_of type =
     (if type = ''newPurchase'' then Some ''purchase''
      else if type = ''renew'' then Some ''renewal'' else None)"

definition fits :: "paid_record \<Rightarrow> coupon_usage \<Rightarrow> bool" where
  "fits r u \<longleftrightarrow>
     (case usage_type_of (pd_type r) of
        None \<Rightarrow> False
      | Some t \<Rightarrow> cg_type u = t \<and>
          js_round ((cg_originalPrice u - cg_discountAmount u) * 100) = js_round (pd_amount r * 100))"

definition candidates :: "paid_record list \<Rightarrow> coupon_usage list \<Rightarrow> candidate list" where
  "candidates records usages =
     concat (map (\<lambda>(i, r).
       concat (map (\<lambda>(j, u).
         if fits r u
         then [\<lparr>cd_recordIndex = i, cd_usageIndex = j, cd_distance = \<bar>pd_createdAt r - cg_createdAt u\<bar>\<rparr>]
         else []) (enumerate 0 usages))) (enumerate 0 records))"

definition rank :: "candidate \<Rightarrow> int \<times> nat \<times> nat" where
  "rank c = (cd_distance c, cd_recordIndex c, cd_usageIndex c)"

text \<open>The loop: \<open>matched\<close> in insertion order; the used uses are the second components.\<close>

fun assign :: "(nat \<times> nat) list \<Rightarrow> candidate list \<Rightarrow> (nat \<times> nat) list" where
  "assign matched [] = matched"
| "assign matched (c # cs) =
     (if cd_recordIndex c \<in> fst ` set matched \<or> cd_usageIndex c \<in> snd ` set matched
      then assign matched cs
      else assign (matched @ [(cd_recordIndex c, cd_usageIndex c)]) cs)"

definition matchCouponUsagesToBillingRecords ::
    "paid_record list \<Rightarrow> coupon_usage list \<Rightarrow> (nat \<times> nat) list" where
  "matchCouponUsagesToBillingRecords records usages = assign [] (sort_key rank (candidates records usages))"

section \<open>Lemmas on matching\<close>

lemma ex_enumerate: "(\<exists>(i, r) \<in> set (enumerate 0 rs). P i r) \<longleftrightarrow> (\<exists>i < length rs. P i (rs ! i))"
  by (force simp: in_set_enumerate_eq)

definition mk_candidate :: "nat \<Rightarrow> paid_record \<Rightarrow> nat \<Rightarrow> coupon_usage \<Rightarrow> candidate" where
  "mk_candidate i r j u =
     \<lparr>cd_recordIndex = i, cd_usageIndex = j, cd_distance = \<bar>pd_createdAt r - cg_createdAt u\<bar>\<rparr>"

lemma mk_candidate_simps [simp]:
  "cd_recordIndex (mk_candidate i r j u) = i" "cd_usageIndex (mk_candidate i r j u) = j"
  "cd_distance (mk_candidate i r j u) = \<bar>pd_createdAt r - cg_createdAt u\<bar>"
  by (simp_all add: mk_candidate_def)

lemma candidates_iff:
  "c \<in> set (candidates rs us) \<longleftrightarrow>
     (\<exists>i < length rs. \<exists>j < length us. fits (rs ! i) (us ! j) \<and> c = mk_candidate i (rs ! i) j (us ! j))"
proof -
  have "c \<in> set (candidates rs us) \<longleftrightarrow>
    (\<exists>(i, r) \<in> set (enumerate 0 rs). \<exists>(j, u) \<in> set (enumerate 0 us). fits r u \<and> c = mk_candidate i r j u)"
    unfolding candidates_def mk_candidate_def case_prod_beta by (auto split: if_splits)
  then show ?thesis by (simp only: ex_enumerate)
qed

lemma assign_prefix: "set m \<subseteq> set (assign m cs)"
  by (induction m cs rule: assign.induct) auto

lemma assign_sound:
  "p \<in> set (assign m cs) \<Longrightarrow> p \<in> set m \<or> (\<exists>c\<in>set cs. p = (cd_recordIndex c, cd_usageIndex c))"
  by (induction m cs rule: assign.induct) (auto split: if_splits)

lemma assign_distinct:
  "distinct (map fst m) \<Longrightarrow> distinct (map snd m) \<Longrightarrow>
   distinct (map fst (assign m cs)) \<and> distinct (map snd (assign m cs))"
  by (induction m cs rule: assign.induct) (auto simp: image_iff)

text \<open>A candidate left out lost its record or its use to one that came no later.\<close>

lemma assign_blocked:
  assumes "sorted (map rank cs)" and "c \<in> set cs"
    and "\<forall>q\<in>set m. \<exists>b. q = (cd_recordIndex b, cd_usageIndex b) \<and> b \<in> B \<and> (\<forall>d\<in>set cs. rank b \<le> rank d)"
  shows "\<exists>b \<in> B \<union> set cs. (cd_recordIndex b, cd_usageIndex b) \<in> set (assign m cs) \<and> rank b \<le> rank c
    \<and> (cd_recordIndex b = cd_recordIndex c \<or> cd_usageIndex b = cd_usageIndex c)"
  using assms
proof (induction m cs arbitrary: B rule: assign.induct)
  case (2 m d ds)
  show ?case
  proof (cases "cd_recordIndex d \<in> fst ` set m \<or> cd_usageIndex d \<in> snd ` set m")
    case True
    show ?thesis
    proof (cases "c = d")
      case True': True
      from True obtain q where "q \<in> set m" "fst q = cd_recordIndex d \<or> snd q = cd_usageIndex d" by force
      with "2.prems"(3) obtain b where "b \<in> B" "(cd_recordIndex b, cd_usageIndex b) \<in> set m"
        "rank b \<le> rank d" "cd_recordIndex b = cd_recordIndex d \<or> cd_usageIndex b = cd_usageIndex d"
        by fastforce
      with True True' show ?thesis using assign_prefix [of m ds] by auto
    next
      case False
      have "\<exists>b \<in> B \<union> set ds. (cd_recordIndex b, cd_usageIndex b) \<in> set (assign m ds) \<and> rank b \<le> rank c
        \<and> (cd_recordIndex b = cd_recordIndex c \<or> cd_usageIndex b = cd_usageIndex c)"
        using "2.prems" False by (intro "2.IH"(1) [OF True]) auto
      with True show ?thesis by auto
    qed
  next
    case False
    let ?m = "m @ [(cd_recordIndex d, cd_usageIndex d)]"
    show ?thesis
    proof (cases "c = d")
      case True
      have "(cd_recordIndex d, cd_usageIndex d) \<in> set (assign ?m ds)" using assign_prefix [of ?m ds] by auto
      with False True show ?thesis by auto
    next
      case False': False
      have "\<exists>b \<in> insert d B \<union> set ds. (cd_recordIndex b, cd_usageIndex b) \<in> set (assign ?m ds) \<and> rank b \<le> rank c
        \<and> (cd_recordIndex b = cd_recordIndex c \<or> cd_usageIndex b = cd_usageIndex c)"
        using "2.prems" False' by (intro "2.IH"(2) [OF False]) auto
      with False show ?thesis by auto
    qed
  qed
qed simp

section \<open>Properties\<close>

text \<open>The matching of coupon uses to billing records is sound, one-to-one and stable: matched pairs
  agree in kind and in the cents paid, no record and no use is matched twice, and when a use fits a
  record that was not given to it, the record or the use was matched to a partner at most as far away in
  time.\<close>

theorem coupon_matching_stable:
  "(\<forall>(i, j) \<in> set (matchCouponUsagesToBillingRecords rs us). i < length rs \<and> j < length us \<and> fits (rs ! i) (us ! j))
   \<and> distinct (map fst (matchCouponUsagesToBillingRecords rs us))
   \<and> distinct (map snd (matchCouponUsagesToBillingRecords rs us))
   \<and> (\<forall>i < length rs. \<forall>j < length us. fits (rs ! i) (us ! j) \<longrightarrow>
       (\<exists>(a, b) \<in> set (matchCouponUsagesToBillingRecords rs us). (a = i \<or> b = j)
          \<and> \<bar>pd_createdAt (rs ! a) - cg_createdAt (us ! b)\<bar> \<le> \<bar>pd_createdAt (rs ! i) - cg_createdAt (us ! j)\<bar>))"
proof -
  let ?cs = "sort_key rank (candidates rs us)" and ?m = "matchCouponUsagesToBillingRecords rs us"
  have m: "?m = assign [] ?cs" by (simp add: matchCouponUsagesToBillingRecords_def)
  have cs: "set ?cs = set (candidates rs us)" by simp
  have sound: "\<forall>(i, j) \<in> set ?m. i < length rs \<and> j < length us \<and> fits (rs ! i) (us ! j)"
  proof safe
    fix i j assume "(i, j) \<in> set ?m"
    then obtain c where "c \<in> set (candidates rs us)" and c: "i = cd_recordIndex c" "j = cd_usageIndex c"
      using assign_sound [of "(i, j)" "[]" ?cs] unfolding m cs by auto
    then show "i < length rs" "j < length us" "fits (rs ! i) (us ! j)"
      unfolding candidates_iff by auto
  qed
  have stable: "\<exists>(a, b) \<in> set ?m. (a = i \<or> b = j)
      \<and> \<bar>pd_createdAt (rs ! a) - cg_createdAt (us ! b)\<bar> \<le> \<bar>pd_createdAt (rs ! i) - cg_createdAt (us ! j)\<bar>"
    if "i < length rs" "j < length us" "fits (rs ! i) (us ! j)" for i j
  proof -
    define c where "c = mk_candidate i (rs ! i) j (us ! j)"
    have "c \<in> set ?cs" unfolding cs candidates_iff c_def using that by blast
    then obtain b where b: "b \<in> set (candidates rs us)" and m: "(cd_recordIndex b, cd_usageIndex b) \<in> set ?m"
      and "rank b \<le> rank c" and ij: "cd_recordIndex b = i \<or> cd_usageIndex b = j"
      using assign_blocked [of ?cs c "[]" "{}"] unfolding m cs by (auto simp: c_def)
    then have "cd_distance b \<le> cd_distance c" by (auto simp: rank_def less_eq_prod_def)
    moreover obtain x y where "b = mk_candidate x (rs ! x) y (us ! y)" using b unfolding candidates_iff by blast
    ultimately show ?thesis using m ij by (intro bexI [OF _ m]) (simp add: c_def)
  qed
  have "distinct (map fst ?m)" "distinct (map snd ?m)"
    using assign_distinct [of "[]" ?cs] by (simp_all add: m)
  then show ?thesis using sound stable by (intro conjI allI impI) simp_all
qed

theorem coupon_matching_stable_witness:
  "\<exists>m. m = matchCouponUsagesToBillingRecords
       [\<lparr>pd_type = ''newPurchase'', pd_amount = 9, pd_createdAt = 100\<rparr>]
       [\<lparr>cg_type = ''purchase'', cg_originalPrice = 10, cg_discountAmount = 1, cg_createdAt = 99\<rparr>]
     \<and> fst ` set m = {0}"
proof -
  let ?r = "\<lparr>pd_type = ''newPurchase'', pd_amount = 9, pd_createdAt = 100\<rparr>"
  let ?u = "\<lparr>cg_type = ''purchase'', cg_originalPrice = 10, cg_discountAmount = 1, cg_createdAt = 99\<rparr>"
  have f: "fits ?r ?u" by code_simp
  note stable = coupon_matching_stable [of "[?r]" "[?u]"]
  define m where "m = matchCouponUsagesToBillingRecords [?r] [?u]"
  have "\<forall>(i, j) \<in> set m. i < length [?r] \<and> j < length [?u] \<and> fits ([?r] ! i) ([?u] ! j)"
    using stable unfolding m_def by (rule conjunct1)
  then have sound: "\<forall>q \<in> set m. fst q = 0" by fastforce
  have "\<forall>i < length [?r]. \<forall>j < length [?u]. fits ([?r] ! i) ([?u] ! j) \<longrightarrow> (\<exists>(a, b) \<in> set m. (a = i \<or> b = j)
    \<and> \<bar>pd_createdAt ([?r] ! a) - cg_createdAt ([?u] ! b)\<bar> \<le> \<bar>pd_createdAt ([?r] ! i) - cg_createdAt ([?u] ! j)\<bar>)"
    using stable unfolding m_def by (elim conjE)
  moreover have "fits ([?r] ! 0) ([?u] ! 0)" using f by (simp only: nth_Cons_0)
  ultimately have "\<exists>q \<in> set m. True" by auto
  then obtain q where "q \<in> set m" by (rule bexE)
  with sound have "fst ` set m = {0}" by force
  then show ?thesis unfolding m_def by (intro exI conjI) (rule refl)
qed

text \<open>The months discounted by a purchase and the renewals after it, each recorded as used.\<close>

fun renewals_discounted :: "renewal_mode \<Rightarrow> int option \<Rightarrow> int \<Rightarrow> int list \<Rightarrow> int" where
  "renewals_discounted mode limit used [] = used"
| "renewals_discounted mode limit used (months # rest) =
     renewals_discounted mode limit
       (used + getDiscountedMonthsForRenewal mode limit used months) rest"

definition term_discounted :: "renewal_mode \<Rightarrow> int option \<Rightarrow> int \<Rightarrow> int list \<Rightarrow> int" where
  "term_discounted mode limit purchaseMonths rest =
     renewals_discounted mode limit (getDiscountedMonthsForPurchase mode limit purchaseMonths) rest"

definition months_asked :: "int list \<Rightarrow> int" where
  "months_asked ms = sum_list (map (max 0) ms)"

lemma renewals_limited:
  "0 \<le> used \<Longrightarrow> used \<le> l \<Longrightarrow> 1 \<le> l \<Longrightarrow>
   renewals_discounted Mode_limited (Some l) used ms = min l (used + months_asked ms)"
proof (induction ms arbitrary: used)
  case (Cons m ms)
  let ?u = "used + getDiscountedMonthsForRenewal Mode_limited (Some l) used m"
  have u: "?u = min l (used + max 0 m)"
    using Cons.prems by (auto simp: getDiscountedMonthsForRenewal_def getRemainingDiscountedMonths_def)
  have "0 \<le> months_asked ms" by (auto simp: months_asked_def intro!: sum_list_nonneg)
  moreover have "renewals_discounted Mode_limited (Some l) ?u ms = min l (?u + months_asked ms)"
    using Cons.prems by (intro Cons.IH) (auto simp: u)
  ultimately show ?case by (auto simp: u months_asked_def min_def)
qed (simp add: months_asked_def)

lemma renewals_other:
  "renewals_discounted Mode_recurring l used ms = used + months_asked ms"
  "renewals_discounted Mode_purchase_only l used ms = used"
  by (induction ms arbitrary: used)
    (auto simp: getDiscountedMonthsForRenewal_def getRemainingDiscountedMonths_def months_asked_def)

text \<open>Over the life of an instance a coupon discounts as many months as its mode says: a limited
  coupon exactly the months asked for up to its limit, however the purchase and the renewals split
  them; a recurring one every month; a purchase-only one the months of the purchase.\<close>

theorem coupon_lifetime_months:
  assumes "1 \<le> l" "1 \<le> m"
  shows "term_discounted Mode_limited (Some l) m ms = min l (m + months_asked ms)
    \<and> term_discounted Mode_recurring limit m ms = m + months_asked ms
    \<and> term_discounted Mode_purchase_only limit m ms = m"
proof -
  have "getDiscountedMonthsForPurchase Mode_limited (Some l) m = min m l"
    and "getDiscountedMonthsForPurchase Mode_recurring limit m = m"
    and "getDiscountedMonthsForPurchase Mode_purchase_only limit m = m"
    using assms by (simp_all add: getDiscountedMonthsForPurchase_def getRemainingDiscountedMonths_def)
  moreover have "0 \<le> months_asked ms" by (auto simp: months_asked_def intro!: sum_list_nonneg)
  ultimately show ?thesis
    using assms renewals_limited [of "min m l" l ms] by (auto simp: term_discounted_def renewals_other)
qed

theorem coupon_lifetime_months_witness:
  "term_discounted Mode_limited (Some 3) 1 [1, 12] = 3 \<and> term_discounted Mode_recurring None 1 [1, 12] = 14"
  using coupon_lifetime_months [of 3 1 "[1, 12]" None] by (simp add: months_asked_def)

text \<open>The discount for part of a term is bounded: for a price in whole cents and a rate up to 1 it is
  between zero and the rounded share of the discounted months, which is at most the price; it is the
  plain discount when all months are discounted and zero when none are.\<close>

theorem partial_discount_bounded:
  assumes "0 < original" "has_scale 2 original" "1 \<le> requested" "0 < rate" "rate \<le> 1"
  shows "0 \<le> calculateDiscountAmountForMonths (Some original) requested months (Some rate)
    \<and> calculateDiscountAmountForMonths (Some original) requested months (Some rate) \<le> original
    \<and> (of_int requested \<le> months \<longrightarrow>
        calculateDiscountAmountForMonths (Some original) requested months (Some rate)
          = calculateDiscountAmount original rate)
    \<and> (months < 1 \<longrightarrow> calculateDiscountAmountForMonths (Some original) requested months (Some rate) = 0)"
proof -
  let ?e = "max 0 (min requested \<lfloor>months\<rfloor>)"
  let ?b = "to_fixed 2 (original * of_int ?e / of_int requested)"
  let ?d = "calculateDiscountAmountForMonths (Some original) requested months (Some rate)"
  have r: "(0::rat) < of_int requested" using assms(3) by simp
  have d: "?d = (if ?e = 0 then 0 else to_fixed 2 (?b * rate))"
    using assms unfolding calculateDiscountAmountForMonths_def Let_def by simp
  have "0 \<le> original * of_int ?e / of_int requested" using assms(1) r by simp
  then have b0: "0 \<le> ?b" by (rule to_fixed_nonneg)
  have "(of_int ?e :: rat) \<le> of_int requested" using assms(3) by simp
  then have "original * of_int ?e / of_int requested \<le> original"
    using assms(1) r by (simp add: pos_divide_le_eq del: of_int_max)
  then have b1: "?b \<le> original" using assms(2) by (rule to_fixed_le)
  have "?b * rate \<le> ?b" using b0 assms(5) mult_left_mono [of rate 1 ?b] by simp
  then have le: "to_fixed 2 (?b * rate) \<le> original" using b1 to_fixed_le [of "?b * rate" ?b 2] by simp
  have ge: "0 \<le> to_fixed 2 (?b * rate)" using b0 assms(4) by (simp add: to_fixed_nonneg)
  have "?d = calculateDiscountAmount original rate" if "of_int requested \<le> months"
  proof -
    have "requested \<le> \<lfloor>months\<rfloor>" using that by (simp add: le_floor_iff)
    then have e: "?e = requested" using assms(3) by simp
    have "?b = original" unfolding e using r assms(2) by (simp add: to_fixed_id)
    then show ?thesis using e assms(3) unfolding d by (simp add: calculateDiscountAmount_def)
  qed
  moreover have "?d = 0" if "months < 1"
  proof -
    have "\<lfloor>months\<rfloor> \<le> 0" using that by linarith
    then have "?e = 0" by arith
    then show ?thesis by (simp add: d)
  qed
  ultimately show ?thesis using le ge assms(1) by (auto simp: d)
qed

theorem partial_discount_bounded_witness:
  "calculateDiscountAmountForMonths (Some 120) 12 3 (Some (9 / 10)) \<le> 120
     \<and> calculateDiscountAmountForMonths (Some 120) 12 3 (Some (9 / 10)) = 27"
proof
  show "calculateDiscountAmountForMonths (Some 120) 12 3 (Some (9 / 10)) \<le> 120"
    using partial_discount_bounded [of 120 12 "9 / 10" 3] has_scale_of_int [of 2 120] by simp
  show "calculateDiscountAmountForMonths (Some 120) 12 3 (Some (9 / 10)) = 27"
    by code_simp
qed

text \<open>A generated coupon code is already in normal form and fits the field: the prefix and eight
  characters of the alphabet, unchanged by normalisation, within the maximum length.\<close>

theorem generated_code_normal:
  assumes "length bytes = COUPON_CODE_RANDOM_LENGTH"
  shows "normalizeOfficialCouponCode (generateOfficialCouponCode bytes) = generateOfficialCouponCode bytes
    \<and> length (generateOfficialCouponCode bytes) = 14
    \<and> length (generateOfficialCouponCode bytes) \<le> OFFICIAL_COUPON_CODE_MAX_LENGTH"
proof -
  have alphabet: "\<forall>c\<in>set COUPON_CODE_ALPHABET. upper_char c = c \<and> \<not> is_space c" by code_simp
  have prefix: "\<forall>c\<in>set COUPON_CODE_PREFIX. upper_char c = c \<and> \<not> is_space c" by code_simp
  have mem: "COUPON_CODE_ALPHABET ! (b mod length COUPON_CODE_ALPHABET) \<in> set COUPON_CODE_ALPHABET" for b
    by (rule nth_mem) (simp add: COUPON_CODE_ALPHABET_def)
  have part: "set (random_part bs) \<subseteq> set COUPON_CODE_ALPHABET \<and> length (random_part bs) = length bs" for bs
    using mem by (induction bs) auto
  have all: "\<forall>c\<in>set (generateOfficialCouponCode bytes). upper_char c = c \<and> \<not> is_space c"
    using alphabet prefix part by (auto simp: generateOfficialCouponCode_def)
  have "trim (generateOfficialCouponCode bytes) = generateOfficialCouponCode bytes"
    using all by (simp add: trim_none)
  moreover have "map upper_char cs = cs" if "\<forall>c\<in>set cs. upper_char c = c" for cs
    using that by (simp add: map_idI)
  ultimately show ?thesis
    using all part [of "take COUPON_CODE_RANDOM_LENGTH bytes"] assms
    by (simp add: normalizeOfficialCouponCode_def toUpperCase_def generateOfficialCouponCode_def
        COUPON_CODE_PREFIX_def COUPON_CODE_RANDOM_LENGTH_def OFFICIAL_COUPON_CODE_MAX_LENGTH_def)
qed

theorem generated_code_normal_witness:
  "normalizeOfficialCouponCode (generateOfficialCouponCode [0, 31, 32, 255, 7, 8, 9, 10])
     = generateOfficialCouponCode [0, 31, 32, 255, 7, 8, 9, 10]"
  using generated_code_normal [of "[0, 31, 32, 255, 7, 8, 9, 10]"] by (simp add: COUPON_CODE_RANDOM_LENGTH_def)

end
