(* ===== verification/RefundValue.thy ===== *)
theory RefundValue
  imports BillingRecords Coupons
begin

text \<open>
  What an instance can still refund: the first part of \<open>server/src/db/billing-operations.ts\<close> (the
  value of the paid periods after the refunds made, the largest refund, the share of a refund that
  the owner of the host gives back, the quote for an instance). When rows were last changed is an
  argument of the lineage, the time is an argument.
\<close>

section \<open>What is left of the payments\<close>

definition lineageRecords :: "(int \<Rightarrow> int) \<Rightarrow> int \<Rightarrow> db \<Rightarrow> billing_record list" where
  "lineageRecords updatedAt instanceId s =
     filter (\<lambda>r. br_instanceId r \<in> set (getInstanceBillingLineageIds updatedAt instanceId s)) (billing_records s)"

definition paidRecords :: "billing_record list \<Rightarrow> billing_record list" where
  "paidRecords rs = filter (\<lambda>r. is_payment r \<and> br_amount r > 0) rs"

definition consumedAmount :: "billing_record list \<Rightarrow> rat" where
  "consumedAmount rs = (\<Sum>r\<leftarrow>paidRecords rs. br_amount r)"

definition refundedAmount :: "billing_record list \<Rightarrow> rat" where
  "refundedAmount rs = (\<Sum>r\<leftarrow>filter (\<lambda>r. br_type r = BT_refund) rs. \<bar>br_amount r\<bar>)"

definition roundCurrency :: "rat \<Rightarrow> rat" where
  "roundCurrency value = to_fixed 2 value"

definition getMaxRefundable :: "(int \<Rightarrow> int) \<Rightarrow> int \<Rightarrow> db \<Rightarrow> rat \<times> rat" where
  "getMaxRefundable updatedAt instanceId s =
     (let rs = lineageRecords updatedAt instanceId s;
          lastPayment = latest br_createdAt
            (filter (\<lambda>r. (br_type r = BT_newPurchase \<or> br_type r = BT_renew) \<and> br_amount r > 0) rs) in
      (roundCurrency (max 0 (consumedAmount rs - refundedAmount rs)),
       (case lastPayment of None \<Rightarrow> 0 | Some r \<Rightarrow> br_amount r)))"

definition getMaxRefundableInTransaction :: "(int \<Rightarrow> int) \<Rightarrow> int \<Rightarrow> db \<Rightarrow> rat" where
  "getMaxRefundableInTransaction updatedAt instanceId s = fst (getMaxRefundable updatedAt instanceId s)"

section \<open>The value of the paid periods\<close>

definition record_type_text :: "billing_type \<Rightarrow> string" where
  "record_type_text t =
     (case t of BT_newPurchase \<Rightarrow> ''newPurchase'' | BT_renew \<Rightarrow> ''renew'' | BT_upgrade \<Rightarrow> ''upgrade''
      | BT_downgrade \<Rightarrow> ''downgrade'' | BT_refund \<Rightarrow> ''refund'' | BT_transfer_fee \<Rightarrow> ''transfer_fee'')"

definition usage_type_text :: "usage_type \<Rightarrow> string" where
  "usage_type_text t = (case t of UT_purchase \<Rightarrow> ''purchase'' | UT_renewal \<Rightarrow> ''renewal'')"

definition billingRecordsOf :: "billing_record list \<Rightarrow> billing_record list" where
  "billingRecordsOf rs = sort_key (\<lambda>r. (br_periodStart r, br_createdAt r)) (paidRecords rs)"

definition couponUsagesOf :: "int list \<Rightarrow> db \<Rightarrow> official_usage list" where
  "couponUsagesOf instanceIds s = sort_key (\<lambda>u. (ou_createdAt u, ou_id u))
     (filter (\<lambda>u. case ou_instanceId u of None \<Rightarrow> False | Some i \<Rightarrow> i \<in> set instanceIds) (official_usages s))"

definition usageMatches :: "billing_record list \<Rightarrow> official_usage list \<Rightarrow> (nat \<times> nat) list" where
  "usageMatches billingRecords couponUsages = matchCouponUsagesToBillingRecords
     (map (\<lambda>r. \<lparr>pd_type = record_type_text (br_type r), pd_amount = br_amount r, pd_createdAt = br_createdAt r\<rparr>) billingRecords)
     (map (\<lambda>u. \<lparr>cg_type = usage_type_text (ou_type u), cg_originalPrice = ou_originalPrice u,
        cg_discountAmount = ou_discountAmount u, cg_createdAt = ou_createdAt u\<rparr>) couponUsages)"

record value_row =
  vr_userAmount :: rat
  vr_hostedAmount :: rat
  vr_netUserAmount :: rat
  vr_netHostedAmount :: rat
  vr_periodStart :: int
  vr_periodEnd :: int

definition value_of :: "(nat \<times> nat) list \<Rightarrow> official_usage list \<Rightarrow> nat \<Rightarrow> billing_record \<Rightarrow> value_row" where
  "value_of matches couponUsages recordIndex r =
     (let userAmount = max 0 (br_amount r);
          originalPrice = (case map_of matches recordIndex of
             None \<Rightarrow> userAmount | Some usageIndex \<Rightarrow> ou_originalPrice (couponUsages ! usageIndex));
          hostedAmount = (if originalPrice > 0 then originalPrice else userAmount) in
      \<lparr>vr_userAmount = userAmount, vr_hostedAmount = hostedAmount, vr_netUserAmount = userAmount,
       vr_netHostedAmount = hostedAmount, vr_periodStart = br_periodStart r, vr_periodEnd = br_periodEnd r\<rparr>)"

text \<open>The refunds made are taken from the periods in their order; the hosted value shrinks in the ratio
  of the user's.\<close>

fun net_values :: "rat \<Rightarrow> value_row list \<Rightarrow> value_row list" where
  "net_values remainingRefund [] = []"
| "net_values remainingRefund (v # vs) =
     (if remainingRefund \<le> 0 then v # vs
      else
        let refundedUserAmount = min (vr_netUserAmount v) remainingRefund;
            netUserAmount = max 0 (vr_netUserAmount v - refundedUserAmount);
            netHostedAmount = (if vr_userAmount v > 0 then vr_hostedAmount v * (netUserAmount / vr_userAmount v) else 0) in
        v\<lparr>vr_netUserAmount := netUserAmount, vr_netHostedAmount := netHostedAmount\<rparr>
          # net_values (remainingRefund - refundedUserAmount) vs)"

definition remaining_ratio :: "int \<Rightarrow> value_row \<Rightarrow> rat" where
  "remaining_ratio now v =
     (let totalMs = vr_periodEnd v - vr_periodStart v in
      if totalMs \<le> 0 \<or> vr_periodEnd v \<le> now then 0
      else min (of_int (max (vr_periodEnd v - now) 0) / of_int totalMs) 1)"

record value_breakdown =
  vb_hasPositiveBillingRecords :: bool
  vb_totalUserValue :: rat
  vb_totalHostedValue :: rat
  vb_remainingUserValue :: rat
  vb_remainingHostedValue :: rat

definition breakdown_values :: "(int \<Rightarrow> int) \<Rightarrow> int \<Rightarrow> db \<Rightarrow> value_row list" where
  "breakdown_values updatedAt instanceId s =
     (let instanceIds = getInstanceBillingLineageIds updatedAt instanceId s;
          rs = lineageRecords updatedAt instanceId s;
          billingRecords = billingRecordsOf rs;
          couponUsages = couponUsagesOf instanceIds s;
          matches = usageMatches billingRecords couponUsages;
          refunds = (\<Sum>r\<leftarrow>filter (\<lambda>r. br_type r = BT_refund \<and> br_amount r < 0) rs. \<bar>br_amount r\<bar>) in
      net_values refunds (map (\<lambda>(i, r). value_of matches couponUsages i r) (enumerate 0 billingRecords)))"

definition getBillingValueBreakdown :: "(int \<Rightarrow> int) \<Rightarrow> int \<Rightarrow> int \<Rightarrow> db \<Rightarrow> value_breakdown" where
  "getBillingValueBreakdown updatedAt now instanceId s =
     (let values = breakdown_values updatedAt instanceId s in
      \<lparr>vb_hasPositiveBillingRecords = (values \<noteq> []),
       vb_totalUserValue = roundCurrency (\<Sum>v\<leftarrow>values. vr_netUserAmount v),
       vb_totalHostedValue = roundCurrency (\<Sum>v\<leftarrow>values. vr_netHostedAmount v),
       vb_remainingUserValue = roundCurrency (\<Sum>v\<leftarrow>values. vr_netUserAmount v * remaining_ratio now v),
       vb_remainingHostedValue = roundCurrency (\<Sum>v\<leftarrow>values. vr_netHostedAmount v * remaining_ratio now v)\<rparr>)"

section \<open>The host owner's share of a refund\<close>

definition hosted_share :: "value_breakdown \<Rightarrow> bool \<Rightarrow> rat \<Rightarrow> rat" where
  "hosted_share b allowHistorical requestedAmount =
     (let useHistoricalValue = allowHistorical
            \<and> (vb_remainingUserValue b \<le> 0 \<or> requestedAmount > vb_remainingUserValue b);
          baseUserValue = (if useHistoricalValue then vb_totalUserValue b else vb_remainingUserValue b);
          baseHostedValue = (if useHistoricalValue then vb_totalHostedValue b else vb_remainingHostedValue b) in
      if baseUserValue \<le> 0 \<or> baseHostedValue \<le> 0 then 0
      else
        let refundRatio = min (max (requestedAmount / baseUserValue) 0) 1 in
        roundCurrency (baseHostedValue * refundRatio))"

definition calculateHostedRefundAmount :: "(int \<Rightarrow> int) \<Rightarrow> int \<Rightarrow> int \<Rightarrow> rat \<Rightarrow> bool \<Rightarrow> db \<Rightarrow> rat" where
  "calculateHostedRefundAmount updatedAt now instanceId requestedUserRefund allowHistorical s =
     (if requestedUserRefund \<le> 0 then 0
      else
        let b = getBillingValueBreakdown updatedAt now instanceId s in
        if \<not> vb_hasPositiveBillingRecords b then roundCurrency requestedUserRefund
        else hosted_share b allowHistorical requestedUserRefund)"

section \<open>The quote\<close>

record refund_quote =
  rq_remainingDays :: int
  rq_remainingValue :: rat
  rq_refundableValue :: rat
  rq_maxRefundable :: rat
  rq_isPaid :: bool

text \<open>The discount rate of the code the instance is bound to, when the code is enabled.\<close>

definition bound_discount :: "int \<Rightarrow> db \<Rightarrow> rat" where
  "bound_discount instanceId s =
     (case find_key ab_instanceId instanceId (aff_bindings s) of
        None \<Rightarrow> 0
      | Some b \<Rightarrow> (case find_key ac_id (ab_affCodeId b) (aff_codes s) of
            None \<Rightarrow> 0 | Some c \<Rightarrow> if ac_enabled c then ac_discountRate c else 0))"

definition calculateInstanceRemainingRefundQuote :: "(int \<Rightarrow> int) \<Rightarrow> int \<Rightarrow> instance_row \<Rightarrow> db \<Rightarrow> refund_quote" where
  "calculateInstanceRemainingRefundQuote updatedAt now i s =
     (case (i_packagePlanId i, i_expiresAt i, i_billingPrice i) of
        (Some plan, Some expiresAt, Some price) \<Rightarrow>
          if plan = 0 then \<lparr>rq_remainingDays = 0, rq_remainingValue = 0, rq_refundableValue = 0, rq_maxRefundable = 0, rq_isPaid = False\<rparr>
          else if expiresAt \<le> now
          then \<lparr>rq_remainingDays = 0, rq_remainingValue = 0, rq_refundableValue = 0, rq_maxRefundable = 0, rq_isPaid = True\<rparr>
          else
            let remainingDays = calculateRemainingDays expiresAt now;
                maxRefundable = fst (getMaxRefundable updatedAt (i_id i) s);
                b = getBillingValueBreakdown updatedAt now (i_id i) s;
                remainingValue =
                  (case i_billingCycle i of
                     Some cycle \<Rightarrow>
                       if \<not> vb_hasPositiveBillingRecords b \<and> cycle \<noteq> 0
                       then calculateRemainingValue price cycle (of_int remainingDays) (bound_discount (i_id i) s)
                       else vb_remainingUserValue b
                   | None \<Rightarrow> vb_remainingUserValue b) in
            \<lparr>rq_remainingDays = remainingDays, rq_remainingValue = remainingValue,
             rq_refundableValue = roundCurrency (min remainingValue maxRefundable),
             rq_maxRefundable = maxRefundable, rq_isPaid = True\<rparr>
      | _ \<Rightarrow> \<lparr>rq_remainingDays = 0, rq_remainingValue = 0, rq_refundableValue = 0, rq_maxRefundable = 0, rq_isPaid = False\<rparr>)"

record refund_result =
  rf_remainingDays :: int
  rf_remainingValue :: rat
  rf_refundableValue :: rat
  rf_refundAmount :: rat
  rf_maxRefundable :: rat
  rf_discountRate :: rat
  rf_isPaid :: bool

definition calculateInstanceRefund :: "(int \<Rightarrow> int) \<Rightarrow> int \<Rightarrow> instance_row \<Rightarrow> db \<Rightarrow> refund_result" where
  "calculateInstanceRefund updatedAt now i s =
     (let quote = calculateInstanceRemainingRefundQuote updatedAt now i s in
      \<lparr>rf_remainingDays = rq_remainingDays quote, rf_remainingValue = rq_remainingValue quote,
       rf_refundableValue = rq_refundableValue quote, rf_refundAmount = rq_refundableValue quote,
       rf_maxRefundable = rq_maxRefundable quote, rf_discountRate = 0, rf_isPaid = rq_isPaid quote\<rparr>)"

section \<open>Lemmas\<close>

lemma sum_sort_key [simp]:
  fixes f :: "'r \<Rightarrow> 'v::comm_monoid_add"
  shows "(\<Sum>r\<leftarrow>sort_key g rs. f r) = (\<Sum>r\<leftarrow>rs. f r)"
proof -
  have "mset (map f (sort_key g rs)) = mset (map f rs)" by simp
  then show ?thesis by (metis sum_mset_sum_list)
qed

lemma sum_enumerate: "(\<Sum>(i, r)\<leftarrow>enumerate n rs. f r) = (\<Sum>r\<leftarrow>rs. f r)"
  by (induction rs arbitrary: n) auto

lemma roundCurrency_id: "has_scale 2 x \<Longrightarrow> roundCurrency x = x"
  by (simp add: roundCurrency_def to_fixed_id)

lemma roundCurrency_mono: "x \<le> y \<Longrightarrow> roundCurrency x \<le> roundCurrency y"
  by (simp add: roundCurrency_def to_fixed_mono)

lemma roundCurrency_nonneg: "0 \<le> x \<Longrightarrow> 0 \<le> roundCurrency x"
  by (simp add: roundCurrency_def to_fixed_nonneg)

lemma has_scale_roundCurrency [simp, intro]: "has_scale 2 (roundCurrency x)" "has_scale 8 (roundCurrency x)"
  by (auto simp: roundCurrency_def intro: has_scale_28)

lemma roundCurrency_min: "has_scale 2 m \<Longrightarrow> roundCurrency (min x m) = min (roundCurrency x) m"
  using roundCurrency_mono [of x m] roundCurrency_mono [of m x] by (auto simp: min_def roundCurrency_id)

text \<open>A row of the values: the net amounts are the same share of the amounts.\<close>

definition value_wf :: "value_row \<Rightarrow> bool" where
  "value_wf v \<longleftrightarrow> 0 \<le> vr_netUserAmount v \<and> vr_netUserAmount v \<le> vr_userAmount v \<and> 0 \<le> vr_netHostedAmount v
     \<and> vr_netHostedAmount v \<le> vr_hostedAmount v
     \<and> vr_netHostedAmount v * vr_userAmount v = vr_hostedAmount v * vr_netUserAmount v"

definition value_fresh :: "value_row \<Rightarrow> bool" where
  "value_fresh v \<longleftrightarrow> 0 < vr_userAmount v \<and> 0 \<le> vr_hostedAmount v
     \<and> vr_netUserAmount v = vr_userAmount v \<and> vr_netHostedAmount v = vr_hostedAmount v"

lemma fresh_wf: "value_fresh v \<Longrightarrow> value_wf v"
  by (simp add: value_fresh_def value_wf_def)

lemma share_le: "0 \<le> h \<Longrightarrow> 0 \<le> n \<Longrightarrow> n \<le> u \<Longrightarrow> 0 < (u::rat) \<Longrightarrow> 0 \<le> h * (n / u) \<and> h * (n / u) \<le> h"
  by (simp add: divide_le_eq mult_left_mono)

lemma net_values_wf:
  "\<forall>v\<in>set vs. value_fresh v \<Longrightarrow> \<forall>v\<in>set (net_values R vs). value_wf v"
proof (induction R vs rule: net_values.induct)
  case (2 R v vs)
  show ?case
  proof (cases "R \<le> 0")
    case True
    then show ?thesis using 2 by (auto simp: fresh_wf)
  next
    case False
    from 2 have v: "value_fresh v" by simp
    define n where "n = max 0 (vr_netUserAmount v - min (vr_netUserAmount v) R)"
    have n: "0 \<le> n" "n \<le> vr_userAmount v" using v False by (auto simp: n_def value_fresh_def)
    then have "value_wf (v\<lparr>vr_netUserAmount := n, vr_netHostedAmount := vr_hostedAmount v * (n / vr_userAmount v)\<rparr>)"
      using v share_le [of "vr_hostedAmount v" n "vr_userAmount v"] by (simp add: value_wf_def value_fresh_def)
    then show ?thesis using 2 False v by (simp add: Let_def value_fresh_def n_def)
  qed
qed simp

lemma net_values_sum:
  "\<forall>v\<in>set vs. value_fresh v \<Longrightarrow> 0 \<le> R \<Longrightarrow>
     (\<Sum>v\<leftarrow>net_values R vs. vr_netUserAmount v) = max 0 ((\<Sum>v\<leftarrow>vs. vr_netUserAmount v) - R)"
proof (induction R vs rule: net_values.induct)
  case (2 R v vs)
  have nn: "0 \<le> (\<Sum>v\<leftarrow>vs. vr_netUserAmount v)"
    using 2(2) by (intro sum_list_nonneg) (auto simp: value_fresh_def)
  have v: "0 < vr_netUserAmount v" using 2(2) by (simp add: value_fresh_def)
  show ?case
  proof (cases "R \<le> 0")
    case True
    then show ?thesis using nn v 2(3) by simp
  next
    case False
    have "0 \<le> R - min (vr_netUserAmount v) R" by simp
    then show ?thesis using 2(1) [OF False refl refl refl] 2(2) False v nn by (auto simp: Let_def min_def max_def)
  qed
qed simp

lemma net_values_Nil [simp]: "net_values R vs = [] \<longleftrightarrow> vs = []"
  by (cases vs) (auto simp: Let_def)

lemma value_of_fresh: "br_amount r > 0 \<Longrightarrow> value_fresh (value_of m us i r)"
  by (auto simp: value_of_def value_fresh_def Let_def split: option.splits)

lemma set_billingRecordsOf: "r \<in> set (billingRecordsOf rs) \<longleftrightarrow> r \<in> set rs \<and> is_payment r \<and> br_amount r > 0"
  by (auto simp: billingRecordsOf_def paidRecords_def)

lemma enumerate_mem: "(i, r) \<in> set (enumerate n xs) \<Longrightarrow> r \<in> set xs"
  by (metis enumerate_eq_zip set_zip_rightD)

lemma fresh_rows:
  "\<forall>v\<in>set (map (\<lambda>(i, r). value_of m us i r) (enumerate 0 (billingRecordsOf rs))). value_fresh v"
  by (auto simp: set_billingRecordsOf intro!: value_of_fresh dest!: enumerate_mem)

lemma fresh_sum:
  "(\<Sum>v\<leftarrow>map (\<lambda>(i, r). value_of m us i r) (enumerate 0 (billingRecordsOf rs)). vr_netUserAmount v) = consumedAmount rs"
proof -
  have "(\<Sum>v\<leftarrow>map (\<lambda>(i, r). value_of m us i r) xs. vr_netUserAmount v) = (\<Sum>(i, r)\<leftarrow>xs. br_amount r)"
    if "\<forall>(i, r)\<in>set xs. br_amount r > 0" for xs
    using that by (induction xs) (auto simp: value_of_def Let_def)
  moreover have "\<forall>(i, r)\<in>set (enumerate 0 (billingRecordsOf rs)). br_amount r > 0"
    by (auto simp: set_billingRecordsOf dest!: enumerate_mem)
  ultimately show ?thesis by (simp add: sum_enumerate billingRecordsOf_def consumedAmount_def)
qed

lemma breakdown_wf: "\<forall>v\<in>set (breakdown_values updatedAt i s). value_wf v"
  unfolding breakdown_values_def Let_def by (intro net_values_wf fresh_rows)

lemma refunds_sum:
  "\<forall>r\<in>set rs. br_type r = BT_refund \<longrightarrow> br_amount r \<le> 0 \<Longrightarrow>
     (\<Sum>r\<leftarrow>filter (\<lambda>r. br_type r = BT_refund \<and> br_amount r < 0) rs. \<bar>br_amount r\<bar>) = refundedAmount rs"
  unfolding refundedAmount_def by (induction rs) auto

lemma breakdown_total:
  assumes "\<forall>r\<in>set (billing_records s). br_type r = BT_refund \<longrightarrow> br_amount r \<le> 0"
  shows "(\<Sum>v\<leftarrow>breakdown_values updatedAt i s. vr_netUserAmount v) =
    max 0 (consumedAmount (lineageRecords updatedAt i s) - refundedAmount (lineageRecords updatedAt i s))"
proof -
  define rs where "rs = lineageRecords updatedAt i s"
  have "0 \<le> refundedAmount rs" unfolding refundedAmount_def by (intro sum_list_nonneg) auto
  moreover have "(\<Sum>r\<leftarrow>filter (\<lambda>r. br_type r = BT_refund \<and> br_amount r < 0) rs. \<bar>br_amount r\<bar>) = refundedAmount rs"
    using assms by (intro refunds_sum) (auto simp: rs_def lineageRecords_def)
  ultimately show ?thesis
    unfolding breakdown_values_def Let_def rs_def [symmetric]
    using net_values_sum [OF fresh_rows, of "refundedAmount rs", unfolded fresh_sum] by simp
qed

lemma remaining_ratio_bounds: "0 \<le> remaining_ratio now v" "remaining_ratio now v \<le> 1"
  by (auto simp: remaining_ratio_def Let_def)

lemma ratio_sum_le:
  assumes "\<forall>v\<in>set vs. 0 \<le> f v"
  shows "(\<Sum>v\<leftarrow>vs. f v * remaining_ratio now v) \<le> (\<Sum>v\<leftarrow>vs. f v)" and "0 \<le> (\<Sum>v\<leftarrow>vs. f v * remaining_ratio now v)"
proof -
  have "f v * remaining_ratio now v \<le> f v * 1" if "v \<in> set vs" for v
    using assms that remaining_ratio_bounds by (intro mult_left_mono) auto
  then show "(\<Sum>v\<leftarrow>vs. f v * remaining_ratio now v) \<le> (\<Sum>v\<leftarrow>vs. f v)" by (intro sum_list_mono) simp
  show "0 \<le> (\<Sum>v\<leftarrow>vs. f v * remaining_ratio now v)"
    using assms remaining_ratio_bounds by (intro sum_list_nonneg) auto
qed

lemma breakdown_bounds:
  fixes updatedAt :: "int \<Rightarrow> int" and now i :: int and s :: db
  defines "b \<equiv> getBillingValueBreakdown updatedAt now i s"
  shows "0 \<le> vb_remainingUserValue b" "vb_remainingUserValue b \<le> vb_totalUserValue b"
    "0 \<le> vb_remainingHostedValue b" "vb_remainingHostedValue b \<le> vb_totalHostedValue b"
  using breakdown_wf [of updatedAt i s]
  by (auto simp: b_def getBillingValueBreakdown_def Let_def value_wf_def intro!: roundCurrency_mono roundCurrency_nonneg ratio_sum_le)

lemma hosted_share_bounds:
  assumes "0 \<le> requested" "vb_remainingHostedValue b \<le> vb_totalHostedValue b" "has_scale 2 (vb_remainingHostedValue b)"
    "has_scale 2 (vb_totalHostedValue b)" "0 \<le> vb_totalHostedValue b"
  shows "0 \<le> hosted_share b h requested \<and> hosted_share b h requested \<le> vb_totalHostedValue b"
proof -
  have le: "roundCurrency (x * min (max q 0) 1) \<le> x \<and> 0 \<le> roundCurrency (x * min (max q 0) 1)"
    if "0 < x" "has_scale 2 x" for x q :: rat
  proof -
    have "x * min (max q 0) 1 \<le> x * 1" using that(1) by (intro mult_left_mono) auto
    then show ?thesis using that by (auto simp: roundCurrency_def intro: to_fixed_le to_fixed_nonneg)
  qed
  define past where "past = (h \<and> (vb_remainingUserValue b \<le> 0 \<or> requested > vb_remainingUserValue b))"
  define bu where "bu = (if past then vb_totalUserValue b else vb_remainingUserValue b)"
  define bh where "bh = (if past then vb_totalHostedValue b else vb_remainingHostedValue b)"
  have eq: "hosted_share b h requested = (if bu \<le> 0 \<or> bh \<le> 0 then 0 else roundCurrency (bh * min (max (requested / bu) 0) 1))"
    unfolding hosted_share_def Let_def past_def [symmetric] bu_def bh_def by (rule refl)
  have bh: "has_scale 2 bh" "bh \<le> vb_totalHostedValue b" using assms by (auto simp: bh_def)
  show ?thesis
  proof (cases "bu \<le> 0 \<or> bh \<le> 0")
    case True
    then show ?thesis using assms(5) by (simp only: eq if_True) simp
  next
    case False
    then show ?thesis using le [OF _ bh(1), of "requested / bu"] bh(2) by (simp only: eq if_False) linarith
  qed
qed

text \<open>A period paid with a coupon: the hosted value is the price before the coupon.\<close>

lemma matched_fits:
  assumes "map_of (matchCouponUsagesToBillingRecords rs us) i = Some j"
  shows "i < length rs \<and> j < length us \<and> fits (rs ! i) (us ! j)"
proof -
  have "(i, j) \<in> set (assign [] (sort_key rank (candidates rs us)))"
    using map_of_SomeD [OF assms] by (simp add: matchCouponUsagesToBillingRecords_def)
  from assign_sound [OF this] obtain c where "c \<in> set (candidates rs us)" "i = cd_recordIndex c" "j = cd_usageIndex c" by auto
  then show ?thesis by (auto simp: candidates_iff)
qed

lemma cents_eq:
  assumes "has_scale 2 x" "has_scale 2 y" "js_round (x * 100) = js_round (y * 100)"
  shows "x = y"
proof -
  from assms(1,2) obtain a b :: int where "x * 10 ^ 2 = of_int a" "y * 10 ^ 2 = of_int b" unfolding has_scale_def by blast
  then have xy: "x * 100 = of_int a" "y * 100 = of_int b" by simp_all
  with assms(3) have "a = b" by simp
  with xy show ?thesis by simp
qed

lemma matched_price:
  assumes "map_of (usageMatches rs us) i = Some j" and "has_scale 2 (br_amount (rs ! i))"
    and "\<forall>u\<in>set us. has_scale 2 (ou_originalPrice u) \<and> has_scale 2 (ou_discountAmount u)"
  shows "j < length us \<and> ou_originalPrice (us ! j) - ou_discountAmount (us ! j) = br_amount (rs ! i)"
proof -
  from matched_fits [OF assms(1) [unfolded usageMatches_def]] have i: "i < length rs" and j: "j < length us"
    and f: "js_round ((ou_originalPrice (us ! j) - ou_discountAmount (us ! j)) * 100) = js_round (br_amount (rs ! i) * 100)"
    by (auto simp: fits_def split: option.splits)
  have "has_scale 2 (ou_originalPrice (us ! j) - ou_discountAmount (us ! j))" using assms(3) j by auto
  from cents_eq [OF this assms(2) f] j show ?thesis by simp
qed

definition hosted_covers :: "value_row \<Rightarrow> bool" where
  "hosted_covers v \<longleftrightarrow> 0 < vr_userAmount v \<and> vr_userAmount v \<le> vr_hostedAmount v"

lemma net_values_covers: "\<forall>v\<in>set vs. hosted_covers v \<Longrightarrow> \<forall>v\<in>set (net_values R vs). hosted_covers v"
  by (induction R vs rule: net_values.induct) (auto simp: Let_def hosted_covers_def)

lemma covers_net: "value_wf v \<Longrightarrow> hosted_covers v \<Longrightarrow> vr_netUserAmount v \<le> vr_netHostedAmount v"
proof -
  assume v: "value_wf v" "hosted_covers v"
  then have "vr_netUserAmount v * vr_userAmount v \<le> vr_netUserAmount v * vr_hostedAmount v"
    by (intro mult_left_mono) (simp_all add: value_wf_def hosted_covers_def)
  also have "\<dots> = vr_hostedAmount v * vr_netUserAmount v" by (rule mult.commute)
  also have "\<dots> = vr_netHostedAmount v * vr_userAmount v" using v(1) by (simp add: value_wf_def)
  finally show ?thesis using v(2) by (simp add: hosted_covers_def mult_le_cancel_right)
qed

lemma breakdown_covers:
  assumes "\<forall>r\<in>set (billing_records s). has_scale 2 (br_amount r)"
    and "\<forall>u\<in>set (official_usages s). has_scale 2 (ou_originalPrice u) \<and> has_scale 2 (ou_discountAmount u) \<and> 0 \<le> ou_discountAmount u"
  shows "\<forall>v\<in>set (breakdown_values updatedAt k s). hosted_covers v"
proof -
  define rs where "rs = billingRecordsOf (lineageRecords updatedAt k s)"
  define us where "us = couponUsagesOf (getInstanceBillingLineageIds updatedAt k s) s"
  have rs: "br_amount r > 0 \<and> has_scale 2 (br_amount r)" if "r \<in> set rs" for r
    using that assms(1) by (auto simp: rs_def set_billingRecordsOf lineageRecords_def)
  have us: "\<forall>u\<in>set us. has_scale 2 (ou_originalPrice u) \<and> has_scale 2 (ou_discountAmount u)" "\<forall>u\<in>set us. 0 \<le> ou_discountAmount u"
    using assms(2) by (auto simp: us_def couponUsagesOf_def)
  have "hosted_covers (value_of (usageMatches rs us) us i (rs ! i))" if i: "i < length rs" for i
  proof (cases "map_of (usageMatches rs us) i")
    case None
    then show ?thesis using rs [OF nth_mem [OF i]] by (simp add: value_of_def hosted_covers_def Let_def)
  next
    case (Some j)
    from matched_price [OF Some _ us(1)] rs [OF nth_mem [OF i]]
    have "j < length us" "ou_originalPrice (us ! j) = br_amount (rs ! i) + ou_discountAmount (us ! j)" by auto
    then have "br_amount (rs ! i) \<le> ou_originalPrice (us ! j)" using us(2) by auto
    then show ?thesis using rs [OF nth_mem [OF i]] Some by (auto simp: value_of_def hosted_covers_def Let_def)
  qed
  then have "\<forall>v\<in>set (map (\<lambda>(i, r). value_of (usageMatches rs us) us i r) (enumerate 0 rs)). hosted_covers v"
    by (auto simp: in_set_enumerate_eq)
  then show ?thesis unfolding breakdown_values_def Let_def rs_def us_def by (rule net_values_covers)
qed

section \<open>Properties\<close>

text \<open>C23: The two computations of what may still be refunded agree: the refunds netted against the paid
  periods one by one leave in all exactly the largest refund, payments less refunds.\<close>

theorem netting_agrees:
  assumes "\<forall>r\<in>set (billing_records s). br_type r = BT_refund \<longrightarrow> br_amount r \<le> 0"
  shows "vb_totalUserValue (getBillingValueBreakdown updatedAt now instanceId s) = getMaxRefundableInTransaction updatedAt instanceId s"
  using breakdown_total [OF assms, of updatedAt instanceId]
  by (simp add: getBillingValueBreakdown_def getMaxRefundableInTransaction_def getMaxRefundable_def Let_def)

text \<open>C10: The quote of an instance with billing records is the value of its unused time; it never exceeds
  the payments less the refunds, so the cap the code applies to it never binds.\<close>

theorem quote_within_payments:
  assumes "\<forall>r\<in>set (billing_records s). br_type r = BT_refund \<longrightarrow> br_amount r \<le> 0"
    and "vb_hasPositiveBillingRecords (getBillingValueBreakdown updatedAt now (i_id i) s)"
    and "q = calculateInstanceRemainingRefundQuote updatedAt now i s" and "rq_isPaid q" and "rq_remainingDays q \<noteq> 0"
  shows "rq_refundableValue q = vb_remainingUserValue (getBillingValueBreakdown updatedAt now (i_id i) s)
    \<and> 0 \<le> rq_refundableValue q \<and> rq_refundableValue q \<le> rq_maxRefundable q
    \<and> rq_maxRefundable q = getMaxRefundableInTransaction updatedAt (i_id i) s"
proof -
  let ?b = "getBillingValueBreakdown updatedAt now (i_id i) s" and ?m = "getMaxRefundableInTransaction updatedAt (i_id i) s"
  have m: "vb_totalUserValue ?b = ?m"
    using breakdown_total [OF assms(1), of updatedAt "i_id i"]
    by (simp add: getBillingValueBreakdown_def getMaxRefundableInTransaction_def getMaxRefundable_def Let_def)
  have "rq_maxRefundable q = ?m \<and> rq_refundableValue q = roundCurrency (min (vb_remainingUserValue ?b) ?m)"
    using assms(2,4,5) by (auto simp: assms(3) calculateInstanceRemainingRefundQuote_def Let_def getMaxRefundableInTransaction_def
        split: option.splits if_splits)
  moreover have "vb_remainingUserValue ?b \<le> ?m" "0 \<le> vb_remainingUserValue ?b"
    using breakdown_bounds [where i = "i_id i"] m by metis+
  moreover have "has_scale 2 (vb_remainingUserValue ?b)" by (simp add: getBillingValueBreakdown_def Let_def)
  ultimately show ?thesis by (simp add: min_def roundCurrency_id)
qed

text \<open>What the owner of the host gives back for a refund is never negative and never more than the hosted
  value of the payments; for a refund of the whole unused value it is the whole unused hosted value.\<close>

theorem hosted_share_fair:
  assumes "vb_hasPositiveBillingRecords (getBillingValueBreakdown updatedAt now instanceId s)"
  shows "let b = getBillingValueBreakdown updatedAt now instanceId s; h = calculateHostedRefundAmount updatedAt now instanceId requested historical s in
    0 \<le> h \<and> h \<le> vb_totalHostedValue b
    \<and> (0 < requested \<and> requested = vb_remainingUserValue b \<longrightarrow> h = vb_remainingHostedValue b)"
proof -
  let ?b = "getBillingValueBreakdown updatedAt now instanceId s"
  have sc: "has_scale 2 (vb_remainingHostedValue ?b)" "has_scale 2 (vb_totalHostedValue ?b)"
    by (simp_all add: getBillingValueBreakdown_def Let_def)
  note bb = breakdown_bounds [of updatedAt now instanceId s]
  have "0 \<le> vb_totalHostedValue ?b" using bb(3,4) by linarith
  with hosted_share_bounds [OF _ bb(4) sc] have
    "0 \<le> requested \<Longrightarrow> 0 \<le> hosted_share ?b historical requested \<and> hosted_share ?b historical requested \<le> vb_totalHostedValue ?b" by blast
  moreover have "hosted_share ?b historical requested = vb_remainingHostedValue ?b"
    if "0 < requested" "requested = vb_remainingUserValue ?b"
  proof (cases "vb_remainingHostedValue ?b \<le> 0")
    case True
    then have "vb_remainingHostedValue ?b = 0" using bb(3) by linarith
    then show ?thesis using that by (simp add: hosted_share_def Let_def)
  next
    case False
    then show ?thesis using that sc(1) by (simp add: hosted_share_def Let_def roundCurrency_id)
  qed
  ultimately show ?thesis
    using assms bb(3,4) by (auto simp: calculateHostedRefundAmount_def Let_def)
qed

text \<open>C22: With a coupon the buyer pays less than the owner of the host earns. The hosted value of the payments
  and of the unused time is never below the buyer's, so a full refund takes the discount back from the owner.\<close>

theorem hosted_value_covers:
  assumes "\<forall>r\<in>set (billing_records s). has_scale 2 (br_amount r)"
    and "\<forall>u\<in>set (official_usages s). has_scale 2 (ou_originalPrice u) \<and> has_scale 2 (ou_discountAmount u) \<and> 0 \<le> ou_discountAmount u"
  shows "let b = getBillingValueBreakdown updatedAt now instanceId s in
    vb_totalUserValue b \<le> vb_totalHostedValue b \<and> vb_remainingUserValue b \<le> vb_remainingHostedValue b"
proof -
  have le: "vr_netUserAmount v \<le> vr_netHostedAmount v" if "v \<in> set (breakdown_values updatedAt instanceId s)" for v
    using that breakdown_wf [of updatedAt instanceId s] breakdown_covers [OF assms, of updatedAt instanceId] covers_net by blast
  have "(\<Sum>v\<leftarrow>breakdown_values updatedAt instanceId s. vr_netUserAmount v) \<le> (\<Sum>v\<leftarrow>breakdown_values updatedAt instanceId s. vr_netHostedAmount v)"
    using le by (intro sum_list_mono)
  moreover have "(\<Sum>v\<leftarrow>breakdown_values updatedAt instanceId s. vr_netUserAmount v * remaining_ratio now v)
      \<le> (\<Sum>v\<leftarrow>breakdown_values updatedAt instanceId s. vr_netHostedAmount v * remaining_ratio now v)"
    using le remaining_ratio_bounds by (intro sum_list_mono mult_right_mono)
  ultimately show ?thesis by (auto simp: getBillingValueBreakdown_def Let_def intro: roundCurrency_mono)
qed

section \<open>The properties on concrete databases\<close>

text \<open>Instance 5 was bought for 10, 12 less a coupon of 2, for the time from 0 to 1000, and 4 were refunded.\<close>

definition bought_db :: db where
  "bought_db = empty_db\<lparr>instances := [mk_instance 5 1 1 IS_running],
     billing_records := [mk_record BT_newPurchase 5 1 10 0 1000, mk_record BT_refund 5 1 (- 4) 100 100],
     official_usages := [\<lparr>ou_id = 1, ou_couponId = 1, ou_userId = 1, ou_instanceId = Some 5, ou_type = UT_purchase,
       ou_originalPrice = 12, ou_discountAmount = 2, ou_discountedMonths = 1, ou_createdAt = 0\<rparr>]\<rparr>"

lemmas bought_db_simps = bought_db_def empty_db_def mk_instance_def mk_record_def

lemma bought_lineage: "getInstanceBillingLineageIds updatedAt 5 bought_db = [5]"
  by (rule lineage_self) (simp add: bought_db_simps)

lemma bought_values:
  "breakdown_values updatedAt 5 bought_db = [\<lparr>vr_userAmount = 10, vr_hostedAmount = 12, vr_netUserAmount = 6,
     vr_netHostedAmount = 36 / 5, vr_periodStart = 0, vr_periodEnd = 1000\<rparr>]"
proof -
  have r: "lineageRecords updatedAt 5 bought_db = [mk_record BT_newPurchase 5 1 10 0 1000, mk_record BT_refund 5 1 (- 4) 100 100]"
    unfolding lineageRecords_def bought_lineage by (simp add: bought_db_simps)
  have b: "billingRecordsOf (lineageRecords updatedAt 5 bought_db) = [mk_record BT_newPurchase 5 1 10 0 1000]"
    unfolding r by (simp add: billingRecordsOf_def paidRecords_def is_payment_def mk_record_def)
  have u: "couponUsagesOf [5] bought_db = official_usages bought_db"
    by (simp add: couponUsagesOf_def bought_db_simps)
  have m: "usageMatches [mk_record BT_newPurchase 5 1 10 0 1000] (official_usages bought_db) = [(0, 0)]"
    by (simp add: usageMatches_def matchCouponUsagesToBillingRecords_def candidates_def fits_def usage_type_of_def
        record_type_text_def usage_type_text_def bought_db_simps)
  show ?thesis
    unfolding breakdown_values_def Let_def bought_lineage b u m unfolding r
    by (simp add: value_of_def Let_def bought_db_simps)
qed

lemma bought_breakdown:
  "getBillingValueBreakdown updatedAt 250 5 bought_db = \<lparr>vb_hasPositiveBillingRecords = True, vb_totalUserValue = 6,
     vb_totalHostedValue = 36 / 5, vb_remainingUserValue = 9 / 2, vb_remainingHostedValue = 27 / 5\<rparr>"
  unfolding getBillingValueBreakdown_def bought_values Let_def
  by (simp add: remaining_ratio_def roundCurrency_def to_fixed_def floor_eq_iff)

theorem netting_agrees_witness: "getMaxRefundableInTransaction (\<lambda>k. 0) 5 bought_db = 6"
proof -
  have "\<forall>r\<in>set (billing_records bought_db). br_type r = BT_refund \<longrightarrow> br_amount r \<le> 0" by (simp add: bought_db_simps)
  from netting_agrees [OF this, of "\<lambda>k. 0" 250 5] show ?thesis by (simp add: bought_breakdown)
qed

theorem quote_within_payments_witness:
  "rq_refundableValue (calculateInstanceRemainingRefundQuote (\<lambda>k. 0) 250 (mk_instance 5 1 1 IS_running) bought_db) = 9 / 2"
proof -
  let ?q = "calculateInstanceRemainingRefundQuote (\<lambda>k. 0) 250 (mk_instance 5 1 1 IS_running) bought_db"
  have a: "\<forall>r\<in>set (billing_records bought_db). br_type r = BT_refund \<longrightarrow> br_amount r \<le> 0" by (simp add: bought_db_simps)
  have i: "i_id (mk_instance 5 1 1 IS_running) = 5" by (simp add: mk_instance_def)
  have q: "rq_isPaid ?q" "rq_remainingDays ?q \<noteq> 0"
    by (simp_all add: calculateInstanceRemainingRefundQuote_def mk_instance_def Let_def calculateRemainingDays_def day_ms_def ceiling_eq_iff)
  have "vb_hasPositiveBillingRecords (getBillingValueBreakdown (\<lambda>k. 0) 250 (i_id (mk_instance 5 1 1 IS_running)) bought_db)"
    by (simp add: i bought_breakdown)
  from quote_within_payments [OF a this refl q] show ?thesis by (simp add: i bought_breakdown)
qed

theorem hosted_share_fair_witness:
  "calculateHostedRefundAmount (\<lambda>k. 0) 250 5 (9 / 2) False bought_db = 27 / 5"
  using hosted_share_fair [of "\<lambda>k. 0" 250 5 bought_db "9 / 2" False] by (simp add: bought_breakdown Let_def)

theorem hosted_value_covers_witness:
  "vb_totalUserValue (getBillingValueBreakdown (\<lambda>k. 0) 250 5 bought_db) \<le> 36 / 5"
proof -
  have "has_scale 2 (- 4 :: rat)" using has_scale_of_int [of 2 "- 4"] by simp
  then have "\<forall>r\<in>set (billing_records bought_db). has_scale 2 (br_amount r)"
    "\<forall>u\<in>set (official_usages bought_db). has_scale 2 (ou_originalPrice u) \<and> has_scale 2 (ou_discountAmount u) \<and> 0 \<le> ou_discountAmount u"
    by (simp_all add: bought_db_simps)
  from hosted_value_covers [OF this, of "\<lambda>k. 0" 250 5] show ?thesis by (simp add: bought_breakdown Let_def)
qed

end
