(* ===== verification/OfficialCoupons.thy ===== *)
theory OfficialCoupons
  imports Hosting Coupons
begin

text \<open>
  Official coupons in the database: \<open>server/src/db/official-coupons.ts\<close> (checking a coupon, taking a use
  of it in a purchase or a renewal, giving uses back when a purchase fails, and the administrators'
  operations). A purchase takes one of the coupon's places (\<open>oc_usedCount\<close>); a renewal only writes a
  usage row. Error codes are their texts; whether a lock is granted, the time and the bytes of a
  generated code are arguments.
\<close>

section \<open>Checking a coupon\<close>

definition getPackageCouponScope :: "int \<Rightarrow> db \<Rightarrow> package_scope option" where
  "getPackageCouponScope packageId s =
     (case find_key ch_id packageId (packages s) of
        None \<Rightarrow> None
      | Some pkg \<Rightarrow>
          Some (case find_key u_id (ch_parent pkg) (users s) of
            Some owner \<Rightarrow> if u_role owner = R_admin then Pkg_official else Pkg_hosted
          | None \<Rightarrow> Pkg_hosted))"

record coupon_check =
  ck_coupon :: official_coupon
  ck_discountRate :: rat
  ck_remainingUses :: "int option"

definition uses_by :: "int \<Rightarrow> int \<Rightarrow> db \<Rightarrow> nat" where
  "uses_by couponId userId s = count_where (\<lambda>u. ou_couponId u = couponId \<and> ou_userId u = userId) (official_usages s)"

definition validateOfficialCoupon ::
    "int \<Rightarrow> string \<Rightarrow> int \<Rightarrow> int \<Rightarrow> bool \<Rightarrow> bool \<Rightarrow> bool \<Rightarrow> db \<Rightarrow> string + coupon_check" where
  "validateOfficialCoupon now rawCode packageId userId checkUserLimit checkTotalUsageLimit allowExpired s =
     (let code = normalizeOfficialCouponCode rawCode in
      if code = '''' then Inl ''COUPON_NOT_FOUND''
      else case find_key oc_code code (official_coupons s) of
        None \<Rightarrow> Inl ''COUPON_NOT_FOUND''
      | Some coupon \<Rightarrow>
          if \<not> oc_enabled coupon then Inl ''COUPON_DISABLED''
          else if (case oc_startsAt coupon of None \<Rightarrow> False | Some t \<Rightarrow> t > now) then Inl ''COUPON_NOT_STARTED''
          else if \<not> allowExpired \<and> (case oc_expiresAt coupon of None \<Rightarrow> False | Some t \<Rightarrow> t \<le> now)
          then Inl ''COUPON_EXPIRED''
          else case getPackageCouponScope packageId s of
            None \<Rightarrow> Inl ''NOT_FOUND''
          | Some packageScope \<Rightarrow>
              if \<not> isCouponScopeMatched (oc_scope coupon) packageScope then Inl ''COUPON_SCOPE_MISMATCH''
              else if checkTotalUsageLimit
                  \<and> (case oc_totalUsageLimit coupon of None \<Rightarrow> False | Some l \<Rightarrow> oc_usedCount coupon \<ge> l)
              then Inl ''COUPON_EXHAUSTED''
              else if checkUserLimit
                  \<and> (case resolveUserUsageLimit (oc_reusable coupon) (oc_maxUsesPerUser coupon) of
                       None \<Rightarrow> False | Some l \<Rightarrow> int (uses_by (oc_id coupon) userId s) \<ge> l)
              then Inl ''COUPON_USER_LIMIT_REACHED''
              else Inr \<lparr>ck_coupon = coupon, ck_discountRate = oc_discountRate coupon,
                ck_remainingUses = map_option (\<lambda>l. max 0 (l - oc_usedCount coupon)) (oc_totalUsageLimit coupon)\<rparr>)"

section \<open>Taking and giving back uses\<close>

record reservation_input =
  ri_code :: string
  ri_packageId :: int
  ri_userId :: int
  ri_instanceId :: int
  ri_originalPrice :: rat
  ri_discountAmount :: rat
  ri_discountedMonths :: int
  ri_isRenewal :: bool

definition take_place :: "official_coupon \<Rightarrow> official_coupon" where
  "take_place c = c\<lparr>oc_usedCount := oc_usedCount c + 1\<rparr>"

definition has_place :: "official_coupon \<Rightarrow> bool" where
  "has_place c \<longleftrightarrow> oc_enabled c \<and> (case oc_totalUsageLimit c of None \<Rightarrow> True | Some l \<Rightarrow> oc_usedCount c < l)"

definition usage_row :: "int \<Rightarrow> int \<Rightarrow> reservation_input \<Rightarrow> db \<Rightarrow> official_usage" where
  "usage_row now couponId d s =
     \<lparr>ou_id = official_usage_seq s, ou_couponId = couponId, ou_userId = ri_userId d, ou_instanceId = Some (ri_instanceId d),
      ou_type = (if ri_isRenewal d then UT_renewal else UT_purchase), ou_originalPrice = column 2 (ri_originalPrice d),
      ou_discountAmount = column 2 (ri_discountAmount d), ou_discountedMonths = ri_discountedMonths d, ou_createdAt = now\<rparr>"

definition reserveOfficialCouponUsage ::
    "int \<Rightarrow> (int \<Rightarrow> bool) \<Rightarrow> reservation_input \<Rightarrow> db \<Rightarrow> ((int \<times> int) \<times> db) outcome" where
  "reserveOfficialCouponUsage now granted d s =
     (let code = normalizeOfficialCouponCode (ri_code d) in
      if ri_discountedMonths d < 1
      then Inl (Error ''Official coupon usage must contain at least one discounted month'')
      else case find_key oc_code code (official_coupons s) of
        None \<Rightarrow> Inl (Failure (M_coupon_refused ''COUPON_NOT_FOUND''))
      | Some coupon \<Rightarrow>
          if \<not> granted (oc_id coupon) then Inl (LockBusy OFFICIAL_COUPON_LOCK_NAMESPACE (oc_id coupon))
          else case validateOfficialCoupon now code (ri_packageId d) (ri_userId d) (\<not> ri_isRenewal d) (\<not> ri_isRenewal d)
              (ri_isRenewal d) s of
            Inl e \<Rightarrow> Inl (Failure (M_coupon_refused e))
          | Inr v \<Rightarrow>
              let hit = (\<lambda>c. oc_id c = oc_id coupon \<and> has_place c) in
              if \<not> ri_isRenewal d \<and> count_where hit (official_coupons s) = 0
              then Inl (Failure (M_coupon_refused ''COUPON_EXHAUSTED''))
              else
                let s1 = (if ri_isRenewal d then s
                  else s\<lparr>official_coupons := update_where hit take_place (official_coupons s)\<rparr>) in
                Inr ((oc_id coupon, official_usage_seq s),
                  s1\<lparr>official_usages := official_usages s @ [usage_row now (oc_id coupon) d s],
                     official_usage_seq := official_usage_seq s + 1\<rparr>))"

definition getInstancePurchaseCoupon :: "int \<Rightarrow> db \<Rightarrow> official_coupon option" where
  "getInstancePurchaseCoupon instanceId s =
     (case find_where (\<lambda>u. ou_instanceId u = Some instanceId \<and> ou_type u = UT_purchase) (official_usages s) of
        None \<Rightarrow> None | Some u \<Rightarrow> find_key oc_id (ou_couponId u) (official_coupons s))"

definition countDiscountedMonthsForInstance :: "int \<Rightarrow> int \<Rightarrow> db \<Rightarrow> int" where
  "countDiscountedMonthsForInstance couponId instanceId s =
     (\<Sum>u\<leftarrow>filter (\<lambda>u. ou_couponId u = couponId \<and> ou_instanceId u = Some instanceId) (official_usages s). ou_discountedMonths u)"

text \<open>How many uses of each coupon a failed purchase gives back, coupons in the order they appear.\<close>

fun bump :: "int \<Rightarrow> (int \<times> int) list \<Rightarrow> (int \<times> int) list" where
  "bump k [] = [(k, 1)]"
| "bump k ((j, n) # m) = (if j = k then (j, n + 1) # m else (j, n) # bump k m)"

definition usageCountByCoupon :: "official_usage list \<Rightarrow> (int \<times> int) list" where
  "usageCountByCoupon us =
     foldl (\<lambda>m u. if ou_type u \<noteq> UT_purchase then m else bump (ou_couponId u) m) [] us"

definition return_places :: "int \<Rightarrow> official_coupon \<Rightarrow> official_coupon" where
  "return_places n c = c\<lparr>oc_usedCount := oc_usedCount c - n\<rparr>"

fun give_back :: "(int \<times> int) list \<Rightarrow> db \<Rightarrow> db outcome" where
  "give_back [] s = Inr s"
| "give_back ((k, n) # m) s =
     (let hit = (\<lambda>c. oc_id c = k \<and> oc_usedCount c \<ge> n) in
      if count_where hit (official_coupons s) \<noteq> 1 then Inl (Error ''Official coupon usage count is inconsistent'')
      else give_back m (s\<lparr>official_coupons := update_where hit (return_places n) (official_coupons s)\<rparr>))"

record released_coupon =
  rl_couponId :: int
  rl_discountAmount :: rat
  rl_couponUser :: int

definition releaseOfficialCouponUsageByInstance ::
    "(int \<Rightarrow> bool) \<Rightarrow> int \<Rightarrow> db \<Rightarrow> (released_coupon option \<times> db) outcome" where
  "releaseOfficialCouponUsageByInstance granted instanceId s =
     (let us = filter (\<lambda>u. ou_instanceId u = Some instanceId) (official_usages s);
          counts = usageCountByCoupon us in
      if us = [] then Inr (None, s)
      else case find (\<lambda>p. \<not> granted (fst p)) counts of
        Some p \<Rightarrow> Inl (LockBusy OFFICIAL_COUPON_LOCK_NAMESPACE (fst p))
      | None \<Rightarrow>
          (case give_back counts (s\<lparr>official_usages :=
               delete_where (\<lambda>u. ou_id u \<in> set (map ou_id us)) (official_usages s)\<rparr>) of
             Inl e \<Rightarrow> Inl e
           | Inr s' \<Rightarrow> Inr (Some \<lparr>rl_couponId = ou_couponId (hd us), rl_discountAmount = (\<Sum>u\<leftarrow>us. ou_discountAmount u),
               rl_couponUser = ou_userId (hd us)\<rparr>, s')))"

section \<open>Administration\<close>



record coupon_patch =
  ct_code :: "string option"
  ct_name :: "string option"
  ct_discountRate :: "rat option"
  ct_scope :: "coupon_scope option"
  ct_reusable :: "bool option"
  ct_maxUsesPerUser :: "int option option"
  ct_totalUsageLimit :: "int option option"
  ct_enabled :: "bool option"
  ct_startsAt :: "int option option"
  ct_expiresAt :: "int option option"
  ct_renewalMode :: "renewal_mode option"
  ct_discountedChargeLimit :: "int option option"

definition given :: "'a option \<Rightarrow> 'a \<Rightarrow> 'a" where
  "given x old = (case x of None \<Rightarrow> old | Some v \<Rightarrow> v)"

definition patched :: "coupon_patch \<Rightarrow> official_coupon \<Rightarrow> official_coupon" where
  "patched d c =
     (let nextReusable = given (ct_reusable d) (oc_reusable c);
          nextRenewalMode = given (ct_renewalMode d) (oc_renewalMode c) in
      c\<lparr>oc_code := given (map_option normalizeOfficialCouponCode (ct_code d)) (oc_code c),
        oc_name := given (ct_name d) (oc_name c),
        oc_discountRate := given (map_option (column 4) (ct_discountRate d)) (oc_discountRate c),
        oc_scope := given (ct_scope d) (oc_scope c), oc_totalUsageLimit := given (ct_totalUsageLimit d) (oc_totalUsageLimit c),
        oc_enabled := given (ct_enabled d) (oc_enabled c), oc_startsAt := given (ct_startsAt d) (oc_startsAt c),
        oc_expiresAt := given (ct_expiresAt d) (oc_expiresAt c), oc_reusable := nextReusable,
        oc_maxUsesPerUser := (if \<not> nextReusable then None else given (ct_maxUsesPerUser d) (oc_maxUsesPerUser c)),
        oc_renewalMode := nextRenewalMode,
        oc_discountedChargeLimit := (if nextRenewalMode \<noteq> Mode_limited then None
          else given (ct_discountedChargeLimit d) (oc_discountedChargeLimit c))\<rparr>)"




section \<open>Lemmas\<close>

lemma upper_code: "(of_char (upper_char c) :: nat) =
    (if 97 \<le> (of_char c :: nat) \<and> (of_char c :: nat) \<le> 122 then of_char c - 32 else of_char c)"
proof -
  have "of_char c < (256 :: nat)" by simp
  then show ?thesis by (auto simp: upper_char_def Let_def)
qed

lemma trim_upper: "trim (map upper_char xs) = map upper_char (trim xs)"
proof -
  have sp: "is_space (upper_char c) = is_space c" for c by (auto simp: is_space_def upper_code Let_def)
  have "dropWhile is_space (map upper_char ys) = map upper_char (dropWhile is_space ys)" for ys
    by (simp add: dropWhile_map comp_def sp)
  then show ?thesis by (simp add: trim_def rev_map)
qed

lemma upper_upper: "upper_char (upper_char c) = upper_char c"
proof -
  have "(of_char (upper_char (upper_char c)) :: nat) = of_char (upper_char c)" by (auto simp: upper_code)
  then show ?thesis by simp
qed

lemma normalize_idem [simp]: "normalizeOfficialCouponCode (normalizeOfficialCouponCode c) = normalizeOfficialCouponCode c"
  by (simp add: normalizeOfficialCouponCode_def toUpperCase_def trim_upper comp_def upper_upper)

lemma take_place_simps [simp]:
  "oc_id (take_place c) = oc_id c" "oc_code (take_place c) = oc_code c" "oc_usedCount (take_place c) = oc_usedCount c + 1"
  "oc_totalUsageLimit (take_place c) = oc_totalUsageLimit c" "oc_reusable (take_place c) = oc_reusable c"
  "oc_maxUsesPerUser (take_place c) = oc_maxUsesPerUser c"
  by (simp_all add: take_place_def)

lemma return_places_simps [simp]:
  "oc_id (return_places n c) = oc_id c" "oc_code (return_places n c) = oc_code c" "oc_usedCount (return_places n c) = oc_usedCount c - n"
  "oc_totalUsageLimit (return_places n c) = oc_totalUsageLimit c" "oc_reusable (return_places n c) = oc_reusable c"
  "oc_maxUsesPerUser (return_places n c) = oc_maxUsesPerUser c"
  by (simp_all add: return_places_def)

lemma return_places_0 [simp]: "return_places 0 c = c"
  by (simp add: return_places_def)

section \<open>The invariant\<close>

definition is_purchase_of :: "int \<Rightarrow> official_usage \<Rightarrow> bool" where
  "is_purchase_of k u \<longleftrightarrow> ou_couponId u = k \<and> ou_type u = UT_purchase"

definition purchases_of :: "int \<Rightarrow> db \<Rightarrow> nat" where
  "purchases_of k s = count_where (is_purchase_of k) (official_usages s)"

definition purchases_by :: "int \<Rightarrow> int \<Rightarrow> db \<Rightarrow> nat" where
  "purchases_by k userId s = count_where (\<lambda>u. is_purchase_of k u \<and> ou_userId u = userId) (official_usages s)"

definition user_limit :: "official_coupon \<Rightarrow> int option" where
  "user_limit c = resolveUserUsageLimit (oc_reusable c) (oc_maxUsesPerUser c)"

definition coupons_wf :: "db \<Rightarrow> bool" where
  "coupons_wf s \<longleftrightarrow> distinct (map oc_id (official_coupons s)) \<and> distinct (map oc_code (official_coupons s))
     \<and> distinct (map ou_id (official_usages s)) \<and> (\<forall>u\<in>set (official_usages s). ou_id u < official_usage_seq s)
     \<and> (\<forall>c\<in>set (official_coupons s). oc_id c < coupon_seq s)
     \<and> (\<forall>u\<in>set (official_usages s). ou_couponId u \<in> oc_id ` set (official_coupons s))
     \<and> (\<forall>c\<in>set (official_coupons s). oc_usedCount c = int (purchases_of (oc_id c) s))"

definition limit_holds :: "int option \<Rightarrow> int \<Rightarrow> bool" where
  "limit_holds l n \<longleftrightarrow> (case l of None \<Rightarrow> True | Some m \<Rightarrow> n \<le> max m 0)"

definition within_limits :: "db \<Rightarrow> bool" where
  "within_limits s \<longleftrightarrow> (\<forall>c\<in>set (official_coupons s). limit_holds (oc_totalUsageLimit c) (oc_usedCount c)
     \<and> (\<forall>userId. limit_holds (user_limit c) (int (purchases_by (oc_id c) userId s))))"

lemma wf_find: "coupons_wf s \<Longrightarrow> c \<in> set (official_coupons s) \<Longrightarrow> find_key oc_id (oc_id c) (official_coupons s) = Some c"
  by (simp add: coupons_wf_def find_key_distinct)

lemma purchases_by_le: "purchases_by k userId s \<le> uses_by k userId s"
proof -
  have "length (filter (\<lambda>u. is_purchase_of k u \<and> ou_userId u = userId) us) \<le> length (filter (\<lambda>u. ou_couponId u = k \<and> ou_userId u = userId) us)" for us
    by (induction us) (auto simp: is_purchase_of_def)
  then show ?thesis by (simp add: purchases_by_def uses_by_def count_where_def)
qed

lemma count_where_append [simp]: "count_where P (xs @ ys) = count_where P xs + count_where P ys"
  by (simp add: count_where_def)

lemma count_where_single [simp]: "count_where P [x] = (if P x then 1 else 0)"
  by (simp add: count_where_def)

text \<open>A reservation that succeeds, taken apart.\<close>

lemma reserve_cases:
  assumes "reserveOfficialCouponUsage now granted d s = Inr ((k, uid), s')"
  obtains c v where "find_key oc_code (normalizeOfficialCouponCode (ri_code d)) (official_coupons s) = Some c" "k = oc_id c"
    "uid = official_usage_seq s" "1 \<le> ri_discountedMonths d" "granted k"
    "validateOfficialCoupon now (normalizeOfficialCouponCode (ri_code d)) (ri_packageId d) (ri_userId d) (\<not> ri_isRenewal d)
       (\<not> ri_isRenewal d) (ri_isRenewal d) s = Inr v"
    "ri_isRenewal d \<or> count_where (\<lambda>x. oc_id x = oc_id c \<and> has_place x) (official_coupons s) \<noteq> 0"
    "s' = s\<lparr>official_coupons := (if ri_isRenewal d then official_coupons s
        else update_where (\<lambda>x. oc_id x = oc_id c \<and> has_place x) take_place (official_coupons s)),
      official_usages := official_usages s @ [usage_row now (oc_id c) d s], official_usage_seq := official_usage_seq s + 1\<rparr>"
  using assms
  by (auto simp: reserveOfficialCouponUsage_def Let_def split: option.splits sum.splits if_splits)

lemma coupon_validated:
  assumes "validateOfficialCoupon now code p u cu ct ae s = Inr v"
  shows "\<exists>c. find_key oc_code (normalizeOfficialCouponCode code) (official_coupons s) = Some c \<and> ck_coupon v = c \<and> oc_enabled c
    \<and> ck_discountRate v = oc_discountRate c \<and> (ct \<longrightarrow> (\<forall>l. oc_totalUsageLimit c = Some l \<longrightarrow> oc_usedCount c < l))
    \<and> (cu \<longrightarrow> (\<forall>l. user_limit c = Some l \<longrightarrow> int (uses_by (oc_id c) u s) < l))"
  using assms
  by (auto simp: validateOfficialCoupon_def Let_def user_limit_def split: option.splits if_splits)

section \<open>Reservations\<close>

lemma purchases_of_add:
  "purchases_of j (s\<lparr>official_coupons := t, official_usages := official_usages s @ [u], official_usage_seq := n\<rparr>) =
     purchases_of j s + (if is_purchase_of j u then 1 else 0)"
  by (simp add: purchases_of_def)

lemma purchases_by_add:
  "purchases_by j k (s\<lparr>official_coupons := t, official_usages := official_usages s @ [u], official_usage_seq := n\<rparr>) =
     purchases_by j k s + (if is_purchase_of j u \<and> ou_userId u = k then 1 else 0)"
  by (simp add: purchases_by_def)

lemma usage_row_purchase: "is_purchase_of j (usage_row now k d s) \<longleftrightarrow> j = k \<and> \<not> ri_isRenewal d"
  by (auto simp: is_purchase_of_def usage_row_def)

lemma user_limit_take [simp]: "user_limit (take_place c) = user_limit c" "user_limit (return_places n c) = user_limit c"
  by (simp_all add: user_limit_def)

text \<open>The coupons after a reservation: a purchase takes a place of the coupon, which has one.\<close>

lemma reserve_coupons:
  assumes "coupons_wf s" and "reserveOfficialCouponUsage now granted d s = Inr ((k, uid), s')"
  shows "\<exists>c. c \<in> set (official_coupons s) \<and> oc_id c = k \<and> oc_enabled c
    \<and> oc_code c = normalizeOfficialCouponCode (ri_code d) \<and> (ri_isRenewal d \<or> has_place c \<and>
        (\<forall>l. user_limit c = Some l \<longrightarrow> int (uses_by k (ri_userId d) s) < l))
    \<and> s' = s\<lparr>official_coupons := (if ri_isRenewal d then official_coupons s else update_key oc_id k take_place (official_coupons s)),
        official_usages := official_usages s @ [usage_row now k d s], official_usage_seq := official_usage_seq s + 1\<rparr>"
  using assms(2)
proof (rule reserve_cases)
  fix c v
  assume c: "find_key oc_code (normalizeOfficialCouponCode (ri_code d)) (official_coupons s) = Some c" and k: "k = oc_id c"
    and v: "validateOfficialCoupon now (normalizeOfficialCouponCode (ri_code d)) (ri_packageId d) (ri_userId d) (\<not> ri_isRenewal d)
       (\<not> ri_isRenewal d) (ri_isRenewal d) s = Inr v"
    and n: "ri_isRenewal d \<or> count_where (\<lambda>x. oc_id x = oc_id c \<and> has_place x) (official_coupons s) \<noteq> 0"
    and s': "s' = s\<lparr>official_coupons := (if ri_isRenewal d then official_coupons s
        else update_where (\<lambda>x. oc_id x = oc_id c \<and> has_place x) take_place (official_coupons s)),
      official_usages := official_usages s @ [usage_row now (oc_id c) d s], official_usage_seq := official_usage_seq s + 1\<rparr>"
  from c have mem: "c \<in> set (official_coupons s)" "oc_code c = normalizeOfficialCouponCode (ri_code d)" by (auto dest: find_key_SomeD)
  have f: "find_key oc_id (oc_id c) (official_coupons s) = Some c" using wf_find [OF assms(1) mem(1)] .
  have dist: "distinct (map oc_id (official_coupons s))" using assms(1) by (simp add: coupons_wf_def)
  have place: "has_place c" if "\<not> ri_isRenewal d"
    using n that count_key [OF dist, of "oc_id c" has_place] f by (auto split: if_splits)
  have "update_where (\<lambda>x. oc_id x = oc_id c \<and> has_place x) take_place (official_coupons s) = update_key oc_id k take_place (official_coupons s)"
    if "\<not> ri_isRenewal d" using update_where_only [where key = oc_id and P = has_place and f = take_place, OF dist f place [OF that]] k by simp
  moreover have "oc_enabled c \<and> (\<not> ri_isRenewal d \<longrightarrow> (\<forall>l. user_limit c = Some l \<longrightarrow> int (uses_by (oc_id c) (ri_userId d) s) < l))"
    using coupon_validated [OF v] c by auto
  ultimately show ?thesis using mem place s' k by (intro exI [of _ c]) auto
qed

lemma reserve_sound:
  assumes w: "coupons_wf s" and run: "reserveOfficialCouponUsage now granted d s = Inr ((k, uid), s')"
  shows "coupons_wf s' \<and> (within_limits s \<longrightarrow> within_limits s')"
proof -
  from reserve_coupons [OF w run] obtain c where c: "c \<in> set (official_coupons s)" "oc_id c = k"
    and ok: "ri_isRenewal d \<or> has_place c \<and> (\<forall>l. user_limit c = Some l \<longrightarrow> int (uses_by k (ri_userId d) s) < l)"
    and s': "s' = s\<lparr>official_coupons := (if ri_isRenewal d then official_coupons s else update_key oc_id k take_place (official_coupons s)),
        official_usages := official_usages s @ [usage_row now k d s], official_usage_seq := official_usage_seq s + 1\<rparr>" by blast
  have rows: "\<exists>y\<in>set (official_coupons s). oc_id x = oc_id y \<and> oc_totalUsageLimit x = oc_totalUsageLimit y \<and> user_limit x = user_limit y
      \<and> oc_usedCount x = oc_usedCount y + (if oc_id y = k \<and> \<not> ri_isRenewal d then 1 else 0)" if "x \<in> set (official_coupons s')" for x
    using that by (auto simp: s' elim!: set_update_keyE split: if_splits)
  have same: "y = c" if "y \<in> set (official_coupons s)" "oc_id y = k" for y
    using wf_find [OF w that(1)] wf_find [OF w c(1)] that(2) c(2) by simp
  have keys: "map oc_id (official_coupons s') = map oc_id (official_coupons s)" "map oc_code (official_coupons s') = map oc_code (official_coupons s)"
    by (simp_all add: s' map_update_key)
  have row: "ou_id (usage_row now k d s) = official_usage_seq s" "ou_couponId (usage_row now k d s) = k"
    "ou_userId (usage_row now k d s) = ri_userId d"
    by (simp_all add: usage_row_def)
  have "coupons_wf s'"
    unfolding coupons_wf_def keys
  proof (intro conjI)
    show "\<forall>x\<in>set (official_coupons s'). oc_usedCount x = int (purchases_of (oc_id x) s')"
      using rows w by (fastforce simp: s' purchases_of_add usage_row_purchase coupons_wf_def)
    have "oc_id ` set (official_coupons s') = oc_id ` set (official_coupons s)" by (metis keys(1) list.set_map)
    then show "\<forall>u\<in>set (official_usages s'). ou_couponId u \<in> oc_id ` set (official_coupons s')"
      using w c by (auto simp: s' row coupons_wf_def)
    show "\<forall>x\<in>set (official_coupons s'). oc_id x < coupon_seq s'" using rows w by (fastforce simp: s' coupons_wf_def)
  qed (use w in \<open>auto simp: coupons_wf_def s' row\<close>)
  moreover have "within_limits s'" if l: "within_limits s"
    unfolding within_limits_def
  proof (intro ballI conjI allI)
    fix x userId assume "x \<in> set (official_coupons s')"
    from rows [OF this] obtain y where y: "y \<in> set (official_coupons s)" "oc_id x = oc_id y" "oc_totalUsageLimit x = oc_totalUsageLimit y"
      "user_limit x = user_limit y" "oc_usedCount x = oc_usedCount y + (if oc_id y = k \<and> \<not> ri_isRenewal d then 1 else 0)" by blast
    have old: "limit_holds (oc_totalUsageLimit y) (oc_usedCount y)" "limit_holds (user_limit y) (int (purchases_by (oc_id y) userId s))"
      using l y(1) by (auto simp: within_limits_def)
    show "limit_holds (oc_totalUsageLimit x) (oc_usedCount x)"
      using old(1) ok same [OF y(1)] by (auto simp: y limit_holds_def has_place_def split: option.splits)
    show "limit_holds (user_limit x) (int (purchases_by (oc_id x) userId s'))"
      using old(2) ok same [OF y(1)] purchases_by_le [of k "ri_userId d" s]
      by (auto simp: y s' purchases_by_add usage_row_purchase limit_holds_def row split: option.splits)
  qed
  ultimately show ?thesis by blast
qed

section \<open>Releases\<close>

definition places_in :: "(int \<times> int) list \<Rightarrow> int \<Rightarrow> int" where
  "places_in m k = (case map_of m k of None \<Rightarrow> 0 | Some n \<Rightarrow> n)"

lemma places_in_Cons: "places_in ((j, n) # m) k = (if k = j then n else places_in m k)"
  by (simp add: places_in_def)

lemma places_in_notin: "k \<notin> fst ` set m \<Longrightarrow> places_in m k = 0"
  by (simp add: places_in_def map_of_eq_None_iff [THEN iffD2])

lemma bump_keys: "fst ` set (bump k m) = insert k (fst ` set m)"
  by (induction k m rule: bump.induct) auto

lemma bump_distinct: "distinct (map fst m) \<Longrightarrow> distinct (map fst (bump k m))"
proof (induction k m rule: bump.induct)
  case (2 k j n m)
  then have "j \<notin> fst ` set (bump k m)" if "j \<noteq> k" using that by (simp add: bump_keys)
  with 2 show ?case by (cases "j = k") simp_all
qed simp

lemma places_in_bump [simp]: "places_in (bump k m) j = places_in m j + (if j = k then 1 else 0)"
  by (induction k m rule: bump.induct) (auto simp: places_in_def)

lemma usageCount_spec:
  "distinct (map fst (usageCountByCoupon us)) \<and> fst ` set (usageCountByCoupon us) = ou_couponId ` {u \<in> set us. ou_type u = UT_purchase}
    \<and> (\<forall>k. places_in (usageCountByCoupon us) k = int (count_where (is_purchase_of k) us))"
proof (induction us rule: rev_induct)
  case Nil
  then show ?case by (simp add: usageCountByCoupon_def places_in_def count_where_def)
next
  case (snoc u us)
  have "usageCountByCoupon (us @ [u]) = (if ou_type u \<noteq> UT_purchase then usageCountByCoupon us else bump (ou_couponId u) (usageCountByCoupon us))"
    by (simp add: usageCountByCoupon_def)
  with snoc show ?case by (auto simp: bump_keys bump_distinct is_purchase_of_def)
qed

lemma give_back_effect:
  assumes "give_back m s = Inr s'" and "distinct (map fst m)" and "distinct (map oc_id (official_coupons s))"
  shows "s' = s\<lparr>official_coupons := map (\<lambda>c. return_places (places_in m (oc_id c)) c) (official_coupons s)\<rparr>"
  using assms
proof (induction m arbitrary: s)
  case Nil
  then show ?case by (simp add: places_in_def)
next
  case (Cons p m)
  obtain k n where p: "p = (k, n)" by (cases p)
  define t where "t = update_where (\<lambda>c. oc_id c = k \<and> oc_usedCount c \<ge> n) (return_places n) (official_coupons s)"
  from Cons.prems(1) have one: "count_where (\<lambda>c. oc_id c = k \<and> oc_usedCount c \<ge> n) (official_coupons s) = 1"
    and run: "give_back m (s\<lparr>official_coupons := t\<rparr>) = Inr s'" by (auto simp: p Let_def t_def split: if_splits)
  have out: "k \<notin> fst ` set m" using Cons.prems(2) by (simp add: p)
  have "(case find_key oc_id k (official_coupons s) of None \<Rightarrow> 0 | Some r \<Rightarrow> if n \<le> oc_usedCount r then 1 else 0) = (1 :: nat)"
    using count_key [OF Cons.prems(3), of k "\<lambda>c. n \<le> oc_usedCount c"] one by (rule trans [OF sym])
  then obtain c where c: "find_key oc_id k (official_coupons s) = Some c" "n \<le> oc_usedCount c"
    by (cases "find_key oc_id k (official_coupons s)") (auto split: if_splits)
  have t: "t = update_key oc_id k (return_places n) (official_coupons s)"
    unfolding t_def using update_where_only [where key = oc_id and P = "\<lambda>c. n \<le> oc_usedCount c" and f = "return_places n", OF Cons.prems(3) c] .
  have "distinct (map oc_id (official_coupons (s\<lparr>official_coupons := t\<rparr>)))" using Cons.prems(3) by (simp add: t map_update_key)
  moreover have "distinct (map fst m)" using Cons.prems(2) by simp
  ultimately have s': "s' = s\<lparr>official_coupons := map (\<lambda>c. return_places (places_in m (oc_id c)) c) t\<rparr>"
    using Cons.IH [OF run] by simp
  have "return_places (places_in m (oc_id y)) (if oc_id x = k then return_places n x else x) = return_places (places_in (p # m) (oc_id x)) x"
    if "y = (if oc_id x = k then return_places n x else x)" for x y
    using places_in_notin [OF out] that by (simp add: p places_in_Cons)
  then have "map (\<lambda>c. return_places (places_in m (oc_id c)) c) t = map (\<lambda>c. return_places (places_in (p # m) (oc_id c)) c) (official_coupons s)"
    by (simp add: t update_key_def update_where_def)
  then show ?case by (simp add: s')
qed

lemma give_back_succeeds:
  assumes "distinct (map fst m)" and "distinct (map oc_id (official_coupons s))"
    and "\<forall>k\<in>fst ` set m. \<exists>c. find_key oc_id k (official_coupons s) = Some c \<and> places_in m k \<le> oc_usedCount c"
  shows "\<exists>s'. give_back m s = Inr s'"
  using assms
proof (induction m arbitrary: s)
  case (Cons p m)
  obtain k n where p: "p = (k, n)" by (cases p)
  from Cons.prems(3) obtain c where c: "find_key oc_id k (official_coupons s) = Some c" "n \<le> oc_usedCount c"
    by (auto simp: p places_in_Cons)
  have out: "k \<notin> fst ` set m" using Cons.prems(1) by (simp add: p)
  have one: "count_where (\<lambda>c. oc_id c = k \<and> n \<le> oc_usedCount c) (official_coupons s) = 1"
    using count_key [OF Cons.prems(2), of k "\<lambda>c. n \<le> oc_usedCount c"] c by simp
  define t where "t = update_where (\<lambda>c. oc_id c = k \<and> n \<le> oc_usedCount c) (return_places n) (official_coupons s)"
  have t: "t = update_key oc_id k (return_places n) (official_coupons s)"
    unfolding t_def using update_where_only [where key = oc_id and P = "\<lambda>c. n \<le> oc_usedCount c" and f = "return_places n", OF Cons.prems(2) c] .
  have "\<exists>s'. give_back m (s\<lparr>official_coupons := t\<rparr>) = Inr s'"
  proof (rule Cons.IH)
    show "\<forall>j\<in>fst ` set m. \<exists>c. find_key oc_id j (official_coupons (s\<lparr>official_coupons := t\<rparr>)) = Some c \<and> places_in m j \<le> oc_usedCount c"
    proof
      fix j assume j: "j \<in> fst ` set m"
      then have "j \<noteq> k" using out by auto
      with Cons.prems(3) j show "\<exists>c. find_key oc_id j (official_coupons (s\<lparr>official_coupons := t\<rparr>)) = Some c \<and> places_in m j \<le> oc_usedCount c"
        by (force simp: t find_key_update_key p places_in_Cons)
    qed
  qed (use Cons.prems in \<open>simp_all add: t map_update_key\<close>)
  with one show ?case by (simp add: p Let_def t_def)
qed simp

definition usages_on :: "int \<Rightarrow> db \<Rightarrow> official_usage list" where
  "usages_on i s = filter (\<lambda>u. ou_instanceId u = Some i) (official_usages s)"

definition released :: "int \<Rightarrow> db \<Rightarrow> db" where
  "released i s = s\<lparr>official_usages := filter (\<lambda>u. ou_instanceId u \<noteq> Some i) (official_usages s),
     official_coupons := map (\<lambda>c. return_places (int (count_where (is_purchase_of (oc_id c)) (usages_on i s))) c) (official_coupons s)\<rparr>"

lemma delete_usages:
  assumes "coupons_wf s"
  shows "delete_where (\<lambda>u. ou_id u \<in> set (map ou_id (usages_on i s))) (official_usages s) =
    filter (\<lambda>u. ou_instanceId u \<noteq> Some i) (official_usages s)"
proof -
  have d: "distinct (map ou_id (official_usages s))" using assms by (simp add: coupons_wf_def)
  have eq: "ou_id u \<in> ou_id ` set (usages_on i s) \<longleftrightarrow> ou_instanceId u = Some i" if "u \<in> set (official_usages s)" for u
  proof
    assume "ou_id u \<in> ou_id ` set (usages_on i s)"
    then obtain v where v: "v \<in> set (official_usages s)" "ou_instanceId v = Some i" "ou_id v = ou_id u" by (auto simp: usages_on_def)
    have "inj_on ou_id (set (official_usages s))" using d by (simp add: distinct_map)
    from inj_onD [OF this v(3) v(1) that] have "v = u" .
    with v show "ou_instanceId u = Some i" by simp
  next
    assume "ou_instanceId u = Some i"
    with that have "u \<in> set (usages_on i s)" by (simp add: usages_on_def)
    then show "ou_id u \<in> ou_id ` set (usages_on i s)" by (rule imageI)
  qed
  show ?thesis unfolding delete_where_def set_map by (rule filter_cong [OF refl]) (simp only: eq simp_thms)
qed

lemma coupon_release_effect:
  assumes "coupons_wf s" and "releaseOfficialCouponUsageByInstance granted i s = Inr (r, s')"
  shows "s' = released i s"
proof (cases "usages_on i s = []")
  case True
  then have "filter (\<lambda>u. ou_instanceId u \<noteq> Some i) (official_usages s) = official_usages s"
    by (auto simp: usages_on_def filter_empty_conv filter_id_conv)
  with True assms(2) show ?thesis by (simp add: releaseOfficialCouponUsageByInstance_def released_def usages_on_def count_where_def)
next
  case False
  let ?c = "usageCountByCoupon (usages_on i s)"
  have run: "give_back ?c (s\<lparr>official_usages := filter (\<lambda>u. ou_instanceId u \<noteq> Some i) (official_usages s)\<rparr>) = Inr s'"
    using assms(2) False unfolding releaseOfficialCouponUsageByInstance_def usages_on_def [symmetric] Let_def delete_usages [OF assms(1)]
    by (auto split: option.splits sum.splits)
  have "distinct (map oc_id (official_coupons s))" using assms(1) by (simp add: coupons_wf_def)
  with give_back_effect [OF run] usageCount_spec [of "usages_on i s"] show ?thesis by (simp add: released_def)
qed

lemma usage_count_split: "count_where P xs = count_where P (filter Q xs) + count_where P (filter (\<lambda>x. \<not> Q x) xs)"
  by (induction xs) (auto simp: count_where_def)


lemma release_succeeds:
  assumes w: "coupons_wf s" and g: "\<forall>k. granted k" and ne: "usages_on i s \<noteq> []"
  shows "\<exists>r. releaseOfficialCouponUsageByInstance granted i s = Inr (Some r, released i s)
    \<and> rl_discountAmount r = (\<Sum>u\<leftarrow>usages_on i s. ou_discountAmount u)"
proof -
  let ?c = "usageCountByCoupon (usages_on i s)"
  let ?t = "s\<lparr>official_usages := filter (\<lambda>u. ou_instanceId u \<noteq> Some i) (official_usages s)\<rparr>"
  have "\<exists>s'. give_back ?c ?t = Inr s'"
  proof (rule give_back_succeeds)
    show "\<forall>k\<in>fst ` set ?c. \<exists>c. find_key oc_id k (official_coupons ?t) = Some c \<and> places_in ?c k \<le> oc_usedCount c"
    proof
      fix k assume "k \<in> fst ` set ?c"
      then obtain u where u: "u \<in> set (official_usages s)" "ou_couponId u = k"
        using usageCount_spec [of "usages_on i s"] by (auto simp: usages_on_def)
      then obtain c where c: "c \<in> set (official_coupons s)" "oc_id c = k" using w by (auto simp: coupons_wf_def)
      then have "oc_usedCount c = int (purchases_of k s)" using w by (auto simp: coupons_wf_def)
      moreover have "count_where (is_purchase_of k) (usages_on i s) \<le> purchases_of k s"
        unfolding purchases_of_def usages_on_def
        using usage_count_split [of "is_purchase_of k" "official_usages s" "\<lambda>u. ou_instanceId u = Some i"] by simp
      ultimately show "\<exists>c. find_key oc_id k (official_coupons ?t) = Some c \<and> places_in ?c k \<le> oc_usedCount c"
        using wf_find [OF w c(1)] c(2) usageCount_spec [of "usages_on i s"] by auto
    qed
  qed (use w usageCount_spec [of "usages_on i s"] in \<open>simp_all add: coupons_wf_def\<close>)
  then obtain s' where run: "give_back ?c ?t = Inr s'" by blast
  have "find (\<lambda>p. \<not> granted (fst p)) ?c = None" using g by (simp add: find_None_iff)
  then have r: "releaseOfficialCouponUsageByInstance granted i s = Inr (Some \<lparr>rl_couponId = ou_couponId (hd (usages_on i s)),
      rl_discountAmount = (\<Sum>u\<leftarrow>usages_on i s. ou_discountAmount u), rl_couponUser = ou_userId (hd (usages_on i s))\<rparr>, s')"
    using ne run unfolding releaseOfficialCouponUsageByInstance_def usages_on_def [symmetric] Let_def delete_usages [OF w] by simp
  with coupon_release_effect [OF w r] show ?thesis by simp
qed

section \<open>Runs\<close>


lemma patched_simps [simp]: "oc_id (patched d c) = oc_id c" "oc_usedCount (patched d c) = oc_usedCount c"
  by (simp_all add: patched_def Let_def)










section \<open>Properties\<close>


lemma release_of_reserved:
  assumes w: "coupons_wf s" and none: "usages_on (ri_instanceId d) s = []"
    and run: "reserveOfficialCouponUsage now granted d s = Inr ((k, uid), s1)"
  shows "released (ri_instanceId d) s1 = s\<lparr>official_usage_seq := official_usage_seq s + 1\<rparr>
    \<and> usages_on (ri_instanceId d) s1 = [usage_row now k d s]"
proof -
  let ?u = "usage_row now k d s"
  have u: "ou_instanceId ?u = Some (ri_instanceId d)" by (simp add: usage_row_def)
  from reserve_coupons [OF w run] obtain c where c: "c \<in> set (official_coupons s)" "oc_id c = k"
    and s1: "s1 = s\<lparr>official_coupons := (if ri_isRenewal d then official_coupons s else update_key oc_id k take_place (official_coupons s)),
        official_usages := official_usages s @ [?u], official_usage_seq := official_usage_seq s + 1\<rparr>" by blast
  have us: "usages_on (ri_instanceId d) s1 = [?u]" using none u by (simp add: usages_on_def s1)
  have rest: "filter (\<lambda>u. ou_instanceId u \<noteq> Some (ri_instanceId d)) (official_usages s1) = official_usages s"
    using none u by (simp add: s1 usages_on_def filter_empty_conv filter_id_conv)
  have "return_places (int (count_where (is_purchase_of (oc_id c)) [?u])) c = c" if "ri_isRenewal d" for c
    using that by (simp add: usage_row_purchase)
  moreover have "return_places (int (count_where (is_purchase_of (oc_id x)) [?u])) x = c"
    if "\<not> ri_isRenewal d" "x = (if oc_id c = k then take_place c else c)" for x c
    using that by (auto simp: usage_row_purchase return_places_def take_place_def)
  ultimately have "map (\<lambda>c. return_places (int (count_where (is_purchase_of (oc_id c)) [?u])) c) (official_coupons s1) = official_coupons s"
    by (auto simp: s1 update_key_def update_where_def comp_def intro!: map_idI)
  then show ?thesis unfolding released_def us rest by (simp add: s1 us)
qed

text \<open>C24: A purchase that fails gives back exactly what it took: after reserving a coupon for a new instance,
  releasing the instance's usages succeeds and leaves every coupon and every usage as before, and reports the
  discount and the user of the reservation.\<close>

theorem reserve_release_roundtrip:
  assumes "coupons_wf s" and "\<forall>u\<in>set (official_usages s). ou_instanceId u \<noteq> Some (ri_instanceId d)"
    and "reserveOfficialCouponUsage now granted d s = Inr ((k, uid), s1)"
  shows "releaseOfficialCouponUsageByInstance (\<lambda>_. True) (ri_instanceId d) s1 =
    Inr (Some \<lparr>rl_couponId = k, rl_discountAmount = column 2 (ri_discountAmount d), rl_couponUser = ri_userId d\<rparr>,
      s\<lparr>official_usage_seq := official_usage_seq s + 1\<rparr>)"
proof -
  have none: "usages_on (ri_instanceId d) s = []" using assms(2) by (simp add: usages_on_def filter_empty_conv)
  have w1: "coupons_wf s1" using reserve_sound [OF assms(1,3)] by simp
  note restored = release_of_reserved [OF assms(1) none assms(3)]
  then have "usages_on (ri_instanceId d) s1 \<noteq> []" by simp
  from release_succeeds [OF w1 _ this, of "\<lambda>_. True"] obtain r
    where r: "releaseOfficialCouponUsageByInstance (\<lambda>_. True) (ri_instanceId d) s1 = Inr (Some r, released (ri_instanceId d) s1)" by auto
  then have "r = \<lparr>rl_couponId = ou_couponId (hd (usages_on (ri_instanceId d) s1)),
      rl_discountAmount = (\<Sum>u\<leftarrow>usages_on (ri_instanceId d) s1. ou_discountAmount u), rl_couponUser = ou_userId (hd (usages_on (ri_instanceId d) s1))\<rparr>"
    unfolding releaseOfficialCouponUsageByInstance_def usages_on_def [symmetric] Let_def by (auto split: if_splits option.splits sum.splits)
  with r restored show ?thesis by (simp add: usage_row_def)
qed

section \<open>Concrete coupons\<close>

definition mk_coupon :: "int \<Rightarrow> bool \<Rightarrow> int option \<Rightarrow> int option \<Rightarrow> official_coupon" where
  "mk_coupon k reusable perUser limit = \<lparr>oc_id = k, oc_code = ''OFF'', oc_name = ''n'', oc_discountRate = 1 / 10,
     oc_scope = Scope_all, oc_reusable = reusable, oc_maxUsesPerUser = perUser, oc_totalUsageLimit = limit, oc_usedCount = 0,
     oc_enabled = True, oc_startsAt = None, oc_expiresAt = None, oc_renewalMode = Mode_recurring, oc_discountedChargeLimit = None\<rparr>"

definition coupon_db :: db where
  "coupon_db = empty_db\<lparr>users := [mk_user 1 R_user 0 0, mk_user 2 R_user 0 0],
     packages := [\<lparr>ch_id = 9, ch_parent = 1, ch_flag = True\<rparr>],
     official_coupons := [mk_coupon 1 True (Some 2) (Some 5)], coupon_seq := 2\<rparr>"

definition purchase :: "int \<Rightarrow> bool \<Rightarrow> reservation_input" where
  "purchase instanceId isRenewal = \<lparr>ri_code = '' off '', ri_packageId = 9, ri_userId = 2, ri_instanceId = instanceId,
     ri_originalPrice = 10, ri_discountAmount = 1, ri_discountedMonths = 1, ri_isRenewal = isRenewal\<rparr>"

definition bought :: "int \<Rightarrow> bool \<Rightarrow> db \<Rightarrow> db" where
  "bought instanceId isRenewal s =
     (case reserveOfficialCouponUsage 5 (\<lambda>_. True) (purchase instanceId isRenewal) s of Inl e \<Rightarrow> s | Inr (r, s') \<Rightarrow> s')"

lemma coupon_db_inv: "coupons_wf coupon_db" "within_limits coupon_db"
  by (simp_all add: coupons_wf_def within_limits_def coupon_db_def mk_coupon_def empty_db_def purchases_of_def purchases_by_def
      count_where_def limit_holds_def user_limit_def resolveUserUsageLimit_def)

lemma first_purchase: "reserveOfficialCouponUsage 5 (\<lambda>_. True) (purchase 7 False) coupon_db = Inr ((1, official_usage_seq coupon_db), bought 7 False coupon_db)"
proof -
  have "(case reserveOfficialCouponUsage 5 (\<lambda>_. True) (purchase 7 False) coupon_db of Inl e \<Rightarrow> False
    | Inr (r, s') \<Rightarrow> r = (1, official_usage_seq coupon_db))" by code_simp
  then show ?thesis by (auto simp: bought_def split: sum.splits prod.splits)
qed


theorem reserve_release_roundtrip_witness:
  "releaseOfficialCouponUsageByInstance (\<lambda>_. True) 7 (bought 7 False coupon_db) =
     Inr (Some \<lparr>rl_couponId = 1, rl_discountAmount = 1, rl_couponUser = 2\<rparr>,
       coupon_db\<lparr>official_usage_seq := official_usage_seq coupon_db + 1\<rparr>)"
proof -
  have none: "\<forall>u\<in>set (official_usages coupon_db). ou_instanceId u \<noteq> Some (ri_instanceId (purchase 7 False))"
    by (simp add: coupon_db_def empty_db_def)
  have "column 2 (1 :: rat) = 1" by (simp add: to_fixed_def floor_eq_iff)
  with reserve_release_roundtrip [OF coupon_db_inv(1) none first_purchase] show ?thesis by (simp add: purchase_def)
qed

text \<open>The limit per user is compared with all of the user's usages, renewals included: with a limit of two, one purchase and one
  renewal are enough to refuse the second purchase, although renewals are said not to count.\<close>

lemma renewals_use_up_the_limit:
  "(let s = bought 7 True (bought 7 False coupon_db) in
     purchases_by 1 2 s = 1 \<and> validateOfficialCoupon 5 ''OFF'' 9 2 True True False s = Inl ''COUPON_USER_LIMIT_REACHED'')"
  by code_simp

end
