(* ===== verification/Aff.thy ===== *)
theory Aff
  imports Hosting Strings
begin

text \<open>
  The referral programme: \<open>server/src/db/aff.ts\<close> (codes and their bindings to instances, commissions
  and their reversal, the conversion of commissions into balance, the leader board). A commission is
  credited to \<open>u_affBalance\<close>, kept to cents like every amount of the programme. Whether the lock of a
  user is granted, whether the programme is switched on and the random part of a code are arguments.
\<close>

section \<open>The account of commissions\<close>

definition getAffBalance :: "int \<Rightarrow> db \<Rightarrow> rat" where
  "getAffBalance userId s = (case find_key u_id userId (users s) of None \<Rightarrow> 0 | Some user \<Rightarrow> u_affBalance user)"

definition set_aff :: "rat \<Rightarrow> user \<Rightarrow> user" where
  "set_aff v u = u\<lparr>u_affBalance := column 2 v\<rparr>"

definition put_aff :: "int \<Rightarrow> rat \<Rightarrow> db \<Rightarrow> db" where
  "put_aff k v s = s\<lparr>users := update_key u_id k (set_aff v) (users s)\<rparr>"

record aff_change =
  ax_userId :: int
  ax_type :: aff_log_type
  ax_amount :: rat
  ax_affCodeId :: "int option"
  ax_instanceId :: "int option"
  ax_originalAmount :: "rat option"
  ax_remark :: "remark option"

definition add_aff_log :: "aff_change \<Rightarrow> rat \<Rightarrow> rat \<Rightarrow> db \<Rightarrow> db" where
  "add_aff_log d before after s = s\<lparr>aff_logs := aff_logs s @
     [\<lparr>al_id = aff_log_seq s, al_userId = ax_userId d, al_affCodeId = ax_affCodeId d, al_instanceId = ax_instanceId d,
       al_mailId = None, al_type = ax_type d, al_amount = column 2 (ax_amount d),
       al_originalAmount = map_option (column 2) (ax_originalAmount d), al_before = column 2 before,
       al_after = column 2 after, al_remark = ax_remark d\<rparr>], aff_log_seq := aff_log_seq s + 1\<rparr>"

definition changeAffBalance :: "bool \<Rightarrow> aff_change \<Rightarrow> db \<Rightarrow> (rat \<times> db) outcome" where
  "changeAffBalance locked d s =
     (if \<not> locked then Inl (LockBusy USER_BALANCE_LOCK_NAMESPACE (ax_userId d))
      else case find_key u_id (ax_userId d) (users s) of
        None \<Rightarrow> Inl (Failure M_user_missing)
      | Some user \<Rightarrow>
          let balanceBefore = u_affBalance user;
              balanceAfter = balanceBefore + ax_amount d in
          if ax_amount d < 0 \<and> balanceAfter < 0 then Inl (Failure M_aff_too_low)
          else Inr (balanceAfter, add_aff_log d balanceBefore balanceAfter (put_aff (ax_userId d) balanceAfter s)))"

section \<open>Codes\<close>

text \<open>The digits of a number in a template string.\<close>

fun digits_of :: "nat \<Rightarrow> string" where
  "digits_of n = (if n < 10 then [char_of (48 + n)] else digits_of (n div 10) @ [char_of (48 + n mod 10)])"

declare digits_of.simps [simp del]

definition generateAffCode :: "string \<Rightarrow> int \<Rightarrow> string" where
  "generateAffCode random userId = ''AFF-'' @ digits_of (nat userId) @ ''-'' @ toUpperCase random"

definition new_code :: "string \<Rightarrow> int \<Rightarrow> int option \<Rightarrow> db \<Rightarrow> aff_code" where
  "new_code random userId packagePlanId s =
     \<lparr>ac_id = aff_seq s, ac_code = generateAffCode random userId, ac_userId = userId, ac_packagePlanId = packagePlanId,
      ac_discountRate = 5 / 100, ac_commissionRate = 5 / 100, ac_enabled = True, ac_usedCount = 0, ac_totalEarnings = 0\<rparr>"

text \<open>The insertion fails on the unique text of a code; the pair of a user and no plan is not unique for
  the database, where nulls differ.\<close>

definition insert_code :: "aff_code \<Rightarrow> db \<Rightarrow> (aff_code \<times> db) outcome" where
  "insert_code c s =
     (if find_key ac_code (ac_code c) (aff_codes s) \<noteq> None
        \<or> ac_packagePlanId c \<noteq> None
          \<and> find_where (\<lambda>x. ac_userId x = ac_userId c \<and> ac_packagePlanId x = ac_packagePlanId c) (aff_codes s) \<noteq> None
      then Inl UniqueViolation
      else Inr (c, s\<lparr>aff_codes := aff_codes s @ [c], aff_seq := aff_seq s + 1\<rparr>))"

definition createAffCode :: "bool \<Rightarrow> string \<Rightarrow> int \<Rightarrow> int option \<Rightarrow> db \<Rightarrow> (aff_code \<times> db) outcome" where
  "createAffCode activated random userId packagePlanId s =
     (if \<not> activated then Inl (Failure M_aff_disabled)
      else case packagePlanId of
        None \<Rightarrow>
          (case insert_code (new_code random userId None s) s of
             Inl e \<Rightarrow> Inl (Failure M_aff_code_failed) | Inr r \<Rightarrow> Inr r)
      | Some planId \<Rightarrow>
          (case find_key pn_id planId (plans s) of
             None \<Rightarrow> Inl (Failure M_aff_plan_unpaid)
           | Some plan \<Rightarrow>
               if pn_price plan \<le> 0 then Inl (Failure M_aff_plan_unpaid)
               else if \<not> pn_isActive plan then Inl (Failure M_plan_inactive)
               else if count_where (\<lambda>i. i_userId i = userId \<and> i_packagePlanId i = Some planId) (instances s) = 0
               then Inl (Failure M_aff_not_bought)
               else if find_where (\<lambda>c. ac_userId c = userId \<and> ac_packagePlanId c = Some planId) (aff_codes s) \<noteq> None
               then Inl (Failure M_aff_code_exists)
               else insert_code (new_code random userId (Some planId) s) s))"

definition deleteAffCode :: "int \<Rightarrow> int \<Rightarrow> db \<Rightarrow> (string \<times> db) outcome" where
  "deleteAffCode userId codeId s =
     (case find_key ac_id codeId (aff_codes s) of
        None \<Rightarrow> Inl (Failure M_aff_code_missing)
      | Some c \<Rightarrow>
          if ac_userId c \<noteq> userId then Inl (Failure M_aff_not_owner)
          else if ac_usedCount c > 0 then Inl (Failure M_aff_code_used)
          else if count_where (\<lambda>b. ab_affCodeId b = codeId) (aff_bindings s) > 0 then Inl (Failure M_aff_code_bound)
          else Inr (ac_code c, s\<lparr>aff_codes := delete_where (\<lambda>x. ac_id x = codeId) (aff_codes s),
            aff_logs := map (\<lambda>l. if al_affCodeId l = Some codeId then l\<lparr>al_affCodeId := None\<rparr> else l) (aff_logs s)\<rparr>))"

definition validateAffCode :: "bool \<Rightarrow> string \<Rightarrow> int \<Rightarrow> int \<Rightarrow> db \<Rightarrow> exn + aff_code" where
  "validateAffCode activated code packagePlanId userId s =
     (if \<not> activated then Inl (Failure M_aff_disabled)
      else case find_key ac_code (toUpperCase code) (aff_codes s) of
        None \<Rightarrow> Inl (Failure M_aff_code_missing)
      | Some c \<Rightarrow>
          if \<not> ac_enabled c then Inl (Failure M_aff_code_off)
          else if ac_packagePlanId c \<noteq> None \<and> ac_packagePlanId c \<noteq> Some packagePlanId
          then Inl (Failure M_aff_other_plan)
          else if ac_userId c = userId then Inl (Failure M_aff_own_code)
          else Inr c)"

section \<open>Bindings\<close>

definition createAffBinding :: "int \<Rightarrow> int \<Rightarrow> bool \<Rightarrow> db \<Rightarrow> db outcome" where
  "createAffBinding instanceId affCodeId supersedes s =
     (if find_key ab_instanceId instanceId (aff_bindings s) \<noteq> None then Inl UniqueViolation
      else Inr (s\<lparr>aff_bindings := aff_bindings s @
        [\<lparr>ab_instanceId = instanceId, ab_affCodeId = affCodeId, ab_supersedes = supersedes\<rparr>]\<rparr>))"

definition getInstanceAffBinding :: "int \<Rightarrow> db \<Rightarrow> (aff_code \<times> bool) option" where
  "getInstanceAffBinding instanceId s =
     (case find_key ab_instanceId instanceId (aff_bindings s) of
        None \<Rightarrow> None
      | Some b \<Rightarrow> map_option (\<lambda>c. (c, ab_supersedes b)) (find_key ac_id (ab_affCodeId b) (aff_codes s)))"

record binding_result =
  bg_replaced :: bool
  bg_previousCode :: "string option"
  bg_currentCode :: string

definition applyInstanceAffBinding :: "bool \<Rightarrow> int \<Rightarrow> int \<Rightarrow> string \<Rightarrow> db \<Rightarrow> (binding_result \<times> db) outcome" where
  "applyInstanceAffBinding locked instanceId affCodeId affCode s =
     (if \<not> locked then Inl (LockBusy INSTANCE_OPERATION_LOCK_NAMESPACE instanceId)
      else case find_key ab_instanceId instanceId (aff_bindings s) of
        None \<Rightarrow>
          Inr (\<lparr>bg_replaced = False, bg_previousCode = None, bg_currentCode = affCode\<rparr>,
            s\<lparr>aff_bindings := aff_bindings s @
              [\<lparr>ab_instanceId = instanceId, ab_affCodeId = affCodeId, ab_supersedes = True\<rparr>]\<rparr>)
      | Some b \<Rightarrow>
          let code = (case find_key ac_id (ab_affCodeId b) (aff_codes s) of None \<Rightarrow> '''' | Some c \<Rightarrow> ac_code c) in
          if ab_affCodeId b = affCodeId
          then Inr (\<lparr>bg_replaced = False, bg_previousCode = Some code, bg_currentCode = code\<rparr>,
            if \<not> ab_supersedes b
            then s\<lparr>aff_bindings := update_key ab_instanceId instanceId (\<lambda>x. x\<lparr>ab_supersedes := True\<rparr>) (aff_bindings s)\<rparr>
            else s)
          else Inr (\<lparr>bg_replaced = True, bg_previousCode = Some code, bg_currentCode = affCode\<rparr>,
            s\<lparr>aff_bindings := update_key ab_instanceId instanceId
              (\<lambda>x. x\<lparr>ab_affCodeId := affCodeId, ab_supersedes := True\<rparr>) (aff_bindings s)\<rparr>))"

section \<open>Commissions\<close>

definition commission_of :: "rat \<Rightarrow> rat \<Rightarrow> rat" where
  "commission_of originalAmount commissionRate = of_int (js_round (originalAmount * commissionRate * 100)) / 100"

definition earn :: "bool \<Rightarrow> rat \<Rightarrow> aff_code \<Rightarrow> aff_code" where
  "earn isNew commission c = c\<lparr>ac_usedCount := (if isNew then ac_usedCount c + 1 else ac_usedCount c),
     ac_totalEarnings := column 2 (ac_totalEarnings c + commission)\<rparr>"

definition commission_change :: "aff_code \<Rightarrow> int \<Rightarrow> rat \<Rightarrow> bool \<Rightarrow> aff_change" where
  "commission_change c instanceId originalAmount isNew =
     \<lparr>ax_userId = ac_userId c, ax_type = (if isNew then AL_new_purchase else AL_renew),
      ax_amount = commission_of originalAmount (ac_commissionRate c), ax_affCodeId = Some (ac_id c),
      ax_instanceId = Some instanceId, ax_originalAmount = Some originalAmount, ax_remark = Some (R_aff_commission isNew)\<rparr>"

definition processAffCommission :: "bool \<Rightarrow> int \<Rightarrow> int \<Rightarrow> rat \<Rightarrow> bool \<Rightarrow> db \<Rightarrow> db outcome" where
  "processAffCommission locked affCodeId instanceId originalAmount isNew s =
     (case find_key ac_id affCodeId (aff_codes s) of
        None \<Rightarrow> Inr s
      | Some affCode \<Rightarrow>
          let commission = commission_of originalAmount (ac_commissionRate affCode) in
          if commission \<le> 0 then Inr s
          else case changeAffBalance locked (commission_change affCode instanceId originalAmount isNew) s of
            Inl e \<Rightarrow> Inl e
          | Inr (_, s') \<Rightarrow> Inr (s'\<lparr>aff_codes := update_key ac_id affCodeId (earn isNew commission) (aff_codes s')\<rparr>))"

definition unearn :: "rat \<Rightarrow> aff_code \<Rightarrow> aff_code" where
  "unearn amount c = c\<lparr>ac_totalEarnings := column 2 (ac_totalEarnings c - amount),
     ac_usedCount := (if ac_usedCount c > 0 then ac_usedCount c - 1 else ac_usedCount c)\<rparr>"

definition reversal :: "int \<Rightarrow> aff_log \<Rightarrow> aff_log \<Rightarrow> bool" where
  "reversal instanceId l r \<longleftrightarrow>
     al_instanceId r = Some instanceId \<and> al_type r = AL_refund \<and> al_remark r = Some (R_aff_reversal (al_id l))"

definition take_back :: "int \<Rightarrow> aff_log \<Rightarrow> rat \<Rightarrow> db \<Rightarrow> db" where
  "take_back instanceId l balanceBefore s =
     (let amount = al_amount l;
          balanceAfter = balanceBefore - amount;
          s1 = add_aff_log \<lparr>ax_userId = al_userId l, ax_type = AL_refund, ax_amount = - amount,
            ax_affCodeId = al_affCodeId l, ax_instanceId = Some instanceId, ax_originalAmount = al_originalAmount l,
            ax_remark = Some (R_aff_reversal (al_id l))\<rparr> balanceBefore balanceAfter (put_aff (al_userId l) balanceAfter s) in
      case al_affCodeId l of
        None \<Rightarrow> s1
      | Some codeId \<Rightarrow> s1\<lparr>aff_codes := update_key ac_id codeId (unearn amount) (aff_codes s1)\<rparr>)"

fun reverse_all :: "int \<Rightarrow> aff_log list \<Rightarrow> nat \<Rightarrow> db \<Rightarrow> (nat \<times> db) outcome" where
  "reverse_all instanceId [] reversed s = Inr (reversed, s)"
| "reverse_all instanceId (l # ls) reversed s =
     (if find_where (reversal instanceId l) (aff_logs s) \<noteq> None then reverse_all instanceId ls reversed s
      else case find_key u_id (al_userId l) (users s) of
        None \<Rightarrow> Inl (Failure (M_user_vanished (al_userId l)))
      | Some user \<Rightarrow> reverse_all instanceId ls (reversed + 1) (take_back instanceId l (u_affBalance user) s))"

definition commission_log :: "int \<Rightarrow> aff_log \<Rightarrow> bool" where
  "commission_log instanceId l \<longleftrightarrow> al_instanceId l = Some instanceId \<and> al_type l = AL_new_purchase \<and> al_amount l > 0"

definition reverseAffCommissionForInstance :: "int \<Rightarrow> db \<Rightarrow> (nat \<times> db) outcome" where
  "reverseAffCommissionForInstance instanceId s =
     reverse_all instanceId (sort_key al_id (filter (commission_log instanceId) (aff_logs s))) 0 s"

section \<open>Conversion\<close>

text \<open>The four statements that move an amount from the commissions of a user to the balance.\<close>

definition convert_aff :: "int \<Rightarrow> rat \<Rightarrow> int \<Rightarrow> user \<Rightarrow> db \<Rightarrow> db" where
  "convert_aff userId amount withdrawalId user s =
     add_log (mk_log userId BL_gift amount (u_balance user) (u_balance user + amount) None None None
         (Some (R_aff_to_balance withdrawalId)))
       (put_balance userId (u_balance user + amount)
         (add_aff_log \<lparr>ax_userId = userId, ax_type = AL_convert, ax_amount = - amount, ax_affCodeId = None, ax_instanceId = None,
             ax_originalAmount = None, ax_remark = Some (R_aff_convert withdrawalId)\<rparr>
             (u_affBalance user) (u_affBalance user - amount)
           (put_aff userId (u_affBalance user - amount) s)))"

definition createAffWithdrawal :: "int \<Rightarrow> bool \<Rightarrow> int \<Rightarrow> rat \<Rightarrow> db \<Rightarrow> (aff_withdrawal \<times> db) outcome" where
  "createAffWithdrawal now locked userId amount s =
     (if amount < 1 / 10 then Inl (Failure M_aff_minimum)
      else if \<not> locked then Inl (LockBusy USER_BALANCE_LOCK_NAMESPACE userId)
      else case find_key u_id userId (users s) of
        None \<Rightarrow> Inl (Failure M_user_missing)
      | Some user \<Rightarrow>
          if u_affBalance user < amount then Inl (Failure M_aff_too_low)
          else
            let w = \<lparr>aw_id = withdrawal_seq s, aw_userId = userId, aw_amount = column 2 amount, aw_status = AW_approved,
              aw_rejectReason = None, aw_reviewedBy = None, aw_reviewedAt = Some now\<rparr> in
            Inr (w, convert_aff userId amount (aw_id w) user
              (s\<lparr>aff_withdrawals := aff_withdrawals s @ [w], withdrawal_seq := withdrawal_seq s + 1\<rparr>)))"

definition approve_row :: "int \<Rightarrow> int \<Rightarrow> aff_withdrawal \<Rightarrow> aff_withdrawal" where
  "approve_row now adminId w = w\<lparr>aw_status := AW_approved, aw_reviewedBy := Some adminId, aw_reviewedAt := Some now\<rparr>"

definition approveAffWithdrawal :: "int \<Rightarrow> bool \<Rightarrow> int \<Rightarrow> int \<Rightarrow> db \<Rightarrow> db outcome" where
  "approveAffWithdrawal now locked withdrawalId adminId s =
     (case find_key aw_id withdrawalId (aff_withdrawals s) of
        None \<Rightarrow> Inl (Failure M_withdrawal_missing)
      | Some w \<Rightarrow>
          if \<not> locked then Inl (LockBusy USER_BALANCE_LOCK_NAMESPACE (aw_userId w))
          else if aw_status w \<noteq> AW_pending then Inl (Failure M_withdrawal_done)
          else case find_key u_id (aw_userId w) (users s) of
            None \<Rightarrow> Inl (Failure M_withdrawal_missing)
          | Some user \<Rightarrow>
              if u_affBalance user < aw_amount w then Inl (Failure M_aff_too_low)
              else
                let s1 = convert_aff (aw_userId w) (aw_amount w) withdrawalId user s;
                    hit = (\<lambda>x. aw_id x = withdrawalId \<and> aw_status x = AW_pending) in
                if count_where hit (aff_withdrawals s1) \<noteq> 1 then Inl (Failure M_withdrawal_done)
                else Inr (s1\<lparr>aff_withdrawals := update_where hit (approve_row now adminId) (aff_withdrawals s1)\<rparr>))"

definition reject_row :: "int \<Rightarrow> int \<Rightarrow> string \<Rightarrow> aff_withdrawal \<Rightarrow> aff_withdrawal" where
  "reject_row now adminId reason w = w\<lparr>aw_status := AW_rejected, aw_rejectReason := Some reason,
     aw_reviewedBy := Some adminId, aw_reviewedAt := Some now\<rparr>"

definition rejectAffWithdrawal :: "int \<Rightarrow> int \<Rightarrow> int \<Rightarrow> string \<Rightarrow> db \<Rightarrow> db outcome" where
  "rejectAffWithdrawal now withdrawalId adminId reason s =
     (let hit = (\<lambda>x. aw_id x = withdrawalId \<and> aw_status x = AW_pending) in
      if count_where hit (aff_withdrawals s) \<noteq> 1
      then (case find_key aw_id withdrawalId (aff_withdrawals s) of
              None \<Rightarrow> Inl (Failure M_withdrawal_missing) | Some _ \<Rightarrow> Inl (Failure M_withdrawal_done))
      else Inr (s\<lparr>aff_withdrawals := update_where hit (reject_row now adminId reason) (aff_withdrawals s)\<rparr>))"

section \<open>Statistics\<close>

record aff_stats =
  as_totalEarnings :: rat
  as_totalConverted :: rat
  as_currentBalance :: rat
  as_totalCodes :: nat
  as_totalUsed :: int

definition getAffStats :: "int \<Rightarrow> db \<Rightarrow> aff_stats" where
  "getAffStats userId s =
     (let mine = filter (\<lambda>l. al_userId l = userId) (aff_logs s);
          own = filter (\<lambda>c. ac_userId c = userId) (aff_codes s) in
      \<lparr>as_totalEarnings = (\<Sum>l\<leftarrow>filter (\<lambda>l. al_type l \<in> {AL_new_purchase, AL_renew, AL_refund}) mine. al_amount l),
       as_totalConverted = \<bar>\<Sum>l\<leftarrow>filter (\<lambda>l. al_type l = AL_convert) mine. al_amount l\<bar>,
       as_currentBalance = getAffBalance userId s, as_totalCodes = length own,
       as_totalUsed = (\<Sum>c\<leftarrow>own. ac_usedCount c)\<rparr>)"

definition maskUsername :: "string \<Rightarrow> string" where
  "maskUsername username =
     (if length username \<le> 4 then take 1 username @ ''***''
      else take 2 username @ ''***'' @ drop (length username - 2) username)"

section \<open>The ledger of commissions\<close>

definition aff_entries :: "db \<Rightarrow> (int \<times> rat \<times> rat) list" where
  "aff_entries s = map (\<lambda>l. (al_userId l, al_before l, al_after l)) (aff_logs s)"

definition aff_of :: "db \<Rightarrow> int \<Rightarrow> rat" where
  "aff_of s k = getAffBalance k s"

definition reversal_seen :: "int \<Rightarrow> aff_log \<Rightarrow> bool" where
  "reversal_seen n l \<longleftrightarrow> (\<forall>j. al_remark l = Some (R_aff_reversal j) \<longrightarrow> j < n)"

definition aff_wf :: "db \<Rightarrow> bool" where
  "aff_wf s \<longleftrightarrow> distinct (map u_id (users s)) \<and> (\<forall>u\<in>set (users s). has_scale 2 (u_affBalance u))
     \<and> distinct (map ac_id (aff_codes s)) \<and> (\<forall>c\<in>set (aff_codes s). has_scale 2 (ac_totalEarnings c) \<and> 0 \<le> ac_usedCount c \<and> ac_id c < aff_seq s)
     \<and> distinct (map al_id (aff_logs s))
     \<and> (\<forall>l\<in>set (aff_logs s). al_id l < aff_log_seq s \<and> has_scale 2 (al_amount l) \<and> reversal_seen (aff_log_seq s) l)"

lemma set_aff_simps [simp]:
  "u_id (set_aff v u) = u_id u" "u_affBalance (set_aff v u) = column 2 v" "u_balance (set_aff v u) = u_balance u"
  "u_affBalance (set_balance w u) = u_affBalance u"
  by (simp_all add: set_aff_def set_balance_def)

lemma put_aff_simps [simp]:
  "users (put_aff k v s) = update_key u_id k (set_aff v) (users s)" "aff_logs (put_aff k v s) = aff_logs s"
  "aff_codes (put_aff k v s) = aff_codes s" "aff_log_seq (put_aff k v s) = aff_log_seq s" "aff_seq (put_aff k v s) = aff_seq s"
  "balance_logs (put_aff k v s) = balance_logs s"
  by (simp_all add: put_aff_def)

lemma add_aff_log_simps [simp]:
  "users (add_aff_log d b a s) = users s" "aff_codes (add_aff_log d b a s) = aff_codes s"
  "aff_seq (add_aff_log d b a s) = aff_seq s" "aff_log_seq (add_aff_log d b a s) = aff_log_seq s + 1"
  "balance_logs (add_aff_log d b a s) = balance_logs s"
  by (simp_all add: add_aff_log_def)

lemma aff_fields_of_balance [simp]:
  "aff_logs (put_balance k v s) = aff_logs s" "aff_logs (add_log e s) = aff_logs s"
  "aff_codes (put_balance k v s) = aff_codes s" "aff_codes (add_log e s) = aff_codes s"
  "aff_log_seq (put_balance k v s) = aff_log_seq s" "aff_log_seq (add_log e s) = aff_log_seq s"
  "aff_seq (put_balance k v s) = aff_seq s" "aff_seq (add_log e s) = aff_seq s"
  by (simp_all add: put_balance_def add_log_def)

lemma aff_of_put:
  "find_key u_id k (users s) = Some u \<Longrightarrow> aff_of (put_aff k v s) j = (if j = k then column 2 v else aff_of s j)"
  by (simp add: aff_of_def getAffBalance_def find_key_update_key)

lemma aff_of_cong: "users s = users s' \<Longrightarrow> aff_of s k = aff_of s' k"
  by (simp add: aff_of_def getAffBalance_def)

lemma aff_of_put_balance [simp]: "aff_of (put_balance k v s) j = aff_of s j"
  by (cases "find_key u_id j (users s)") (auto simp: aff_of_def getAffBalance_def find_key_update_key)

lemma aff_of_Some: "find_key u_id k (users s) = Some u \<Longrightarrow> aff_of s k = u_affBalance u"
  by (simp add: aff_of_def getAffBalance_def)

lemma aff_scale: "aff_wf s \<Longrightarrow> find_key u_id k (users s) = Some u \<Longrightarrow> has_scale 2 (u_affBalance u)"
  by (auto simp: aff_wf_def dest: find_key_SomeD)

definition aff_logged :: "db \<Rightarrow> db \<Rightarrow> bool" where
  "aff_logged s s' \<longleftrightarrow> (\<exists>es. aff_entries s' = aff_entries s @ es \<and> posted (aff_of s) es (aff_of s'))"

lemma aff_logged_trans: "aff_logged s s' \<Longrightarrow> aff_logged s' s'' \<Longrightarrow> aff_logged s s''"
  unfolding aff_logged_def by (metis append.assoc posted_append)

lemma aff_logged_frame:
  assumes "aff_entries s' = aff_entries s" and "\<And>k. aff_of s' k = aff_of s k"
  shows "aff_logged s s'"
  unfolding aff_logged_def by (rule exI [of _ "[]"]) (simp add: assms ext)

text \<open>One account set, one entry written.\<close>

lemma booked_aff:
  assumes w: "aff_wf s" and u: "find_key u_id (ax_userId d) (users s) = Some u"
    and s': "s' = add_aff_log d (u_affBalance u) v (put_aff (ax_userId d) v s)"
    and r: "\<forall>j. ax_remark d = Some (R_aff_reversal j) \<longrightarrow> j < aff_log_seq s"
  shows "aff_logged s s' \<and> aff_wf s'"
proof
  have "posted (aff_of s) [(ax_userId d, u_affBalance u, column 2 v)] (aff_of s')"
    by (auto simp: posted_def s' aff_of_cong [of "add_aff_log d b a x" x for b a x] aff_of_put [OF u] aff_of_Some [OF u])
  then show "aff_logged s s'" using aff_scale [OF w u]
    unfolding aff_logged_def by (intro exI [of _ "[(ax_userId d, u_affBalance u, column 2 v)]"])
      (simp add: s' aff_entries_def add_aff_log_def to_fixed_id)
  have sc: "has_scale 2 (u_affBalance x)" if "x \<in> set (update_key u_id (ax_userId d) (set_aff v) (users s))" for x
    using that w by (auto simp: aff_wf_def elim!: set_update_keyE)
  have seen: "reversal_seen (aff_log_seq s + 1) l" if "reversal_seen (aff_log_seq s) l" for l
    using that by (auto simp: reversal_seen_def)
  have new: "al_id l < aff_log_seq s \<or> al_id l = aff_log_seq s" "has_scale 2 (al_amount l) \<and> reversal_seen (aff_log_seq s + 1) l"
    if "l \<in> set (aff_logs s')" for l
    using that w seen r by (auto simp: aff_wf_def s' add_aff_log_def reversal_seen_def)
  have ids: "distinct (map al_id (aff_logs s'))" using w by (auto simp: aff_wf_def s' add_aff_log_def)
  show "aff_wf s'"
    unfolding aff_wf_def
  proof (intro conjI)
    show "\<forall>l\<in>set (aff_logs s'). al_id l < aff_log_seq s' \<and> has_scale 2 (al_amount l) \<and> reversal_seen (aff_log_seq s') l"
      using new by (force simp: s')
  qed (use w sc ids in \<open>simp_all add: aff_wf_def s' map_update_key\<close>)
qed

text \<open>Codes may change in their counters without touching the ledger.\<close>

lemma aff_codes_frame:
  assumes "aff_wf s" and "\<And>c. ac_id (f c) = ac_id c"
    and "\<And>c. has_scale 2 (ac_totalEarnings c) \<Longrightarrow> 0 \<le> ac_usedCount c \<Longrightarrow> has_scale 2 (ac_totalEarnings (f c)) \<and> 0 \<le> ac_usedCount (f c)"
    and s': "s' = s\<lparr>aff_codes := update_key ac_id k f (aff_codes s)\<rparr>"
  shows "aff_logged s s' \<and> aff_wf s'"
proof
  show "aff_logged s s'" by (rule aff_logged_frame) (simp_all add: s' aff_entries_def aff_of_def getAffBalance_def)
  have "map ac_id (update_key ac_id k f (aff_codes s)) = map ac_id (aff_codes s)" using assms(2) by (intro map_update_key)
  moreover have "has_scale 2 (ac_totalEarnings c) \<and> 0 \<le> ac_usedCount c \<and> ac_id c < aff_seq s" if "c \<in> set (update_key ac_id k f (aff_codes s))" for c
    using that assms(1-3) by (auto simp: aff_wf_def elim!: set_update_keyE)
  ultimately show "aff_wf s'" using assms(1) by (simp add: aff_wf_def s')
qed

lemma earn_simps [simp]: "ac_id (earn b x c) = ac_id c" "ac_id (unearn x c) = ac_id c"
  by (simp_all add: earn_def unearn_def)

lemma changeAff_cases:
  assumes "changeAffBalance locked d s = Inr (b, s')"
  obtains u where "find_key u_id (ax_userId d) (users s) = Some u" "b = u_affBalance u + ax_amount d" "locked"
    "s' = add_aff_log d (u_affBalance u) b (put_aff (ax_userId d) b s)" "0 \<le> ax_amount d \<or> 0 \<le> b"
  using assms by (auto simp: changeAffBalance_def Let_def not_less split: if_splits option.splits)

lemma commission_sound:
  assumes w: "aff_wf s" and run: "processAffCommission locked k i a new s = Inr s'"
  shows "aff_logged s s' \<and> aff_wf s'"
proof (cases "s' = s")
  case True
  then show ?thesis using w by (simp add: aff_logged_frame)
next
  case False
  with run obtain c b s1 where c: "find_key ac_id k (aff_codes s) = Some c"
    and ch: "changeAffBalance locked (commission_change c i a new) s = Inr (b, s1)"
    and s': "s' = s1\<lparr>aff_codes := update_key ac_id k (earn new (commission_of a (ac_commissionRate c))) (aff_codes s1)\<rparr>"
    by (auto simp: processAffCommission_def Let_def split: option.splits if_splits sum.splits)
  have r: "\<forall>j. ax_remark (commission_change c i a new) = Some (R_aff_reversal j) \<longrightarrow> j < aff_log_seq s"
    by (simp add: commission_change_def)
  from ch have 1: "aff_logged s s1 \<and> aff_wf s1"
    by (rule changeAff_cases) (rule booked_aff [OF w _ _ r], auto)
  have "aff_logged s1 s' \<and> aff_wf s'"
    using 1 s' by (intro aff_codes_frame [where f = "earn new (commission_of a (ac_commissionRate c))"]) (auto simp: earn_def)
  with 1 show ?thesis using aff_logged_trans by blast
qed

section \<open>Reversals\<close>

lemma take_back_sound:
  assumes w: "aff_wf s" and u: "find_key u_id (al_userId l) (users s) = Some u" and l: "l \<in> set (aff_logs s)"
  shows "aff_logged s (take_back i l (u_affBalance u) s) \<and> aff_wf (take_back i l (u_affBalance u) s)"
proof -
  define d where "d = \<lparr>ax_userId = al_userId l, ax_type = AL_refund, ax_amount = - al_amount l, ax_affCodeId = al_affCodeId l,
    ax_instanceId = Some i, ax_originalAmount = al_originalAmount l, ax_remark = Some (R_aff_reversal (al_id l))\<rparr>"
  define s1 where "s1 = add_aff_log d (u_affBalance u) (u_affBalance u - al_amount l) (put_aff (al_userId l) (u_affBalance u - al_amount l) s)"
  have "aff_logged s s1 \<and> aff_wf s1"
    using w u l by (intro booked_aff [where d = d and u = u and v = "u_affBalance u - al_amount l"])
      (auto simp: s1_def d_def aff_wf_def)
  moreover have "take_back i l (u_affBalance u) s = (case al_affCodeId l of None \<Rightarrow> s1
      | Some codeId \<Rightarrow> s1\<lparr>aff_codes := update_key ac_id codeId (unearn (al_amount l)) (aff_codes s1)\<rparr>)"
    by (cases "al_affCodeId l") (simp_all add: take_back_def s1_def d_def Let_def)
  moreover have "aff_logged s1 (s1\<lparr>aff_codes := update_key ac_id k (unearn (al_amount l)) (aff_codes s1)\<rparr>)
      \<and> aff_wf (s1\<lparr>aff_codes := update_key ac_id k (unearn (al_amount l)) (aff_codes s1)\<rparr>)" if "aff_wf s1" for k
    using that by (intro aff_codes_frame [where f = "unearn (al_amount l)" and k = k]) (auto simp: unearn_def)
  ultimately show ?thesis using aff_logged_trans by (auto split: option.splits)
qed

definition reversal_row :: "int \<Rightarrow> aff_log \<Rightarrow> rat \<Rightarrow> int \<Rightarrow> aff_log" where
  "reversal_row i l before n = \<lparr>al_id = n, al_userId = al_userId l, al_affCodeId = al_affCodeId l, al_instanceId = Some i, al_mailId = None,
     al_type = AL_refund, al_amount = column 2 (- al_amount l), al_originalAmount = map_option (column 2) (al_originalAmount l),
     al_before = column 2 before, al_after = column 2 (before - al_amount l), al_remark = Some (R_aff_reversal (al_id l))\<rparr>"

lemma take_back_fields:
  "aff_logs (take_back i l b s) = aff_logs s @ [reversal_row i l b (aff_log_seq s)]"
  "users (take_back i l b s) = update_key u_id (al_userId l) (set_aff (b - al_amount l)) (users s)"
  by (simp_all add: take_back_def reversal_row_def add_aff_log_def put_aff_def Let_def split: option.splits)

lemma reversal_row_not_commission [simp]: "\<not> commission_log i (reversal_row j l b n)"
  by (simp add: commission_log_def reversal_row_def)

lemma reversal_row_iff: "reversal i x (reversal_row j l b n) \<longleftrightarrow> i = j \<and> al_id x = al_id l"
  by (auto simp: reversal_def reversal_row_def)

definition unreversed :: "int \<Rightarrow> db \<Rightarrow> aff_log \<Rightarrow> bool" where
  "unreversed i s l \<longleftrightarrow> find_where (reversal i l) (aff_logs s) = None"

lemma unreversed_take_back: "unreversed i (take_back i l b s) x \<longleftrightarrow> unreversed i s x \<and> al_id x \<noteq> al_id l"
  by (auto simp: unreversed_def find_where_None take_back_fields reversal_row_iff)

definition due_back :: "int \<Rightarrow> aff_log list \<Rightarrow> rat" where
  "due_back k ls = (\<Sum>l\<leftarrow>filter (\<lambda>l. al_userId l = k) ls. al_amount l)"

lemma due_back_Cons: "due_back k (l # ls) = (if al_userId l = k then al_amount l else 0) + due_back k ls"
  by (simp add: due_back_def)

text \<open>What the loop does: it takes back each commission not reversed before, once.\<close>

lemma reverse_all_effect:
  assumes "reverse_all i ls n s = Inr (m, s')" and "aff_wf s" and "distinct (map al_id ls)" and "set ls \<subseteq> set (aff_logs s)"
  shows "aff_logged s s' \<and> aff_wf s' \<and> m = n + length (filter (unreversed i s) ls)
    \<and> (\<forall>k. aff_of s' k = aff_of s k - due_back k (filter (unreversed i s) ls))
    \<and> filter (commission_log i) (aff_logs s') = filter (commission_log i) (aff_logs s)
    \<and> (\<forall>x. unreversed i s' x \<longleftrightarrow> unreversed i s x \<and> al_id x \<notin> al_id ` set ls)"
  using assms
proof (induction ls arbitrary: n s)
  case Nil
  then show ?case by (simp add: aff_logged_frame due_back_def)
next
  case (Cons l ls)
  show ?case
  proof (cases "unreversed i s l")
    case False
    with Cons.prems(1) have "reverse_all i ls n s = Inr (m, s')" by (simp add: unreversed_def)
    from Cons.IH [OF this Cons.prems(2)] Cons.prems(3,4)
    have ih: "aff_logged s s' \<and> aff_wf s' \<and> m = n + length (filter (unreversed i s) ls)
      \<and> (\<forall>k. aff_of s' k = aff_of s k - due_back k (filter (unreversed i s) ls))
      \<and> filter (commission_log i) (aff_logs s') = filter (commission_log i) (aff_logs s)
      \<and> (\<forall>x. unreversed i s' x \<longleftrightarrow> unreversed i s x \<and> al_id x \<notin> al_id ` set ls)" by simp
    have "\<not> unreversed i s x" if "al_id x = al_id l" for x
    proof -
      have "reversal i x = reversal i l" using that by (intro ext) (simp add: reversal_def)
      with False show ?thesis by (simp add: unreversed_def)
    qed
    with ih False show ?thesis by auto
  next
    case True
    with Cons.prems(1) obtain u where u: "find_key u_id (al_userId l) (users s) = Some u"
      and run: "reverse_all i ls (n + 1) (take_back i l (u_affBalance u) s) = Inr (m, s')"
      by (auto simp: unreversed_def split: option.splits)
    let ?t = "take_back i l (u_affBalance u) s"
    have l: "l \<in> set (aff_logs s)" using Cons.prems(4) by simp
    note t = take_back_sound [OF Cons.prems(2) u l, of i]
    have fresh: "al_id l \<notin> al_id ` set ls" using Cons.prems(3) by simp
    have same: "filter (unreversed i ?t) ls = filter (unreversed i s) ls"
    proof (rule filter_cong [OF refl])
      fix x assume "x \<in> set ls"
      then have "al_id x \<noteq> al_id l" using fresh by (metis imageI)
      then show "unreversed i ?t x = unreversed i s x" by (simp add: unreversed_take_back)
    qed
    from Cons.IH [OF run] t Cons.prems(3,4)
    have ih: "aff_logged ?t s' \<and> aff_wf s' \<and> m = n + 1 + length (filter (unreversed i s) ls)
      \<and> (\<forall>k. aff_of s' k = aff_of ?t k - due_back k (filter (unreversed i s) ls))
      \<and> filter (commission_log i) (aff_logs s') = filter (commission_log i) (aff_logs ?t)
      \<and> (\<forall>x. unreversed i s' x \<longleftrightarrow> unreversed i ?t x \<and> al_id x \<notin> al_id ` set ls)"
      unfolding same [symmetric] by (simp add: take_back_fields subset_iff)
    have sc: "has_scale 2 (u_affBalance u - al_amount l)"
      using aff_scale [OF Cons.prems(2) u] Cons.prems(2) l by (auto simp: aff_wf_def)
    have "aff_of ?t k = aff_of s k - (if al_userId l = k then al_amount l else 0)" for k
      using sc u by (auto simp: aff_of_def getAffBalance_def take_back_fields find_key_update_key to_fixed_id)
    with ih t True show ?thesis
      using aff_logged_trans by (auto simp: due_back_Cons unreversed_take_back take_back_fields)
  qed
qed

lemma reverse_all_none:
  "\<forall>l\<in>set ls. \<not> unreversed i s l \<Longrightarrow> reverse_all i ls n s = Inr (n, s)"
  by (induction ls) (auto simp: unreversed_def)

definition open_commissions :: "int \<Rightarrow> db \<Rightarrow> aff_log list" where
  "open_commissions i s = filter (unreversed i s) (sort_key al_id (filter (commission_log i) (aff_logs s)))"

lemma reverse_effect:
  assumes w: "aff_wf s" and run: "reverseAffCommissionForInstance i s = Inr (n, s')"
  shows "aff_logged s s' \<and> aff_wf s' \<and> n = length (open_commissions i s)
    \<and> (\<forall>k. aff_of s' k = aff_of s k - due_back k (open_commissions i s)) \<and> open_commissions i s' = []"
proof -
  let ?ls = "sort_key al_id (filter (commission_log i) (aff_logs s))"
  have "distinct (map al_id (filter (commission_log i) (aff_logs s)))" using w by (simp add: aff_wf_def distinct_map_filter)
  then have d: "distinct (map al_id ?ls)" by (simp add: distinct_map)
  note r = reverse_all_effect [OF run [unfolded reverseAffCommissionForInstance_def] w d]
  then have "filter (unreversed i s') (sort_key al_id (filter (commission_log i) (aff_logs s'))) = []"
    by (auto simp: filter_empty_conv)
  with r show ?thesis by (auto simp: open_commissions_def)
qed

lemma reverse_again:
  assumes "open_commissions i s = []"
  shows "reverseAffCommissionForInstance i s = Inr (0, s)"
  unfolding reverseAffCommissionForInstance_def using assms
  by (intro reverse_all_none) (simp add: open_commissions_def filter_empty_conv)

section \<open>Conversions\<close>

lemma convert_fields:
  "users (convert_aff k a n u s) = update_key u_id k (set_balance (u_balance u + a)) (update_key u_id k (set_aff (u_affBalance u - a)) (users s))"
  "aff_codes (convert_aff k a n u s) = aff_codes s" "aff_withdrawals (convert_aff k a n u s) = aff_withdrawals s"
  by (simp_all add: convert_aff_def add_log_def put_balance_def add_aff_log_def put_aff_def)

lemma convert_effect:
  assumes w: "aff_wf s" and b: "balances_wf s" and u: "find_key u_id k (users s) = Some u" and a: "has_scale 2 a"
    and s': "s' = convert_aff k a n u s"
  shows "aff_logged s s' \<and> aff_wf s' \<and> balance_logged s s' \<and> balances_wf s'
    \<and> (\<forall>j. aff_of s' j = aff_of s j - (if j = k then a else 0)) \<and> (\<forall>j. balance_of s' j = balance_of s j + (if j = k then a else 0))"
proof -
  define d where "d = \<lparr>ax_userId = k, ax_type = AL_convert, ax_amount = - a, ax_affCodeId = None, ax_instanceId = None,
      ax_originalAmount = None, ax_remark = Some (R_aff_convert n)\<rparr>"
  define s1 where "s1 = add_aff_log d (u_affBalance u) (u_affBalance u - a) (put_aff k (u_affBalance u - a) s)"
  define s2 where "s2 = add_log (mk_log k BL_gift a (u_balance u) (u_balance u + a) None None None (Some (R_aff_to_balance n)))
      (put_balance k (u_balance u + a) s1)"
  have s2: "s' = s2" by (simp add: s' convert_aff_def s2_def s1_def d_def)
  have sc: "has_scale 2 (u_affBalance u - a)" "has_scale 8 (u_balance u + a)"
    using aff_scale [OF w u] balances_wf_scale [OF b u] a has_scale_mono [OF a, of 8] by auto
  have 1: "aff_logged s s1 \<and> aff_wf s1"
    using w u by (intro booked_aff [where d = d]) (auto simp: s1_def d_def)
  have u1: "find_key u_id k (users s1) = Some (set_aff (u_affBalance u - a) u)" using u by (simp add: s1_def find_key_update_key)
  have b1: "balances_wf s1" using b by (auto simp: balances_wf_def s1_def map_update_key elim!: set_update_keyE)
  have bal: "balance_of s1 j = balance_of s j" for j using u by (simp add: balance_of_def s1_def find_key_update_key)
  have log1: "balance_logged s s1"
    by (rule balance_loggedI [of _ _ "[]"]) (simp_all add: s1_def bal [unfolded s1_def])
  have "balance_logged s1 s2" using balance_logged_post [OF b1 u1] unfolding s2_def by simp
  with log1 have "balance_logged s s2" by (rule balance_logged_trans)
  moreover have aff2: "aff_of s2 j = aff_of s1 j" for j unfolding s2_def by (simp add: aff_of_cong [of "add_log e x" x for e x])
  moreover have "aff_of s1 j = aff_of s j - (if j = k then a else 0)" for j
    using aff_of_put [OF u] aff_of_Some [OF u] sc(1) unfolding s1_def by (simp add: aff_of_cong [of "add_aff_log e f g x" x for e f g x] to_fixed_id)
  moreover have "balance_of s2 j = balance_of s j + (if j = k then a else 0)" for j
    using balance_of_put [OF u1] sc(2) bal balance_of_Some [OF u] unfolding s2_def by (simp add: to_fixed_id)
  moreover have "aff_logged s1 s2" using aff2 by (intro aff_logged_frame) (simp_all add: s2_def aff_entries_def)
  moreover have "aff_wf s2"
    using 1 by (auto simp: aff_wf_def s2_def map_update_key elim!: set_update_keyE)
  moreover have "balances_wf s2" using b1 by (simp add: s2_def balances_wf_put)
  ultimately show ?thesis using 1 aff_logged_trans s2 by metis
qed

lemma withdrawals_frame:
  "aff_wf (s\<lparr>aff_withdrawals := t, withdrawal_seq := n\<rparr>) = aff_wf s" "balances_wf (s\<lparr>aff_withdrawals := t, withdrawal_seq := n\<rparr>) = balances_wf s"
  "aff_logged (s\<lparr>aff_withdrawals := t, withdrawal_seq := n\<rparr>) s' = aff_logged s s'"
  "balance_logged (s\<lparr>aff_withdrawals := t, withdrawal_seq := n\<rparr>) s' = balance_logged s s'"
  "aff_of (s\<lparr>aff_withdrawals := t, withdrawal_seq := n\<rparr>) = aff_of s" "balance_of (s\<lparr>aff_withdrawals := t, withdrawal_seq := n\<rparr>) = balance_of s"
  by (simp_all add: aff_wf_def balances_wf_def aff_logged_def balance_logged_def aff_entries_def balance_entries_def aff_of_def [abs_def]
      getAffBalance_def balance_of_def [abs_def])

definition converts :: "int \<Rightarrow> rat \<Rightarrow> db \<Rightarrow> db \<Rightarrow> bool" where
  "converts k a s s' \<longleftrightarrow> aff_logged s s' \<and> aff_wf s' \<and> balance_logged s s' \<and> balances_wf s' \<and> a \<le> aff_of s k
    \<and> (\<forall>j. aff_of s' j = aff_of s j - (if j = k then a else 0)) \<and> (\<forall>j. balance_of s' j = balance_of s j + (if j = k then a else 0))"

lemma create_converts:
  assumes "aff_wf s" and "balances_wf s" and "has_scale 2 a" and run: "createAffWithdrawal now locked k a s = Inr (w, s')"
  shows "converts k a s s' \<and> 1 / 10 \<le> a \<and> w \<in> set (aff_withdrawals s') \<and> aw_amount w = a \<and> aw_status w = AW_approved"
proof -
  from run obtain u where u: "find_key u_id k (users s) = Some u" and a: "1 / 10 \<le> a" "a \<le> u_affBalance u"
    and w: "aw_amount w = column 2 a" "aw_status w = AW_approved"
    and s': "s' = convert_aff k a (aw_id w) u (s\<lparr>aff_withdrawals := aff_withdrawals s @ [w], withdrawal_seq := withdrawal_seq s + 1\<rparr>)"
    by (auto simp: createAffWithdrawal_def Let_def not_less split: if_splits option.splits)
  have u': "find_key u_id k (users (s\<lparr>aff_withdrawals := aff_withdrawals s @ [w], withdrawal_seq := withdrawal_seq s + 1\<rparr>)) = Some u"
    using u by simp
  from convert_effect [OF _ _ u' assms(3) s', unfolded withdrawals_frame] assms(1,2) aff_of_Some [OF u] a w assms(3)
  show ?thesis by (simp add: converts_def to_fixed_id) (simp add: s' convert_fields)
qed

lemma withdrawal_status_frame:
  "aff_wf (s\<lparr>aff_withdrawals := t\<rparr>) = aff_wf s" "balances_wf (s\<lparr>aff_withdrawals := t\<rparr>) = balances_wf s"
  "aff_logged s' (s\<lparr>aff_withdrawals := t\<rparr>) = aff_logged s' s" "balance_logged s' (s\<lparr>aff_withdrawals := t\<rparr>) = balance_logged s' s"
  "aff_of (s\<lparr>aff_withdrawals := t\<rparr>) = aff_of s" "balance_of (s\<lparr>aff_withdrawals := t\<rparr>) = balance_of s"
  by (simp_all add: aff_wf_def balances_wf_def aff_logged_def balance_logged_def aff_entries_def balance_entries_def aff_of_def [abs_def]
      getAffBalance_def balance_of_def [abs_def])

lemma approve_converts:
  assumes "aff_wf s" and "balances_wf s" and sc: "\<forall>w\<in>set (aff_withdrawals s). has_scale 2 (aw_amount w)"
    and run: "approveAffWithdrawal now locked n admin s = Inr s'"
  shows "\<exists>w. find_key aw_id n (aff_withdrawals s) = Some w \<and> aw_status w = AW_pending \<and> converts (aw_userId w) (aw_amount w) s s'
    \<and> aff_withdrawals s' = update_where (\<lambda>x. aw_id x = n \<and> aw_status x = AW_pending) (approve_row now admin) (aff_withdrawals s)"
proof -
  from run obtain w u where w: "find_key aw_id n (aff_withdrawals s) = Some w" "aw_status w = AW_pending"
    and u: "find_key u_id (aw_userId w) (users s) = Some u" and a: "aw_amount w \<le> u_affBalance u"
    and s': "s' = (convert_aff (aw_userId w) (aw_amount w) n u s)\<lparr>aff_withdrawals := update_where
        (\<lambda>x. aw_id x = n \<and> aw_status x = AW_pending) (approve_row now admin) (aff_withdrawals (convert_aff (aw_userId w) (aw_amount w) n u s))\<rparr>"
    by (auto simp: approveAffWithdrawal_def Let_def not_less split: if_splits option.splits)
  have "has_scale 2 (aw_amount w)" using sc w by (auto dest: find_key_SomeD)
  from convert_effect [OF assms(1,2) u this refl, of n] aff_of_Some [OF u] a
  have "converts (aw_userId w) (aw_amount w) s s'" by (simp add: converts_def s' withdrawal_status_frame)
  with w show ?thesis by (simp add: s' convert_fields)
qed

section \<open>Runs\<close>

inductive aff_step :: "db \<Rightarrow> db \<Rightarrow> bool" where
  commission: "processAffCommission locked k i a new s = Inr s' \<Longrightarrow> aff_step s s'"
| reversed: "reverseAffCommissionForInstance i s = Inr (n, s') \<Longrightarrow> aff_step s s'"
| converted: "createAffWithdrawal now locked k a s = Inr (w, s') \<Longrightarrow> has_scale 2 a \<Longrightarrow> aff_step s s'"
| approved: "approveAffWithdrawal now locked j admin s = Inr s' \<Longrightarrow> aff_step s s'"
| rejected: "rejectAffWithdrawal now j admin reason s = Inr s' \<Longrightarrow> aff_step s s'"
| code_made: "createAffCode activated random k p s = Inr (c, s') \<Longrightarrow> aff_step s s'"
| code_deleted: "deleteAffCode k j s = Inr (text, s') \<Longrightarrow> aff_step s s'"
| bound_at_purchase: "createAffBinding i j over s = Inr s' \<Longrightarrow> aff_step s s'"
| bound: "applyInstanceAffBinding locked i j text s = Inr (b, s') \<Longrightarrow> aff_step s s'"

definition amounts_fit :: "db \<Rightarrow> bool" where
  "amounts_fit s \<longleftrightarrow> (\<forall>w\<in>set (aff_withdrawals s). has_scale 2 (aw_amount w))"

definition aff_inv :: "db \<Rightarrow> bool" where
  "aff_inv s \<longleftrightarrow> aff_wf s \<and> balances_wf s \<and> amounts_fit s"

definition aff_accounted :: "db \<Rightarrow> db \<Rightarrow> bool" where
  "aff_accounted s s' \<longleftrightarrow> aff_logged s s' \<and> balance_logged s s' \<and> aff_inv s'"

lemma rows_only:
  assumes "aff_inv s" and "aff_wf s'" and "users s' = users s" and "aff_entries s' = aff_entries s" and "balance_logs s' = balance_logs s" and "amounts_fit s'"
  shows "aff_accounted s s'"
  using assms balance_logged_frame [of s' s] aff_logged_frame [of s' s]
  by (simp add: aff_accounted_def aff_inv_def balances_wf_cong [of s' s] aff_of_def getAffBalance_def)

text \<open>The referral accounts change the users without touching their balances.\<close>

lemma same_balances:
  assumes "aff_inv s" and "aff_logged s s' \<and> aff_wf s'" and "balance_logs s' = balance_logs s" and "aff_withdrawals s' = aff_withdrawals s"
    and same: "map (\<lambda>u. (u_id u, u_balance u)) (users s') = map (\<lambda>u. (u_id u, u_balance u)) (users s)"
  shows "aff_accounted s s'"
proof -
  have find: "map_option u_balance (find_key u_id k us) = map_of (map (\<lambda>u. (u_id u, u_balance u)) us) k" for k us
    by (induction us) auto
  have "balance_of s' k = balance_of s k" for k
  proof -
    have "map_option u_balance (find_key u_id k (users s')) = map_option u_balance (find_key u_id k (users s))" by (simp only: find same)
    then show ?thesis by (auto simp: balance_of_def split: option.splits)
  qed
  then have "balance_logged s s'" using assms(3) by (intro balance_loggedI [of _ _ "[]"]) simp_all
  moreover have "balances_wf s'"
  proof -
    have "map fst (map (\<lambda>u. (u_id u, u_balance u)) (users s')) = map fst (map (\<lambda>u. (u_id u, u_balance u)) (users s))"
      "snd ` set (map (\<lambda>u. (u_id u, u_balance u)) (users s')) = snd ` set (map (\<lambda>u. (u_id u, u_balance u)) (users s))"
      using same by simp_all
    then have "map u_id (users s') = map u_id (users s)" "u_balance ` set (users s') = u_balance ` set (users s)"
      by (simp_all add: comp_def image_image)
    with assms(1) show ?thesis unfolding aff_inv_def balances_wf_def by (metis (no_types, lifting) image_iff)
  qed
  ultimately show ?thesis using assms by (simp add: aff_accounted_def aff_inv_def amounts_fit_def)
qed

lemma put_aff_same: "map (\<lambda>u. (u_id u, u_balance u)) (update_key u_id k (set_aff v) us) = map (\<lambda>u. (u_id u, u_balance u)) us"
  by (rule map_update_key) simp

lemma commission_frame:
  assumes "processAffCommission locked k i a new s = Inr s'"
  shows "balance_logs s' = balance_logs s \<and> aff_withdrawals s' = aff_withdrawals s
    \<and> map (\<lambda>u. (u_id u, u_balance u)) (users s') = map (\<lambda>u. (u_id u, u_balance u)) (users s)"
  using assms
  by (auto simp: processAffCommission_def Let_def put_aff_same add_aff_log_def put_aff_def elim!: changeAff_cases split: option.splits if_splits sum.splits)

lemma reverse_all_frame:
  "reverse_all i ls n s = Inr (m, s') \<Longrightarrow> balance_logs s' = balance_logs s \<and> aff_withdrawals s' = aff_withdrawals s
    \<and> map (\<lambda>u. (u_id u, u_balance u)) (users s') = map (\<lambda>u. (u_id u, u_balance u)) (users s)"
proof (induction i ls n s rule: reverse_all.induct)
  case (2 i l ls n s)
  have "balance_logs (take_back i l b s) = balance_logs s \<and> aff_withdrawals (take_back i l b s) = aff_withdrawals s" for b
    by (simp add: take_back_def add_aff_log_def put_aff_def Let_def split: option.splits)
  with 2 show ?case by (auto simp: take_back_fields put_aff_same split: if_splits option.splits)
qed simp

lemma createAffCode_Inr:
  assumes "createAffCode activated random k p s = Inr (c, s')"
  shows "s' = s\<lparr>aff_codes := aff_codes s @ [c], aff_seq := aff_seq s + 1\<rparr> \<and> c = new_code random k p s"
  using assms
  by (auto simp: createAffCode_def insert_code_def split: option.splits if_splits sum.splits)

lemma code_made_wf:
  assumes "aff_wf s" and "createAffCode activated random k p s = Inr (c, s')"
  shows "aff_wf s'"
  using assms(1) createAffCode_Inr [OF assms(2)] by (fastforce simp: aff_wf_def new_code_def)

lemma code_deleted_sound:
  assumes "aff_inv s" and "deleteAffCode k j s = Inr (text, s')"
  shows "aff_accounted s s'"
proof (rule rows_only [OF assms(1)])
  let ?f = "\<lambda>l. if al_affCodeId l = Some j then l\<lparr>al_affCodeId := None\<rparr> else l"
  from assms(2) have s': "s' = s\<lparr>aff_codes := delete_where (\<lambda>x. ac_id x = j) (aff_codes s), aff_logs := map ?f (aff_logs s)\<rparr>"
    by (auto simp: deleteAffCode_def split: option.splits if_splits)
  have f: "al_id (?f l) = al_id l" "al_amount (?f l) = al_amount l" "al_remark (?f l) = al_remark l" for l by simp_all
  show "aff_wf s'"
    using assms(1) unfolding aff_inv_def aff_wf_def s' reversal_seen_def
    by (simp add: f comp_def delete_where_def distinct_map_filter del: if_image_distrib)
  show "aff_entries s' = aff_entries s" by (simp add: s' aff_entries_def)
qed (use assms in \<open>auto simp: deleteAffCode_def aff_inv_def amounts_fit_def split: option.splits if_splits\<close>)

lemma aff_step_accounted: "aff_step s s' \<Longrightarrow> aff_inv s \<Longrightarrow> aff_accounted s s'"
proof (induction rule: aff_step.induct)
  case (commission locked k i a new s s')
  then show ?case using commission_sound commission_frame by (intro same_balances) (auto simp: aff_inv_def)
next
  case (reversed i s n s')
  then show ?case using reverse_effect [of s i n s'] reverse_all_frame [of i _ 0 s n s']
    by (intro same_balances) (auto simp: aff_inv_def reverseAffCommissionForInstance_def)
next
  case (converted now locked k a s w s')
  then have "converts k a s s' \<and> aw_amount w = a" using create_converts by (auto simp: aff_inv_def)
  moreover have "aff_withdrawals s' = aff_withdrawals s @ [w]"
    using converted(1) by (auto simp: createAffWithdrawal_def Let_def convert_fields split: if_splits option.splits)
  ultimately show ?case using converted by (auto simp: aff_accounted_def aff_inv_def amounts_fit_def converts_def)
next
  case (approved now locked j admin s s')
  then have "aff_wf s" "balances_wf s" "\<forall>w\<in>set (aff_withdrawals s). has_scale 2 (aw_amount w)"
    by (simp_all add: aff_inv_def amounts_fit_def)
  from approve_converts [OF this approved(1)] obtain w :: aff_withdrawal where "converts (aw_userId w) (aw_amount w) s s'"
    and "aff_withdrawals s' = update_where (\<lambda>x. aw_id x = j \<and> aw_status x = AW_pending) (approve_row now admin) (aff_withdrawals s)"
    by blast
  with approved(2) show ?case
    by (auto simp: aff_accounted_def aff_inv_def amounts_fit_def converts_def approve_row_def elim!: set_update_whereE)
next
  case (rejected now j admin reason s s')
  then have "s' = s\<lparr>aff_withdrawals := update_where (\<lambda>x. aw_id x = j \<and> aw_status x = AW_pending) (reject_row now admin reason) (aff_withdrawals s)\<rparr>"
    by (auto simp: rejectAffWithdrawal_def Let_def split: if_splits option.splits)
  with rejected(2) show ?case
    by (intro rows_only) (auto simp: aff_inv_def withdrawal_status_frame aff_entries_def amounts_fit_def reject_row_def elim!: set_update_whereE)
next
  case (code_made activated random k p s c s')
  then show ?case using createAffCode_Inr [OF code_made(1)] code_made_wf [OF _ code_made(1)]
    by (intro rows_only) (simp_all add: aff_inv_def aff_entries_def amounts_fit_def)
next
  case (code_deleted k j s tx s')
  then show ?case using code_deleted_sound by blast
next
  case (bound_at_purchase i j over s s')
  then obtain t where "s' = s\<lparr>aff_bindings := t\<rparr>" by (auto simp: createAffBinding_def split: if_splits)
  with bound_at_purchase(2) show ?case by (intro rows_only) (auto simp: aff_inv_def aff_wf_def aff_entries_def amounts_fit_def)
next
  case (bound locked i j tx s b s')
  have "s' = s\<lparr>aff_bindings := aff_bindings s'\<rparr>"
    using bound(1) by (auto simp: applyInstanceAffBinding_def Let_def split: if_splits option.splits)
  then obtain t where "s' = s\<lparr>aff_bindings := t\<rparr>" by blast
  with bound(2) show ?case by (intro rows_only) (auto simp: aff_inv_def aff_wf_def aff_entries_def amounts_fit_def)
qed

definition sound_aff_step :: "db \<Rightarrow> db \<Rightarrow> bool" where
  "sound_aff_step s s' \<longleftrightarrow> aff_inv s \<and> aff_step s s'"

interpretation aff_runs: invariant_system aff_step aff_inv
  by unfold_locales (auto dest: aff_step_accounted simp: aff_accounted_def)

interpretation commissions: ledger_system sound_aff_step aff_of aff_entries
  by unfold_locales (auto simp: sound_aff_step_def aff_accounted_def aff_logged_def dest!: aff_step_accounted)

interpretation aff_money: ledger_system sound_aff_step balance_of balance_entries
  by unfold_locales (auto simp: sound_aff_step_def aff_accounted_def balance_logged_def dest!: aff_step_accounted)

lemma sound_aff_run: "aff_step\<^sup>*\<^sup>* s s' \<Longrightarrow> aff_inv s \<Longrightarrow> sound_aff_step\<^sup>*\<^sup>* s s'"
proof (induction rule: rtranclp_induct)
  case (step y z)
  then have "sound_aff_step y z" using aff_runs.inv_run by (simp add: sound_aff_step_def)
  with step show ?case by (meson rtranclp.rtrancl_into_rtrancl)
qed simp

section \<open>Properties\<close>

text \<open>C8: Both ledgers of the referral programme are complete: along any run of commissions, reversals, conversions,
  reviews and changes of codes and bindings, the entries added to the commission log explain every commission account,
  and those added to the balance log every balance, account by account and without a gap.\<close>

theorem referral_ledgers:
  assumes "aff_step\<^sup>*\<^sup>* s s'" and "aff_inv s"
  shows "aff_inv s'
    \<and> (\<exists>es. aff_entries s' = aff_entries s @ es
        \<and> (\<forall>k. linked (getAffBalance k s) (of_account k es) (getAffBalance k s')
             \<and> getAffBalance k s' = getAffBalance k s + (\<Sum>(x, y)\<leftarrow>of_account k es. y - x)))
    \<and> (\<exists>es. balance_entries s' = balance_entries s @ es
        \<and> (\<forall>k. linked (balance_of s k) (of_account k es) (balance_of s' k)
             \<and> balance_of s' k = balance_of s k + (\<Sum>(x, y)\<leftarrow>of_account k es. y - x)))"
  using aff_runs.inv_run [OF assms] commissions.run_sum [OF sound_aff_run [OF assms]] aff_money.run_sum [OF sound_aff_run [OF assms]]
  unfolding aff_of_def by blast

text \<open>C20: A conversion moves exactly the amount from the commissions of the user to the balance, which no rounding changes when
  the amount is in cents; the commissions cover it, nobody else is touched, and the sum of both funds stays.\<close>

theorem conversion_conserves:
  assumes "aff_inv s" and "has_scale 2 amount" and "createAffWithdrawal now locked userId amount s = Inr (w, s')"
  shows "1 / 10 \<le> amount \<and> 0 \<le> getAffBalance userId s' \<and> getAffBalance userId s' = getAffBalance userId s - amount
    \<and> balance_of s' userId = balance_of s userId + amount \<and> w \<in> set (aff_withdrawals s') \<and> aw_amount w = amount
    \<and> (\<forall>k. getAffBalance k s' + balance_of s' k = getAffBalance k s + balance_of s k)"
  using create_converts [OF _ _ assms(2,3)] assms(1) by (auto simp: aff_inv_def converts_def aff_of_def)

text \<open>C19: Reversing the commissions of an instance that was never provisioned takes back each purchase commission that was not
  taken back before, from the account that earned it, and counts them; doing it again finds nothing and changes nothing.\<close>

theorem reversal_takes_back:
  assumes "aff_inv s" and "reverseAffCommissionForInstance instanceId s = Inr (n, s')"
  shows "n = length (open_commissions instanceId s)
    \<and> (\<forall>k. getAffBalance k s' = getAffBalance k s - (\<Sum>l\<leftarrow>filter (\<lambda>l. al_userId l = k) (open_commissions instanceId s). al_amount l))
    \<and> reverseAffCommissionForInstance instanceId s' = Inr (0, s')"
  using reverse_effect [OF _ assms(2)] reverse_again [of instanceId s'] assms(1) by (auto simp: aff_inv_def aff_of_def due_back_def)

lemma update_key_undo:
  "(\<And>r. r \<in> set t \<Longrightarrow> key r = k \<Longrightarrow> f (g r) = r) \<Longrightarrow> (\<And>r. key (g r) = key r) \<Longrightarrow> update_key key k f (update_key key k g t) = t"
  by (induction t) auto

lemma commission_of_scale: "has_scale 2 (commission_of a r)"
  unfolding commission_of_def using has_scale_of_int_div [of 2 "js_round (a * r * 100)"] by simp

text \<open>The commission of a failed purchase leaves no trace in the accounts: when a purchase on an instance without commissions is
  rewarded and the instance then fails, the reversal succeeds, and every user and every code is as before the purchase.\<close>

theorem failed_purchase_undone:
  assumes "aff_inv s" and "\<forall>l\<in>set (aff_logs s). \<not> commission_log instanceId l"
    and "processAffCommission locked k instanceId originalAmount True s = Inr s1"
  shows "\<exists>n s2. reverseAffCommissionForInstance instanceId s1 = Inr (n, s2) \<and> users s2 = users s \<and> aff_codes s2 = aff_codes s"
proof (cases "s1 = s")
  case True
  have "open_commissions instanceId s = []" using assms(2) by (simp add: open_commissions_def filter_empty_conv)
  from reverse_again [OF this] True show ?thesis by blast
next
  case False
  have w: "aff_wf s" using assms(1) by (simp add: aff_inv_def)
  from False assms(3) obtain c b t where c: "find_key ac_id k (aff_codes s) = Some c"
    and pos: "0 < commission_of originalAmount (ac_commissionRate c)"
    and ch: "changeAffBalance locked (commission_change c instanceId originalAmount True) s = Inr (b, t)"
    and s1: "s1 = t\<lparr>aff_codes := update_key ac_id k (earn True (commission_of originalAmount (ac_commissionRate c))) (aff_codes t)\<rparr>"
    by (auto simp: processAffCommission_def Let_def not_le split: option.splits if_splits sum.splits)
  let ?a = "commission_of originalAmount (ac_commissionRate c)" and ?d = "commission_change c instanceId originalAmount True"
  have k: "ac_id c = k" using c by (auto dest: find_key_SomeD)
  from ch obtain u where u: "find_key u_id (ac_userId c) (users s) = Some u"
    and t: "t = add_aff_log ?d (u_affBalance u) (u_affBalance u + ?a) (put_aff (ac_userId c) (u_affBalance u + ?a) s)"
    by (rule changeAff_cases) (auto simp: commission_change_def)
  have sc: "has_scale 2 ?a" "has_scale 2 (u_affBalance u)" using commission_of_scale aff_scale [OF w u] by auto
  define l where "l = last (aff_logs s1)"
  have logs: "aff_logs s1 = aff_logs s @ [l]" by (simp add: l_def s1 t add_aff_log_def)
  have l: "al_userId l = ac_userId c" "al_amount l = ?a" "al_affCodeId l = Some k" "al_id l = aff_log_seq s" "commission_log instanceId l"
    "\<not> reversal instanceId l l"
    using sc pos by (simp_all add: l_def s1 t add_aff_log_def commission_change_def k to_fixed_id commission_log_def reversal_def)
  have "filter (commission_log instanceId) (aff_logs s) = []" using assms(2) by (simp add: filter_empty_conv)
  then have one: "sort_key al_id (filter (commission_log instanceId) (aff_logs s1)) = [l]" using l(5) by (simp add: logs)
  have "reversal_seen (aff_log_seq s) r" if "r \<in> set (aff_logs s)" for r using w that by (simp add: aff_wf_def)
  then have none: "find_where (reversal instanceId l) (aff_logs s1) = None"
    using l(4,6) by (auto simp: find_where_None logs reversal_def reversal_seen_def)
  have us: "users s1 = update_key u_id (ac_userId c) (set_aff (u_affBalance u + ?a)) (users s)" by (simp add: s1 t)
  then have u1: "find_key u_id (ac_userId c) (users s1) = Some (set_aff (u_affBalance u + ?a) u)" using u by (simp add: find_key_update_key)
  define s2 where "s2 = take_back instanceId l (column 2 (u_affBalance u + ?a)) s1"
  have run: "reverseAffCommissionForInstance instanceId s1 = Inr (1, s2)"
    by (simp add: reverseAffCommissionForInstance_def one none u1 l(1) s2_def)
  have d: "distinct (map u_id (users s))" "distinct (map ac_id (aff_codes s))" using w by (simp_all add: aff_wf_def)
  have only: "r = u" if "r \<in> set (users s)" "u_id r = ac_userId c" for r using find_key_distinct [OF d(1) that(1)] that(2) u by simp
  have "users s2 = update_key u_id (ac_userId c) (set_aff (u_affBalance u)) (users s1)"
    using sc by (simp add: s2_def take_back_fields l to_fixed_id has_scale_add)
  also have "\<dots> = users s" unfolding us using sc only by (intro update_key_undo) (auto simp: set_aff_def to_fixed_id)
  finally have users: "users s2 = users s" .
  have "aff_codes s2 = update_key ac_id k (unearn ?a) (update_key ac_id k (earn True ?a) (aff_codes s))"
    by (simp add: s2_def take_back_def l s1 t Let_def)
  also have "\<dots> = aff_codes s"
  proof (rule update_key_undo)
    fix r assume "r \<in> set (aff_codes s)"
    then have "has_scale 2 (ac_totalEarnings r)" "0 \<le> ac_usedCount r" using w by (auto simp: aff_wf_def)
    then show "unearn ?a (earn True ?a r) = r" using sc by (simp add: unearn_def earn_def to_fixed_id has_scale_add)
  qed simp
  finally show ?thesis using run users by blast
qed

section \<open>A concrete programme\<close>

definition referral_db :: db where
  "referral_db = empty_db\<lparr>users := [mk_user 1 R_user 5 0, (mk_user 2 R_user 0 0)\<lparr>u_affBalance := 3\<rparr>],
     aff_codes := [\<lparr>ac_id = 1, ac_code = ''AFF-2-X'', ac_userId = 2, ac_packagePlanId = None, ac_discountRate = 1 / 20,
       ac_commissionRate = 1 / 20, ac_enabled = True, ac_usedCount = 0, ac_totalEarnings = 0\<rparr>], aff_seq := 2\<rparr>"

lemma referral_db_inv: "aff_inv referral_db"
  using has_scale_of_int [of 2 3] has_scale_of_int [of 8 5]
  by (simp add: aff_inv_def aff_wf_def balances_wf_def amounts_fit_def referral_db_def mk_user_def empty_db_def)

definition rewarded :: db where
  "rewarded = (case processAffCommission True 1 9 20 True referral_db of Inl e \<Rightarrow> referral_db | Inr s \<Rightarrow> s)"

lemma rewarded_run: "processAffCommission True 1 9 20 True referral_db = Inr rewarded"
proof -
  have "(case processAffCommission True 1 9 20 True referral_db of Inl e \<Rightarrow> False | Inr s \<Rightarrow> True)" by code_simp
  then show ?thesis by (simp add: rewarded_def split: sum.splits)
qed

lemma rewarded_inv: "aff_step\<^sup>*\<^sup>* referral_db rewarded" "aff_inv rewarded"
proof -
  show run: "aff_step\<^sup>*\<^sup>* referral_db rewarded" using aff_step.commission [OF rewarded_run] by blast
  show "aff_inv rewarded" using aff_runs.inv_run [OF run referral_db_inv] .
qed

theorem referral_ledgers_witness:
  "\<exists>es. aff_entries rewarded = aff_entries referral_db @ es \<and> getAffBalance 2 rewarded = 3 + (\<Sum>(x, y)\<leftarrow>of_account 2 es. y - x)"
proof -
  have "getAffBalance 2 referral_db = 3" by code_simp
  with referral_ledgers [OF rewarded_inv(1) referral_db_inv] show ?thesis by metis
qed

theorem conversion_conserves_witness:
  "\<exists>w s'. createAffWithdrawal 7 True 2 (5 / 2) referral_db = Inr (w, s') \<and> getAffBalance 2 s' = 1 / 2 \<and> balance_of s' 2 = 5 / 2"
proof -
  have "(case createAffWithdrawal 7 True 2 (5 / 2) referral_db of Inl e \<Rightarrow> False | Inr x \<Rightarrow> True)" by code_simp
  then obtain w s' where run: "createAffWithdrawal 7 True 2 (5 / 2) referral_db = Inr (w, s')" by (auto split: sum.splits)
  have "has_scale 2 (5 / 2 :: rat)" using has_scaleI [of "5 / 2 :: rat" 250 2] by simp
  moreover have "getAffBalance 2 referral_db = 3" "balance_of referral_db 2 = 0" by code_simp+
  ultimately show ?thesis using conversion_conserves [OF referral_db_inv _ run] run by simp
qed

theorem reversal_takes_back_witness:
  "\<exists>s'. reverseAffCommissionForInstance 9 rewarded = Inr (1, s') \<and> getAffBalance 2 s' = 3"
proof -
  have "(case reverseAffCommissionForInstance 9 rewarded of Inl e \<Rightarrow> False | Inr x \<Rightarrow> True)" by code_simp
  then obtain n s' where run: "reverseAffCommissionForInstance 9 rewarded = Inr (n, s')" by (auto split: sum.splits)
  have "length (open_commissions 9 rewarded) = 1 \<and> getAffBalance 2 rewarded = 4
    \<and> (\<Sum>l\<leftarrow>filter (\<lambda>l. al_userId l = 2) (open_commissions 9 rewarded). al_amount l) = 1" by code_simp
  with reversal_takes_back [OF rewarded_inv(2) run] run show ?thesis by auto
qed

theorem failed_purchase_undone_witness:
  "\<exists>n s2. reverseAffCommissionForInstance 9 rewarded = Inr (n, s2) \<and> users s2 = users referral_db \<and> aff_codes s2 = aff_codes referral_db"
proof -
  have "\<forall>l\<in>set (aff_logs referral_db). \<not> commission_log 9 l" by (simp add: referral_db_def empty_db_def)
  from failed_purchase_undone [OF referral_db_inv this rewarded_run] show ?thesis .
qed

text \<open>The schema allows a user one code without a plan; the database does not see two nulls as equal, and the second is created.\<close>

lemma several_global_codes:
  "(case createAffCode True ''a'' 2 None referral_db of Inl e \<Rightarrow> False | Inr (c, s) \<Rightarrow>
     (case createAffCode True ''b'' 2 None s of Inl e \<Rightarrow> False
      | Inr (d, s') \<Rightarrow> length (filter (\<lambda>x. ac_userId x = 2 \<and> ac_packagePlanId x = None) (aff_codes s')) = 3))"
  by code_simp

end
