(* ===== verification/Quota.thy ===== *)
theory Quota
  imports Database
begin

text \<open>
  Quotas and host resources: \<open>server/src/db/quota-operations.ts\<close>. Each operation is one
  (serializable) transaction on the database; \<open>locked\<close> says whether its advisory lock is granted. Amounts to be released are JavaScript numbers, which
  the source checks to be whole; amounts to be reserved are whole numbers.
\<close>

section \<open>Host counters\<close>

record rollback =
  ro_hostId :: int
  ro_cpu :: rat
  ro_memory :: rat
  ro_disk :: rat
  ro_portCount :: rat

definition bad_amount :: "rat \<Rightarrow> bool" where
  "bad_amount value \<longleftrightarrow> \<not> is_integer value \<or> value < 0"

definition release_amounts :: "rollback \<Rightarrow> host \<Rightarrow> host" where
  "release_amounts opts h = h\<lparr>h_cpuUsed := h_cpuUsed h - \<lfloor>ro_cpu opts\<rfloor>,
     h_memoryUsed := h_memoryUsed h - \<lfloor>ro_memory opts\<rfloor>,
     h_diskUsed := h_diskUsed h - \<lfloor>ro_disk opts\<rfloor>,
     h_natPortsUsed := (if ro_portCount opts > 0 then h_natPortsUsed h - \<lfloor>ro_portCount opts\<rfloor> else h_natPortsUsed h)\<rparr>"

definition holds_amounts :: "rollback \<Rightarrow> host \<Rightarrow> bool" where
  "holds_amounts opts h \<longleftrightarrow> h_id h = ro_hostId opts \<and> of_int (h_cpuUsed h) \<ge> ro_cpu opts
     \<and> of_int (h_memoryUsed h) \<ge> ro_memory opts \<and> of_int (h_diskUsed h) \<ge> ro_disk opts
     \<and> (ro_portCount opts > 0 \<longrightarrow> of_int (h_natPortsUsed h) \<ge> ro_portCount opts)"

definition decrementHostResourceCounters :: "rollback \<Rightarrow> db \<Rightarrow> (unit \<times> db) outcome" where
  "decrementHostResourceCounters opts s =
     (if bad_amount (ro_cpu opts) then Inl (Failure (M_invalid_rollback ''cpu'' (ro_cpu opts)))
      else if bad_amount (ro_memory opts) then Inl (Failure (M_invalid_rollback ''memory'' (ro_memory opts)))
      else if bad_amount (ro_disk opts) then Inl (Failure (M_invalid_rollback ''disk'' (ro_disk opts)))
      else if bad_amount (ro_portCount opts) then Inl (Failure (M_invalid_rollback ''portCount'' (ro_portCount opts)))
      else
        let count = count_where (holds_amounts opts) (hosts s);
            s1 = s\<lparr>hosts := update_where (holds_amounts opts) (release_amounts opts) (hosts s)\<rparr> in
        if count = 1 then Inr ((), s1)
        else if find_key h_id (ro_hostId opts) (hosts s1) = None
        then Inl (Failure (M_host_missing_on_release (ro_hostId opts)))
        else Inl (Failure (M_counters_too_low (ro_hostId opts))))"

record reservation =
  rv_hostId :: int
  rv_cpu :: int
  rv_memory :: int
  rv_disk :: int
  rv_portCount :: int

text \<open>\<open>a && b ? b - a + 1 : 0\<close> on optional numbers: \<open>null\<close> and 0 are false.\<close>

definition natPortsTotal :: "host \<Rightarrow> int" where
  "natPortsTotal h =
     (case (h_natPortStart h, h_natPortEnd h) of
        (Some a, Some b) \<Rightarrow> if a \<noteq> 0 \<and> b \<noteq> 0 then b - a + 1 else 0
      | _ \<Rightarrow> 0)"

text \<open>The update writes the sums of the values read before (\<open>host\<close>) into the row.\<close>

definition take_amounts :: "reservation \<Rightarrow> host \<Rightarrow> host \<Rightarrow> host" where
  "take_amounts opts host h = h\<lparr>h_cpuUsed := h_cpuUsed host + rv_cpu opts,
     h_memoryUsed := h_memoryUsed host + rv_memory opts,
     h_diskUsed := h_diskUsed host + rv_disk opts,
     h_natPortsUsed := (if rv_portCount opts > 0 then h_natPortsUsed host + rv_portCount opts else h_natPortsUsed h)\<rparr>"

definition reserveHostResources :: "reservation \<Rightarrow> db \<Rightarrow> (unit \<times> db) outcome" where
  "reserveHostResources opts s =
     (case find_key h_id (rv_hostId opts) (hosts s) of
        None \<Rightarrow> Inl (Error ''Host not found'')
      | Some host \<Rightarrow>
          let instanceDataPoolCount =
                count_where (\<lambda>p. ch_parent p = rv_hostId opts \<and> ch_flag p) (storage_pools s);
              cpuLimit = h_cpuAllowanceMax host;
              memoryLimit = h_memoryMax host in
          if instanceDataPoolCount = 0 then Inl (Failure M_no_storage_pool)
          else if cpuLimit > 0 \<and> h_cpuUsed host + rv_cpu opts > cpuLimit
          then Inl (Failure (M_host_cpu_exceeded (h_cpuUsed host + rv_cpu opts) cpuLimit))
          else if memoryLimit > 0 \<and> h_memoryUsed host + rv_memory opts > memoryLimit
          then Inl (Failure (M_host_memory_exceeded (h_memoryUsed host + rv_memory opts) memoryLimit))
          else if rv_portCount opts > 0 \<and> h_natPortsUsed host + rv_portCount opts > natPortsTotal host
          then Inl (Failure (M_host_ports_exceeded (h_natPortsUsed host + rv_portCount opts) (natPortsTotal host)))
          else Inr ((), s\<lparr>hosts := update_key h_id (rv_hostId opts) (take_amounts opts host) (hosts s)\<rparr>))"

definition reserveResources :: "reservation \<Rightarrow> db \<Rightarrow> (unit \<times> db) outcome" where
  "reserveResources opts s = reserveHostResources opts s"

text \<open>The claim of a failed instance: the state change and the reservation commit together.\<close>

definition claimable :: "int \<Rightarrow> int \<Rightarrow> instance_row \<Rightarrow> bool" where
  "claimable instanceId userId i \<longleftrightarrow>
     i_id i = instanceId \<and> i_userId i = userId \<and> i_status i = IS_error \<and> \<not> i_cleanupPending i"

definition claimInstanceAndReserveResources :: "bool \<Rightarrow> int \<Rightarrow> int \<Rightarrow> reservation \<Rightarrow> db \<Rightarrow> (bool \<times> db) outcome" where
  "claimInstanceAndReserveResources locked instanceId userId opts s =
     (case advisoryTransactionLock locked INSTANCE_OPERATION_LOCK_NAMESPACE instanceId of Inl e \<Rightarrow> Inl e | Inr _ \<Rightarrow>
      let claimed = count_where (claimable instanceId userId) (instances s);
          s1 = s\<lparr>instances := update_where (claimable instanceId userId)
                 (\<lambda>i. i\<lparr>i_status := IS_creating, i_version := i_version i + 1\<rparr>) (instances s)\<rparr> in
      if claimed = 0 then Inr (False, s1)
      else case reserveHostResources opts s1 of
        Inl e \<Rightarrow> Inl e
      | Inr (_, s2) \<Rightarrow> Inr (True, s2))"

definition rollbackResources :: "rollback \<Rightarrow> db \<Rightarrow> (unit \<times> db) outcome" where
  "rollbackResources opts s = decrementHostResourceCounters opts s"

definition expired_as :: "int \<Rightarrow> int \<Rightarrow> int \<Rightarrow> instance_row \<Rightarrow> bool" where
  "expired_as instanceId expectedVersion expectedSuspendedAt i \<longleftrightarrow>
     i_id i = instanceId \<and> i_status i = IS_deleted \<and> i_suspendReason i = Some ''expired''
     \<and> i_version i = expectedVersion \<and> i_suspendedAt i = Some expectedSuspendedAt"

definition deleteExpiredInstanceAndRollbackResources ::
    "bool \<Rightarrow> int \<Rightarrow> int \<Rightarrow> int \<Rightarrow> rollback \<Rightarrow> db \<Rightarrow> (bool \<times> db) outcome" where
  "deleteExpiredInstanceAndRollbackResources locked instanceId expectedVersion expectedSuspendedAt opts s =
     (case advisoryTransactionLock locked INSTANCE_OPERATION_LOCK_NAMESPACE instanceId of Inl e \<Rightarrow> Inl e | Inr _ \<Rightarrow>
      let P = expired_as instanceId expectedVersion expectedSuspendedAt;
          deleted = count_where P (instances s);
          s1 = s\<lparr>instances := delete_where P (instances s)\<rparr> in
      if deleted = 0 then Inr (False, s1)
      else case decrementHostResourceCounters opts s1 of
        Inl e \<Rightarrow> Inl e
      | Inr (_, s2) \<Rightarrow> Inr (True, s2))"

section \<open>User quotas\<close>

record quota_data =
  qd_hostUsed :: "int option"
  qd_friendUsed :: "int option"
  qd_packageUsed :: "int option"

definition quota_fields :: "quota_data \<Rightarrow> bool" where
  "quota_fields d \<longleftrightarrow> qd_hostUsed d \<noteq> None \<or> qd_friendUsed d \<noteq> None \<or> qd_packageUsed d \<noteq> None"

definition updateUserQuotaUsed :: "int \<Rightarrow> quota_data \<Rightarrow> db \<Rightarrow> (unit \<times> db) outcome" where
  "updateUserQuotaUsed userId d s =
     (if \<not> quota_fields d then Inr ((), s)
      else if find_key uq_userId userId (quotas s) = None then Inl RecordNotFound
      else Inr ((), s\<lparr>quotas := update_key uq_userId userId (\<lambda>q. q\<lparr>
        uq_hostUsed := (case qd_hostUsed d of None \<Rightarrow> uq_hostUsed q | Some n \<Rightarrow> n),
        uq_friendUsed := (case qd_friendUsed d of None \<Rightarrow> uq_friendUsed q | Some n \<Rightarrow> n),
        uq_packageUsed := (case qd_packageUsed d of None \<Rightarrow> uq_packageUsed q | Some n \<Rightarrow> n)\<rparr>) (quotas s)\<rparr>))"

definition incrementUserQuotaUsed :: "int \<Rightarrow> quota_data \<Rightarrow> db \<Rightarrow> (unit \<times> db) outcome" where
  "incrementUserQuotaUsed userId d s =
     (if \<not> quota_fields d then Inr ((), s)
      else if find_key uq_userId userId (quotas s) = None then Inl RecordNotFound
      else Inr ((), s\<lparr>quotas := update_key uq_userId userId (\<lambda>q. q\<lparr>
        uq_hostUsed := uq_hostUsed q + (case qd_hostUsed d of None \<Rightarrow> 0 | Some n \<Rightarrow> n),
        uq_friendUsed := uq_friendUsed q + (case qd_friendUsed d of None \<Rightarrow> 0 | Some n \<Rightarrow> n),
        uq_packageUsed := uq_packageUsed q + (case qd_packageUsed d of None \<Rightarrow> 0 | Some n \<Rightarrow> n)\<rparr>) (quotas s)\<rparr>))"

datatype quota_kind = Q_host | Q_friend | Q_package

definition used :: "quota_kind \<Rightarrow> user_quota \<Rightarrow> int" where
  "used kind q = (case kind of Q_host \<Rightarrow> uq_hostUsed q | Q_friend \<Rightarrow> uq_friendUsed q | Q_package \<Rightarrow> uq_packageUsed q)"

definition limit_of :: "quota_kind \<Rightarrow> user_quota \<Rightarrow> int" where
  "limit_of kind q = (case kind of Q_host \<Rightarrow> uq_hostLimit q | Q_friend \<Rightarrow> uq_friendLimit q | Q_package \<Rightarrow> uq_packageLimit q)"

definition credit_used :: "quota_kind \<Rightarrow> int \<Rightarrow> user_quota \<Rightarrow> user_quota" where
  "credit_used kind n q =
     (case kind of
        Q_host \<Rightarrow> q\<lparr>uq_hostUsed := uq_hostUsed q + n\<rparr>
      | Q_friend \<Rightarrow> q\<lparr>uq_friendUsed := uq_friendUsed q + n\<rparr>
      | Q_package \<Rightarrow> q\<lparr>uq_packageUsed := uq_packageUsed q + n\<rparr>)"

definition decrementUserQuotaUsed :: "int \<Rightarrow> quota_kind \<Rightarrow> db \<Rightarrow> db" where
  "decrementUserQuotaUsed userId kind s =
     s\<lparr>quotas := update_where (\<lambda>q. uq_userId q = userId \<and> used kind q > 0) (credit_used kind (- 1)) (quotas s)\<rparr>"

record quota_used =
  qu_hostUsed :: int
  qu_friendUsed :: int
  qu_packageUsed :: int

definition calculateUserQuotaUsed :: "int \<Rightarrow> db \<Rightarrow> quota_used" where
  "calculateUserQuotaUsed userId s =
     \<lparr>qu_hostUsed = int (count_where (\<lambda>h. h_userId h = userId) (hosts s)),
      qu_friendUsed = int (count_where (\<lambda>f. (fr_userId f = userId \<and> fr_status f = FS_accepted)
          \<or> (fr_friendId f = userId \<and> fr_status f = FS_accepted)) (friendships s)),
      qu_packageUsed = int (count_where (\<lambda>p. ch_parent p = userId) (packages s))\<rparr>"

definition syncUserQuotaUsed :: "int \<Rightarrow> db \<Rightarrow> (unit \<times> db) outcome" where
  "syncUserQuotaUsed userId s =
     (let u = calculateUserQuotaUsed userId s in
      updateUserQuotaUsed userId \<lparr>qd_hostUsed = Some (qu_hostUsed u),
        qd_friendUsed = Some (qu_friendUsed u), qd_packageUsed = Some (qu_packageUsed u)\<rparr> s)"

section \<open>Checks\<close>

datatype quota_message =
    Not_found_text string
  | Not_authorized string
  | Not_allocated string
  | Full string int int

record quota_check =
  qc_allowed :: bool
  qc_current :: int
  qc_limit :: int
  qc_message :: "quota_message option"

definition checkHostQuota :: "int \<Rightarrow> db \<Rightarrow> quota_check" where
  "checkHostQuota userId s =
     (case find_key uq_userId userId (quotas s) of
        None \<Rightarrow> \<lparr>qc_allowed = False, qc_current = 0, qc_limit = 0,
                 qc_message = Some (Not_found_text ''User quota not found'')\<rparr>
      | Some quota \<Rightarrow>
          if uq_hostLimit quota = 0
          then \<lparr>qc_allowed = False, qc_current = uq_hostUsed quota, qc_limit = uq_hostLimit quota,
                 qc_message = Some (Not_authorized ''Host'')\<rparr>
          else if uq_hostUsed quota \<ge> uq_hostLimit quota
          then \<lparr>qc_allowed = False, qc_current = uq_hostUsed quota, qc_limit = uq_hostLimit quota,
                 qc_message = Some (Full ''Host'' (uq_hostUsed quota) (uq_hostLimit quota))\<rparr>
          else \<lparr>qc_allowed = True, qc_current = uq_hostUsed quota, qc_limit = uq_hostLimit quota,
                 qc_message = None\<rparr>)"

definition checkFriendQuota :: "int \<Rightarrow> db \<Rightarrow> quota_check" where
  "checkFriendQuota userId s =
     (case find_key uq_userId userId (quotas s) of
        None \<Rightarrow> \<lparr>qc_allowed = False, qc_current = 0, qc_limit = 0,
                 qc_message = Some (Not_found_text ''User quota not found'')\<rparr>
      | Some quota \<Rightarrow>
          if uq_friendLimit quota = 0
          then \<lparr>qc_allowed = False, qc_current = uq_friendUsed quota, qc_limit = uq_friendLimit quota,
                 qc_message = Some (Not_authorized ''Friend'')\<rparr>
          else if uq_friendUsed quota \<ge> uq_friendLimit quota
          then \<lparr>qc_allowed = False, qc_current = uq_friendUsed quota, qc_limit = uq_friendLimit quota,
                 qc_message = Some (Full ''Friend'' (uq_friendUsed quota) (uq_friendLimit quota))\<rparr>
          else \<lparr>qc_allowed = True, qc_current = uq_friendUsed quota, qc_limit = uq_friendLimit quota,
                 qc_message = None\<rparr>)"

definition checkPackageQuota :: "int \<Rightarrow> db \<Rightarrow> quota_check" where
  "checkPackageQuota userId s =
     (case find_key uq_userId userId (quotas s) of
        None \<Rightarrow> \<lparr>qc_allowed = False, qc_current = 0, qc_limit = 0,
                 qc_message = Some (Not_found_text ''User quota not found'')\<rparr>
      | Some quota \<Rightarrow>
          if uq_packageLimit quota = 0
          then \<lparr>qc_allowed = False, qc_current = uq_packageUsed quota, qc_limit = uq_packageLimit quota,
                 qc_message = Some (Not_authorized ''Package'')\<rparr>
          else if uq_packageUsed quota \<ge> uq_packageLimit quota
          then \<lparr>qc_allowed = False, qc_current = uq_packageUsed quota, qc_limit = uq_packageLimit quota,
                 qc_message = Some (Full ''Package'' (uq_packageUsed quota) (uq_packageLimit quota))\<rparr>
          else \<lparr>qc_allowed = True, qc_current = uq_packageUsed quota, qc_limit = uq_packageLimit quota,
                 qc_message = None\<rparr>)"

text \<open>The three checks of an instance's own limits share their last part.\<close>

definition instance_check :: "string \<Rightarrow> int option \<Rightarrow> int \<Rightarrow> quota_check" where
  "instance_check what l current =
     (let limit = (case l of None \<Rightarrow> 0 | Some n \<Rightarrow> n) in
      if limit = 0
      then \<lparr>qc_allowed = False, qc_current = current, qc_limit = 0, qc_message = Some (Not_allocated what)\<rparr>
      else if current \<ge> limit
      then \<lparr>qc_allowed = False, qc_current = current, qc_limit = limit,
             qc_message = Some (Full what current limit)\<rparr>
      else \<lparr>qc_allowed = True, qc_current = current, qc_limit = limit, qc_message = None\<rparr>)"

definition no_instance :: quota_check where
  "no_instance = \<lparr>qc_allowed = False, qc_current = 0, qc_limit = 0,
     qc_message = Some (Not_found_text ''Instance not found'')\<rparr>"

definition checkPortQuota :: "int \<Rightarrow> db \<Rightarrow> quota_check" where
  "checkPortQuota instanceId s =
     (case find_key i_id instanceId (instances s) of
        None \<Rightarrow> no_instance
      | Some i \<Rightarrow> instance_check ''Port'' (i_portLimit i)
          (int (count_where (\<lambda>c. ch_parent c = instanceId) (port_mappings s))))"

definition checkSnapshotQuota :: "int \<Rightarrow> db \<Rightarrow> quota_check" where
  "checkSnapshotQuota instanceId s =
     (case find_key i_id instanceId (instances s) of
        None \<Rightarrow> no_instance
      | Some i \<Rightarrow> instance_check ''Snapshot'' (i_snapshotLimit i)
          (int (count_where (\<lambda>c. ch_parent c = instanceId) (snapshots s))))"

text \<open>The flag of a backup row says that it is not deleted.\<close>

definition checkBackupQuota :: "int \<Rightarrow> db \<Rightarrow> quota_check" where
  "checkBackupQuota instanceId s =
     (case find_key i_id instanceId (instances s) of
        None \<Rightarrow> no_instance
      | Some i \<Rightarrow> instance_check ''Backup'' (i_backupLimit i)
          (int (count_where (\<lambda>c. ch_parent c = instanceId \<and> ch_flag c) (backups s))))"

section \<open>Lemmas on hosts\<close>

lemma amounts_id [simp]:
  "h_id (release_amounts a h) = h_id h" "h_id (take_amounts b host h) = h_id h"
  by (simp_all add: release_amounts_def take_amounts_def)

lemma holds_key:
  "update_where (holds_amounts a) f t =
     update_key h_id (ro_hostId a) (\<lambda>h. if holds_amounts a h then f h else h) t"
  by (auto simp: update_key_def update_where_def holds_amounts_def)

definition good_amounts :: "rollback \<Rightarrow> bool" where
  "good_amounts a \<longleftrightarrow> \<not> bad_amount (ro_cpu a) \<and> \<not> bad_amount (ro_memory a) \<and> \<not> bad_amount (ro_disk a)
     \<and> \<not> bad_amount (ro_portCount a)"

text \<open>A release succeeds exactly on a host that holds the amounts, and changes that host only.\<close>

lemma release_Inr:
  assumes "distinct (map h_id (hosts s))"
  shows "decrementHostResourceCounters a s = Inr (u, s') \<longleftrightarrow> good_amounts a
    \<and> (\<exists>h. find_key h_id (ro_hostId a) (hosts s) = Some h \<and> holds_amounts a h)
    \<and> s' = s\<lparr>hosts := update_where (holds_amounts a) (release_amounts a) (hosts s)\<rparr>"
proof -
  have "count_where (holds_amounts a) (hosts s) = count_where (\<lambda>h. h_id h = ro_hostId a \<and> holds_amounts a h) (hosts s)"
    unfolding count_where_def by (rule arg_cong [where f = length], rule filter_cong) (auto simp: holds_amounts_def)
  also have "\<dots> = 1 \<longleftrightarrow> (\<exists>h. find_key h_id (ro_hostId a) (hosts s) = Some h \<and> holds_amounts a h)"
    by (simp add: count_key [OF assms] split: option.splits)
  finally show ?thesis
    by (auto simp: decrementHostResourceCounters_def good_amounts_def Let_def)
qed

lemma release_error:
  "decrementHostResourceCounters a s = Inr (u, s') \<Longrightarrow> instances s' = instances s"
  by (auto simp: decrementHostResourceCounters_def Let_def split: if_splits)

lemma reserve_Inr:
  "reserveHostResources a s = Inr (u, s') \<longleftrightarrow>
     (\<exists>h. find_key h_id (rv_hostId a) (hosts s) = Some h
       \<and> 0 < count_where (\<lambda>p. ch_parent p = rv_hostId a \<and> ch_flag p) (storage_pools s)
       \<and> (0 < h_cpuAllowanceMax h \<longrightarrow> h_cpuUsed h + rv_cpu a \<le> h_cpuAllowanceMax h)
       \<and> (0 < h_memoryMax h \<longrightarrow> h_memoryUsed h + rv_memory a \<le> h_memoryMax h)
       \<and> (0 < rv_portCount a \<longrightarrow> h_natPortsUsed h + rv_portCount a \<le> natPortsTotal h)
       \<and> s' = s\<lparr>hosts := update_key h_id (rv_hostId a) (take_amounts a h) (hosts s)\<rparr>)"
  by (cases "find_key h_id (rv_hostId a) (hosts s)")
    (auto simp: reserveHostResources_def Let_def not_less)

lemma reserve_instances: "reserveHostResources a s = Inr (u, s') \<Longrightarrow> instances s' = instances s"
  by (auto simp: reserve_Inr)

section \<open>No host is overcommitted\<close>

definition host_ok :: "host \<Rightarrow> bool" where
  "host_ok h \<longleftrightarrow> 0 \<le> h_cpuUsed h \<and> 0 \<le> h_memoryUsed h \<and> 0 \<le> h_diskUsed h \<and> 0 \<le> h_natPortsUsed h
     \<and> (0 < h_cpuAllowanceMax h \<longrightarrow> h_cpuUsed h \<le> h_cpuAllowanceMax h)
     \<and> (0 < h_memoryMax h \<longrightarrow> h_memoryUsed h \<le> h_memoryMax h)
     \<and> (0 < h_natPortsUsed h \<longrightarrow> h_natPortsUsed h \<le> natPortsTotal h)"

definition hosts_ok :: "db \<Rightarrow> bool" where
  "hosts_ok s \<longleftrightarrow> distinct (map h_id (hosts s)) \<and> (\<forall>h\<in>set (hosts s). host_ok h)"

definition asks :: "reservation \<Rightarrow> bool" where
  "asks a \<longleftrightarrow> 0 \<le> rv_cpu a \<and> 0 \<le> rv_memory a \<and> 0 \<le> rv_disk a \<and> 0 \<le> rv_portCount a"

lemma natPortsTotal_amounts [simp]:
  "natPortsTotal (release_amounts a h) = natPortsTotal h"
  "natPortsTotal (take_amounts b host h) = natPortsTotal h"
  by (simp_all add: natPortsTotal_def release_amounts_def take_amounts_def)

lemma floor_amount: "\<not> bad_amount x \<Longrightarrow> 0 \<le> \<lfloor>x\<rfloor> \<and> of_int \<lfloor>x\<rfloor> = x"
  by (auto simp: bad_amount_def is_integer_def)

lemma host_ok_release:
  assumes "good_amounts a" "holds_amounts a h" "host_ok h"
  shows "host_ok (release_amounts a h)"
proof -
  obtain c m d n :: int where a: "ro_cpu a = of_int c" "ro_memory a = of_int m" "ro_disk a = of_int d"
      "ro_portCount a = of_int n" and nn: "0 \<le> c" "0 \<le> m" "0 \<le> d" "0 \<le> n"
    using assms(1) floor_amount unfolding good_amounts_def by metis
  then show ?thesis
    using assms(2,3) by (auto simp: host_ok_def holds_amounts_def release_amounts_def natPortsTotal_def)
qed

lemma host_ok_take:
  assumes "asks a" "host_ok h"
    and "0 < h_cpuAllowanceMax h \<longrightarrow> h_cpuUsed h + rv_cpu a \<le> h_cpuAllowanceMax h"
    and "0 < h_memoryMax h \<longrightarrow> h_memoryUsed h + rv_memory a \<le> h_memoryMax h"
    and "0 < rv_portCount a \<longrightarrow> h_natPortsUsed h + rv_portCount a \<le> natPortsTotal h"
  shows "host_ok (take_amounts a h h)"
  using assms by (auto simp: host_ok_def asks_def take_amounts_def natPortsTotal_def)

lemma hosts_ok_release:
  assumes "decrementHostResourceCounters a s = Inr (u, s')" "hosts_ok s"
  shows "hosts_ok s'"
proof -
  have d: "distinct (map h_id (hosts s))" using assms(2) by (simp add: hosts_ok_def)
  have g: "good_amounts a" and h: "hosts s' = update_where (holds_amounts a) (release_amounts a) (hosts s)"
    using assms(1) by (auto simp: release_Inr [OF d])
  show ?thesis
    using assms(2) host_ok_release [OF g] by (auto simp: hosts_ok_def h map_update_where elim!: set_update_whereE)
qed

lemma hosts_ok_reserve:
  assumes "reserveHostResources a s = Inr (u, s')" "asks a" "hosts_ok s"
  shows "hosts_ok s'"
proof -
  have d: "distinct (map h_id (hosts s))" using assms(3) by (simp add: hosts_ok_def)
  obtain h where f: "find_key h_id (rv_hostId a) (hosts s) = Some h"
    and lim: "0 < h_cpuAllowanceMax h \<longrightarrow> h_cpuUsed h + rv_cpu a \<le> h_cpuAllowanceMax h"
      "0 < h_memoryMax h \<longrightarrow> h_memoryUsed h + rv_memory a \<le> h_memoryMax h"
      "0 < rv_portCount a \<longrightarrow> h_natPortsUsed h + rv_portCount a \<le> natPortsTotal h"
    and s': "hosts s' = update_key h_id (rv_hostId a) (take_amounts a h) (hosts s)"
    using assms(1) by (auto simp: reserve_Inr)
  have "host_ok h" using assms(3) find_key_SomeD [OF f] by (simp add: hosts_ok_def)
  then have ok: "host_ok (take_amounts a h h)" using assms(2) lim by (intro host_ok_take)
  have "host_ok g" if g: "g \<in> set (hosts s')" for g
  proof -
    obtain r where r: "r \<in> set (hosts s)" "g = (if h_id r = rv_hostId a then take_amounts a h r else r)"
      using g unfolding s' by (rule set_update_keyE)
    show ?thesis
    proof (cases "h_id r = rv_hostId a")
      case True
      then have "r = h" using find_key_distinct [OF d r(1)] f by simp
      then show ?thesis using r True ok by simp
    next
      case False
      then show ?thesis using r assms(3) by (simp add: hosts_ok_def)
    qed
  qed
  then show ?thesis using d by (simp add: hosts_ok_def s' map_update_key)
qed

lemma claim_Inr:
  "claimInstanceAndReserveResources l k v a s = Inr (b, s') \<Longrightarrow>
     (if b then \<exists>u. reserveHostResources a (s\<lparr>instances := update_where (claimable k v)
              (\<lambda>i. i\<lparr>i_status := IS_creating, i_version := i_version i + 1\<rparr>) (instances s)\<rparr>) = Inr (u, s')
          \<and> count_where (claimable k v) (instances s) \<noteq> 0
      else s' = s \<and> count_where (claimable k v) (instances s) = 0)"
  by (auto simp: claimInstanceAndReserveResources_def Let_def count_where_0 update_where_id
      split: if_splits sum.splits prod.splits)

lemma delete_where_id: "\<forall>r\<in>set t. \<not> P r \<Longrightarrow> delete_where P t = t"
  by (simp add: delete_where_def filter_id_conv)

lemma deleteExpired_Inr:
  "deleteExpiredInstanceAndRollbackResources l k v t a s = Inr (b, s') \<Longrightarrow>
     (if b then \<exists>u. decrementHostResourceCounters a (s\<lparr>instances := delete_where (expired_as k v t) (instances s)\<rparr>)
            = Inr (u, s')
          \<and> count_where (expired_as k v t) (instances s) \<noteq> 0
      else s' = s \<and> count_where (expired_as k v t) (instances s) = 0)"
  by (auto simp: deleteExpiredInstanceAndRollbackResources_def Let_def count_where_0 delete_where_id
      split: if_splits sum.splits prod.splits)

text \<open>The resource operations as steps of the system.\<close>

inductive host_step :: "db \<Rightarrow> db \<Rightarrow> bool" where
  reserve: "asks a \<Longrightarrow> reserveResources a s = Inr (u, s') \<Longrightarrow> host_step s s'"
| rollback: "rollbackResources o' s = Inr (u, s') \<Longrightarrow> host_step s s'"
| claim: "asks a \<Longrightarrow> claimInstanceAndReserveResources l k v a s = Inr (b, s') \<Longrightarrow> host_step s s'"
| expire: "deleteExpiredInstanceAndRollbackResources l k v t o' s = Inr (b, s') \<Longrightarrow> host_step s s'"

lemma hosts_ok_instances [simp]: "hosts_ok (s\<lparr>instances := is\<rparr>) \<longleftrightarrow> hosts_ok s"
  by (simp add: hosts_ok_def)

lemma host_step_ok: "host_step s s' \<Longrightarrow> hosts_ok s \<Longrightarrow> hosts_ok s'"
proof (induction rule: host_step.induct)
  case (claim a l k v s b s')
  then show ?case using claim_Inr [OF claim(2)] hosts_ok_reserve [OF _ claim(1)] by (auto split: if_splits)
next
  case (expire l k v t o' s b s')
  then show ?case using deleteExpired_Inr [OF expire(1)] hosts_ok_release by (fastforce split: if_splits)
qed (auto simp: reserveResources_def rollbackResources_def intro: hosts_ok_reserve hosts_ok_release)

interpretation host_runs: invariant_system host_step hosts_ok
  by unfold_locales (rule host_step_ok)

section \<open>User quota lemmas\<close>

interpretation quota_account: account_table uq_userId "used kind" "credit_used kind" for kind
  by unfold_locales (simp_all add: used_def credit_used_def split: quota_kind.split)

definition check_of :: "quota_kind \<Rightarrow> int \<Rightarrow> db \<Rightarrow> quota_check" where
  "check_of kind = (case kind of Q_host \<Rightarrow> checkHostQuota | Q_friend \<Rightarrow> checkFriendQuota | Q_package \<Rightarrow> checkPackageQuota)"

definition one_more :: "quota_kind \<Rightarrow> quota_data" where
  "one_more kind = \<lparr>qd_hostUsed = (if kind = Q_host then Some 1 else None),
     qd_friendUsed = (if kind = Q_friend then Some 1 else None),
     qd_packageUsed = (if kind = Q_package then Some 1 else None)\<rparr>"

lemma check_allowed:
  "qc_allowed (check_of kind k s) \<longleftrightarrow>
     (\<exists>q. find_key uq_userId k (quotas s) = Some q \<and> limit_of kind q \<noteq> 0 \<and> used kind q < limit_of kind q)"
  by (cases "find_key uq_userId k (quotas s)"; cases kind)
    (simp_all add: check_of_def checkHostQuota_def checkFriendQuota_def checkPackageQuota_def
      limit_of_def used_def not_le)

lemma increment_one:
  "incrementUserQuotaUsed k (one_more kind) s =
     (if find_key uq_userId k (quotas s) = None then Inl RecordNotFound
      else Inr ((), s\<lparr>quotas := update_key uq_userId k (credit_used kind 1) (quotas s)\<rparr>))"
  by (cases kind) (simp_all add: incrementUserQuotaUsed_def one_more_def quota_fields_def
      credit_used_def [abs_def])

section \<open>Properties\<close>

text \<open>C11: No host is ever overcommitted: along any sequence of reservations, releases, claims of failed
  instances and deletions of expired ones, every host's counters stay nonnegative, within its CPU and
  memory caps and within its range of NAT ports.\<close>

theorem hosts_never_overcommitted:
  assumes "host_step\<^sup>*\<^sup>* s s'" "hosts_ok s"
  shows "hosts_ok s'"
  using assms by (rule host_runs.inv_run)

text \<open>A host with room, its storage pool, and a failed instance of user 7 on it.\<close>

definition host_db :: db where
  "host_db = empty_db\<lparr>
     hosts := [\<lparr>h_id = 1, h_userId = 5, h_natPortStart = Some 100, h_natPortEnd = Some 199, h_cpuUsed = 100,
       h_memoryUsed = 512, h_diskUsed = 10, h_natPortsUsed = 3, h_cpuAllowanceMax = 400, h_memoryMax = 2048,
       h_enableResourcePool = True\<rparr>],
     storage_pools := [\<lparr>ch_id = 1, ch_parent = 1, ch_flag = True\<rparr>],
     instances := [\<lparr>i_id = 9, i_incusId = ''a'', i_name = ''a'', i_userId = 7, i_hostId = 1,
       i_packagePlanId = None, i_billingMode = BM_package, i_status = IS_error, i_cleanupPending = False,
       i_portLimit = Some 2, i_snapshotLimit = None, i_backupLimit = None, i_expiresAt = None,
       i_suspendedAt = None, i_suspendedBy = None, i_suspendReason = None, i_autoRenew = False,
       i_autoRenewAttempts = 0, i_lastAutoRenewAt = None, i_expiryNotifiedAt = None, i_version = 4,
       i_displayOrder = 0,
     i_packageId = None, i_billingPrice = None, i_billingCycle = None, i_cpu = 1, i_memory = 1, i_disk = 1,
     i_deletionPending = False, i_remoteDeleted = False, i_deletionMode = None, i_deletionValue = None, i_feeWaiver = False\<rparr>]\<rparr>"

definition order_1 :: reservation where
  "order_1 = \<lparr>rv_hostId = 1, rv_cpu = 200, rv_memory = 1024, rv_disk = 20, rv_portCount = 2\<rparr>"

definition release_of :: "reservation \<Rightarrow> rollback" where
  "release_of a = \<lparr>ro_hostId = rv_hostId a, ro_cpu = of_int (rv_cpu a), ro_memory = of_int (rv_memory a),
     ro_disk = of_int (rv_disk a), ro_portCount = of_int (rv_portCount a)\<rparr>"

lemma host_db_ok: "hosts_ok host_db"
  by (simp add: hosts_ok_def host_db_def host_ok_def natPortsTotal_def)

theorem hosts_never_overcommitted_witness:
  "\<exists>s s'. reserveResources order_1 host_db = Inr ((), s) \<and> rollbackResources (release_of order_1) s = Inr ((), s')
     \<and> hosts_ok s'"
proof -
  have c: "case reserveResources order_1 host_db of Inl e \<Rightarrow> False
    | Inr (u, s) \<Rightarrow> \<not> isl (rollbackResources (release_of order_1) s)"
    by code_simp
  then obtain s where r: "reserveResources order_1 host_db = Inr ((), s)"
    by (auto split: sum.split_asm)
  with c have "\<not> isl (rollbackResources (release_of order_1) s)" by simp
  then obtain s' where b: "rollbackResources (release_of order_1) s = Inr ((), s')"
    by (cases "rollbackResources (release_of order_1) s") auto
  have "asks order_1" by code_simp
  then have "host_step\<^sup>*\<^sup>* host_db s'"
    using host_step.reserve [OF _ r] host_step.rollback [OF b] by (meson converse_rtranclp_into_rtranclp rtranclp.rtrancl_refl)
  then have "hosts_ok s'" using host_db_ok by (rule hosts_never_overcommitted)
  with r b show ?thesis by blast
qed



text \<open>A failed instance is claimed once, together with its resources: a successful claim finds exactly
  an instance of that user in the error state without pending cleanup, moves it to \<open>creating\<close> with the next
  version and reserves the amounts; a second claim of it, by anyone for any amounts, is refused and changes
  nothing.\<close>

theorem claim_once:
  assumes "claimInstanceAndReserveResources l k v a s = Inr (True, s')" "distinct (map i_id (instances s))"
  shows "(\<exists>i. find_key i_id k (instances s) = Some i \<and> i_userId i = v \<and> i_status i = IS_error \<and> \<not> i_cleanupPending i
      \<and> find_key i_id k (instances s') = Some (i\<lparr>i_status := IS_creating, i_version := i_version i + 1\<rparr>))
    \<and> (\<exists>s0. instances s0 = instances s' \<and> hosts s0 = hosts s \<and> reserveResources a s0 = Inr ((), s'))
    \<and> claimInstanceAndReserveResources True k w b s' = Inr (False, s')"
proof -
  let ?f = "\<lambda>i. i\<lparr>i_status := IS_creating, i_version := i_version i + 1\<rparr>"
  let ?s0 = "s\<lparr>instances := update_where (claimable k v) ?f (instances s)\<rparr>"
  have r: "reserveHostResources a ?s0 = Inr ((), s')" and c: "count_where (claimable k v) (instances s) \<noteq> 0"
    using claim_Inr [OF assms(1)] by auto
  have i': "instances s' = update_where (claimable k v) ?f (instances s)" using reserve_instances [OF r] by simp
  have upd: "update_where (claimable k v) ?f (instances s) =
    update_key i_id k (\<lambda>i. if claimable k v i then ?f i else i) (instances s)"
    by (auto simp: update_where_def update_key_def claimable_def)
  obtain i where i: "i \<in> set (instances s)" "claimable k v i" using c by (auto simp: count_where_0)
  then have f: "find_key i_id k (instances s) = Some i"
    using find_key_distinct [OF assms(2) i(1)] by (simp add: claimable_def)
  then have f': "find_key i_id k (instances s') = Some (?f i)"
    using i(2) unfolding i' upd by (subst find_key_update_key) auto
  have "\<not> claimable k w x" if x: "x \<in> set (instances s')" for x
  proof
    assume cl: "claimable k w x"
    have "distinct (map i_id (instances s'))" using assms(2) unfolding i' upd by (subst map_update_key) auto
    then have "find_key i_id (i_id x) (instances s') = Some x" using x by (rule find_key_distinct)
    then have "x = ?f i" using f' cl by (simp add: claimable_def)
    then show False using cl by (simp add: claimable_def)
  qed
  then have "claimInstanceAndReserveResources True k w b s' = Inr (False, s')"
    by (simp add: claimInstanceAndReserveResources_def count_where_0 update_where_id)
  moreover have "\<exists>s0. instances s0 = instances s' \<and> hosts s0 = hosts s \<and> reserveResources a s0 = Inr ((), s')"
    using r i' by (intro exI [of _ ?s0]) (simp add: reserveResources_def)
  ultimately show ?thesis using f f' i(2) by (simp add: claimable_def)
qed

theorem claim_once_witness:
  "\<exists>s'. claimInstanceAndReserveResources True 9 7 order_1 host_db = Inr (True, s')
     \<and> claimInstanceAndReserveResources True 9 7 order_1 s' = Inr (False, s')"
proof -
  have "case claimInstanceAndReserveResources True 9 7 order_1 host_db of Inl e \<Rightarrow> False | Inr (b, s) \<Rightarrow> b" by code_simp
  then obtain s where r: "claimInstanceAndReserveResources True 9 7 order_1 host_db = Inr (True, s)"
    by (auto split: sum.split_asm)
  have "distinct (map i_id (instances host_db))" by code_simp
  from claim_once [OF r this, of 7 order_1] r show ?thesis by blast
qed

text \<open>An expired instance is deleted and its resources are released once: when the deletion succeeds the
  instance (in the expected version and suspension) is gone, its host held the amounts and is lowered by
  them, and repeating the deletion releases nothing; an instance renewed meanwhile is not touched.\<close>

theorem expired_released_once:
  assumes "deleteExpiredInstanceAndRollbackResources l k v t a s = Inr (b, s')" "hosts_ok s"
  shows "(b \<longleftrightarrow> (\<exists>i\<in>set (instances s). expired_as k v t i))
    \<and> (if b then instances s' = delete_where (expired_as k v t) (instances s)
           \<and> (\<exists>h. find_key h_id (ro_hostId a) (hosts s) = Some h \<and> holds_amounts a h
               \<and> find_key h_id (ro_hostId a) (hosts s') = Some (release_amounts a h))
       else s' = s)
    \<and> deleteExpiredInstanceAndRollbackResources True k v t a' s' = Inr (False, s')"
proof -
  let ?s1 = "s\<lparr>instances := delete_where (expired_as k v t) (instances s)\<rparr>"
  have d: "distinct (map h_id (hosts ?s1))" using assms(2) by (simp add: hosts_ok_def)
  have gone: "\<forall>i\<in>set (instances s'). \<not> expired_as k v t i"
  proof (cases b)
    case True
    then have "instances s' = delete_where (expired_as k v t) (instances s)"
      using deleteExpired_Inr [OF assms(1)] by (auto dest: release_error)
    then show ?thesis by (simp add: delete_where_def)
  next
    case False
    then show ?thesis using deleteExpired_Inr [OF assms(1)] by (simp add: count_where_0)
  qed
  then have "deleteExpiredInstanceAndRollbackResources True k v t a' s' = Inr (False, s')"
    by (simp add: deleteExpiredInstanceAndRollbackResources_def count_where_0 delete_where_id)
  moreover have "if b then instances s' = delete_where (expired_as k v t) (instances s)
           \<and> (\<exists>h. find_key h_id (ro_hostId a) (hosts s) = Some h \<and> holds_amounts a h
               \<and> find_key h_id (ro_hostId a) (hosts s') = Some (release_amounts a h))
       else s' = s"
  proof (cases b)
    case True
    then obtain u where rel: "decrementHostResourceCounters a ?s1 = Inr (u, s')"
      using deleteExpired_Inr [OF assms(1)] by auto
    from this [unfolded release_Inr [OF d]] show ?thesis
      using True release_error [OF rel] by (auto simp: holds_key find_key_update_key)
  qed (use deleteExpired_Inr [OF assms(1)] in simp)
  ultimately show ?thesis using deleteExpired_Inr [OF assms(1)] by (auto simp: count_where_0)
qed

text \<open>The host database with its instance marked deleted after expiry at time 50.\<close>

definition expired_db :: db where
  "expired_db = host_db\<lparr>instances := map (\<lambda>i. i\<lparr>i_status := IS_deleted, i_suspendReason := Some ''expired'',
     i_suspendedAt := Some 50\<rparr>) (instances host_db)\<rparr>"

definition release_1 :: rollback where
  "release_1 = \<lparr>ro_hostId = 1, ro_cpu = 100, ro_memory = 512, ro_disk = 10, ro_portCount = 0\<rparr>"

theorem expired_released_once_witness:
  "\<exists>s'. deleteExpiredInstanceAndRollbackResources True 9 4 50 release_1 expired_db = Inr (True, s')
     \<and> deleteExpiredInstanceAndRollbackResources True 9 4 50 release_1 s' = Inr (False, s')"
proof -
  have "case deleteExpiredInstanceAndRollbackResources True 9 4 50 release_1 expired_db of Inl e \<Rightarrow> False | Inr (b, s) \<Rightarrow> b"
    by code_simp
  then obtain s where r: "deleteExpiredInstanceAndRollbackResources True 9 4 50 release_1 expired_db = Inr (True, s)"
    by (auto split: sum.split_asm)
  have "hosts_ok expired_db" using host_db_ok by (simp add: expired_db_def)
  from expired_released_once [OF r this, of release_1] r show ?thesis by blast
qed

text \<open>A quota check guards its counter: it allows exactly users with a nonzero limit not yet reached;
  counting one more after a check keeps the count within the limit, giving one back restores the row, and
  counts never become negative.\<close>

theorem quota_check_sound:
  assumes "qc_allowed (check_of kind k s)" "distinct (map uq_userId (quotas s))"
    and "\<forall>q\<in>set (quotas s). 0 \<le> used kind q"
  shows "\<exists>q s'. find_key uq_userId k (quotas s) = Some q \<and> used kind q < limit_of kind q
    \<and> incrementUserQuotaUsed k (one_more kind) s = Inr ((), s')
    \<and> find_key uq_userId k (quotas s') = Some (credit_used kind 1 q)
    \<and> used kind (credit_used kind 1 q) \<le> limit_of kind (credit_used kind 1 q)
    \<and> decrementUserQuotaUsed k kind s' = s
    \<and> (\<forall>q\<in>set (quotas (decrementUserQuotaUsed k kind s)). 0 \<le> used kind q)"
proof -
  obtain q where q: "find_key uq_userId k (quotas s) = Some q" and lt: "used kind q < limit_of kind q"
    using assms(1) by (auto simp: check_allowed)
  let ?s = "s\<lparr>quotas := update_key uq_userId k (credit_used kind 1) (quotas s)\<rparr>"
  have cid: "uq_userId (credit_used kind n r) = uq_userId r" and cu: "used kind (credit_used kind n r) = used kind r + n"
    and cl: "limit_of kind (credit_used kind n r) = limit_of kind r" for n r
    by (cases kind; simp add: credit_used_def used_def limit_of_def)+
  have cc: "credit_used kind (- 1) (credit_used kind 1 r) = r" for r
    by (cases kind; simp add: credit_used_def)
  have "(if uq_userId (f r) = k \<and> 0 < used kind (f r) then credit_used kind (- 1) (f r) else f r) = r"
    if "r \<in> set (quotas s)" and f: "f = (\<lambda>r. if uq_userId r = k then credit_used kind 1 r else r)" for r f
    using that assms(3) by (fastforce simp: cid cu cc)
  then have "update_where (\<lambda>q. uq_userId q = k \<and> 0 < used kind q) (credit_used kind (- 1)) (quotas ?s) = quotas s"
    by (simp add: update_where_def update_key_def comp_def) (rule map_idI, fastforce)
  then have undo: "decrementUserQuotaUsed k kind ?s = s" by (simp add: decrementUserQuotaUsed_def)
  have nn: "\<forall>q\<in>set (quotas (decrementUserQuotaUsed k kind s)). 0 \<le> used kind q"
    using assms(3) by (auto simp: decrementUserQuotaUsed_def set_update_where cu)
  show ?thesis
    by (rule exI [of _ q], rule exI [of _ ?s])
      (use q lt undo nn in \<open>simp add: increment_one find_key_update_key cid cu cl\<close>)
qed

definition quota_db :: db where
  "quota_db = empty_db\<lparr>quotas := [\<lparr>uq_userId = 3, uq_hostLimit = 0, uq_hostUsed = 0, uq_friendLimit = 2,
     uq_friendUsed = 1, uq_packageLimit = 1, uq_packageUsed = 1\<rparr>]\<rparr>"

theorem quota_check_sound_witness:
  "\<exists>s'. incrementUserQuotaUsed 3 (one_more Q_friend) quota_db = Inr ((), s')
     \<and> decrementUserQuotaUsed 3 Q_friend s' = quota_db"
proof -
  have "qc_allowed (check_of Q_friend 3 quota_db)" "distinct (map uq_userId (quotas quota_db))"
    "\<forall>q\<in>set (quotas quota_db). 0 \<le> used Q_friend q"
    by code_simp+
  from quota_check_sound [OF this] show ?thesis by blast
qed

end
