(* ===== verification/Settlement.thy ===== *)
theory Settlement
  imports RefundValue OfficialCoupons Aff Quota
begin

text \<open>
  How the end of an instance is paid: the settlements of \<open>server/src/db/billing-operations.ts\<close> when a user
  destroys an instance, when the owner of the host or an administrator deletes it, when an instance that is billed by
  the hour is deleted, and when an instance could not be provisioned. Each is one transaction; \<open>granted\<close> says which
  advisory locks it gets, \<open>hostingGranted\<close> whether it gets the lock of the host owner's funds. The instance as
  the caller has read it, the time, and when rows were last changed are arguments.
\<close>

section \<open>Shared statements\<close>

record settled_instance =
  si_id :: int
  si_userId :: int
  si_hostId :: int
  si_name :: string

definition clearDeletionBillingStateData :: "instance_row \<Rightarrow> instance_row" where
  "clearDeletionBillingStateData i = i\<lparr>i_deletionPending := False, i_remoteDeleted := True, i_deletionMode := None,
     i_deletionValue := None, i_feeWaiver := False\<rparr>"

definition clear_deletion :: "int \<Rightarrow> db \<Rightarrow> db" where
  "clear_deletion instanceId s = s\<lparr>instances := update_key i_id instanceId clearDeletionBillingStateData (instances s)\<rparr>"

definition remotely_deleted :: "int \<Rightarrow> db \<Rightarrow> bool" where
  "remotely_deleted instanceId s \<longleftrightarrow>
     (case find_key i_id instanceId (instances s) of None \<Rightarrow> False | Some i \<Rightarrow> i_remoteDeleted i)"

text \<open>The refund: balance, balance log, billing record; then the owner of the host gives back his share.\<close>

definition pay_refund :: "int \<Rightarrow> int \<Rightarrow> int \<Rightarrow> rat \<Rightarrow> remark \<Rightarrow> db \<Rightarrow> db outcome" where
  "pay_refund now userId instanceId refundAmount remark s =
     (case find_key u_id userId (users s) of
        None \<Rightarrow> Inl (Failure (M_user_vanished userId))
      | Some currentUser \<Rightarrow>
          let oldBalance = u_balance currentUser;
              newBalance = roundCurrency (oldBalance + refundAmount) in
          Inr (createBillingRecord now \<lparr>bi_instanceId = instanceId, bi_userId = userId, bi_type = BT_refund,
                 bi_amount = - refundAmount, bi_months = 0, bi_periodStart = now, bi_periodEnd = now\<rparr>
            (add_log (mk_log userId BL_refund refundAmount oldBalance newBalance None (Some instanceId) None (Some remark))
              (put_balance userId (oldBalance + refundAmount) s))))"

definition refund_and_deduct ::
    "int \<Rightarrow> bool \<Rightarrow> settled_instance \<Rightarrow> rat \<Rightarrow> remark \<Rightarrow> rat \<Rightarrow> remark \<Rightarrow> db \<Rightarrow> db outcome" where
  "refund_and_deduct now hostingGranted inst refundAmount remark hostedRefundAmount deductRemark s =
     (case pay_refund now (si_userId inst) (si_id inst) refundAmount remark s of
        Inl e \<Rightarrow> Inl e
      | Inr s1 \<Rightarrow>
          (case deductHostingBalance now hostingGranted (si_hostId inst) hostedRefundAmount (si_id inst) deductRemark s1 of
             Inl e \<Rightarrow> Inl e | Inr (_, s2) \<Rightarrow> Inr s2))"

section \<open>Deletions\<close>

record destroy_result =
  ds_refundAmount :: rat
  ds_feeAmount :: rat
  ds_isFirstTime :: bool

text \<open>The amounts: a first destruction and a waived one are free, others cost a tenth.\<close>

definition destroy_amounts :: "(int \<Rightarrow> int) \<Rightarrow> int \<Rightarrow> settled_instance \<Rightarrow> rat \<Rightarrow> bool \<Rightarrow> db \<Rightarrow> destroy_result" where
  "destroy_amounts updatedAt requestUserId inst value feeWaiver s =
     (let isFirstTime = count_where (\<lambda>d. dr_userId d = requestUserId) (destroy_records s) = 0;
          refundableValue = roundCurrency (min (max 0 value) (getMaxRefundableInTransaction updatedAt (si_id inst) s));
          feeAmount = (if \<not> feeWaiver \<and> \<not> isFirstTime then roundCurrency (refundableValue * (1 / 10)) else 0) in
      \<lparr>ds_refundAmount = roundCurrency (max 0 (refundableValue - feeAmount)), ds_feeAmount = feeAmount, ds_isFirstTime = isFirstTime\<rparr>)"

definition destroy_row :: "int \<Rightarrow> settled_instance \<Rightarrow> destroy_result \<Rightarrow> destroy_record" where
  "destroy_row k inst r = \<lparr>dr_userId = k, dr_hostId = si_hostId inst, dr_instanceId = si_id inst, dr_instanceName = si_name inst,
     dr_refundAmount = column 2 (ds_refundAmount r), dr_feeAmount = column 2 (ds_feeAmount r), dr_isFirstTime = ds_isFirstTime r\<rparr>"

definition settleUserDestroyBilling ::
    "(int \<Rightarrow> int) \<Rightarrow> int \<Rightarrow> (int \<Rightarrow> int \<Rightarrow> bool) \<Rightarrow> bool \<Rightarrow> int \<Rightarrow> settled_instance \<Rightarrow> rat \<Rightarrow> bool \<Rightarrow> db
      \<Rightarrow> (destroy_result \<times> db) outcome" where
  "settleUserDestroyBilling updatedAt now granted hostingGranted requestUserId inst value feeWaiver s =
     (if \<not> granted INSTANCE_OPERATION_LOCK_NAMESPACE (si_id inst)
      then Inl (LockBusy INSTANCE_OPERATION_LOCK_NAMESPACE (si_id inst))
      else if \<not> granted USER_DESTROY_BILLING_LOCK_NAMESPACE requestUserId
      then Inl (LockBusy USER_DESTROY_BILLING_LOCK_NAMESPACE requestUserId)
      else if \<not> granted USER_BALANCE_LOCK_NAMESPACE (si_userId inst)
      then Inl (LockBusy USER_BALANCE_LOCK_NAMESPACE (si_userId inst))
      else if \<not> remotely_deleted (si_id inst) s then Inl (Error ''REMOTE_DELETION_NOT_CONFIRMED'')
      else case find_key dr_instanceId (si_id inst) (destroy_records s) of
        Some d \<Rightarrow>
          Inr (\<lparr>ds_refundAmount = dr_refundAmount d, ds_feeAmount = dr_feeAmount d, ds_isFirstTime = dr_isFirstTime d\<rparr>,
            clear_deletion (si_id inst) s)
      | None \<Rightarrow>
          let r = destroy_amounts updatedAt requestUserId inst value feeWaiver s;
              refundAmount = ds_refundAmount r;
              hostedRefundAmount = (if refundAmount > 0
                then calculateHostedRefundAmount updatedAt now (si_id inst) refundAmount False s else 0) in
          case (if refundAmount > 0
                then refund_and_deduct now hostingGranted inst refundAmount (R_destroyed_refund (si_name inst) feeWaiver (ds_feeAmount r))
                  hostedRefundAmount (R_destroy_deduction (si_name inst)) s
                else Inr s) of
            Inl e \<Rightarrow> Inl e
          | Inr s1 \<Rightarrow>
              Inr (r, clear_deletion (si_id inst) (s1\<lparr>destroy_records := destroy_records s1 @ [destroy_row requestUserId inst r]\<rparr>)))"


definition completeHourlyDeletionBilling :: "bool \<Rightarrow> int \<Rightarrow> db \<Rightarrow> db outcome" where
  "completeHourlyDeletionBilling locked instanceId s =
     (case advisoryTransactionLock locked INSTANCE_OPERATION_LOCK_NAMESPACE instanceId of Inl e \<Rightarrow> Inl e | Inr _ \<Rightarrow>
      case find_key i_id instanceId (instances s) of
        None \<Rightarrow> Inr s
      | Some i \<Rightarrow>
          if \<not> i_deletionPending i then Inr s
          else if \<not> i_remoteDeleted i then Inl (Error ''REMOTE_DELETION_NOT_CONFIRMED'')
          else if i_deletionMode i \<noteq> Some ''hourly_close'' then Inl (Error ''INVALID_HOURLY_DELETION_BILLING_MODE'')
          else Inr (clear_deletion instanceId s))"

section \<open>Provisioning\<close>

definition cleanup_free :: "(int \<Rightarrow> int) \<Rightarrow> int option \<Rightarrow> instance_row \<Rightarrow> bool" where
  "cleanup_free updatedAt reclaimPendingBefore i \<longleftrightarrow>
     \<not> i_cleanupPending i \<or> (case reclaimPendingBefore of None \<Rightarrow> False | Some t \<Rightarrow> updatedAt (i_id i) < t)"

definition claim_cleanup :: "instance_row \<Rightarrow> instance_row" where
  "claim_cleanup i = i\<lparr>i_cleanupPending := True, i_version := i_version i + 1\<rparr>"

definition claimCreatingInstanceForCleanup :: "(int \<Rightarrow> int) \<Rightarrow> bool \<Rightarrow> int \<Rightarrow> int option \<Rightarrow> db \<Rightarrow> (bool \<times> db) outcome" where
  "claimCreatingInstanceForCleanup updatedAt locked instanceId reclaimPendingBefore s =
     (case advisoryTransactionLock locked INSTANCE_OPERATION_LOCK_NAMESPACE instanceId of Inl e \<Rightarrow> Inl e | Inr _ \<Rightarrow>
      let hit = (\<lambda>i. i_id i = instanceId \<and> i_status i = IS_creating \<and> cleanup_free updatedAt reclaimPendingBefore i) in
      Inr (count_where hit (instances s) = 1, s\<lparr>instances := update_where hit claim_cleanup (instances s)\<rparr>))"

definition provisioned_row :: "instance_status \<Rightarrow> instance_row \<Rightarrow> instance_row" where
  "provisioned_row status i = i\<lparr>i_status := status, i_cleanupPending := False, i_version := i_version i + 1\<rparr>"

definition markCreatingInstanceProvisioned :: "bool \<Rightarrow> int \<Rightarrow> instance_status \<Rightarrow> db \<Rightarrow> (bool \<times> db) outcome" where
  "markCreatingInstanceProvisioned locked instanceId status s =
     (case advisoryTransactionLock locked INSTANCE_OPERATION_LOCK_NAMESPACE instanceId of Inl e \<Rightarrow> Inl e | Inr _ \<Rightarrow>
      case find_key i_id instanceId (instances s) of
        None \<Rightarrow> Inr (False, s)
      | Some i \<Rightarrow>
          if i_status i = IS_running \<or> i_status i = IS_stopped then Inr (True, s)
          else if i_status i \<noteq> IS_creating then Inr (False, s)
          else Inr (True, s\<lparr>instances := update_key i_id instanceId (provisioned_row status) (instances s)\<rparr>))"

definition roll_back :: "rollback option \<Rightarrow> db \<Rightarrow> (unit \<times> db) outcome" where
  "roll_back r s = (case r of None \<Rightarrow> Inr ((), s) | Some opts \<Rightarrow> decrementHostResourceCounters opts s)"

definition failCreatingInstanceAndRollbackResources :: "bool \<Rightarrow> int \<Rightarrow> rollback option \<Rightarrow> db \<Rightarrow> (bool \<times> db) outcome" where
  "failCreatingInstanceAndRollbackResources locked instanceId resourceRollback s =
     (case advisoryTransactionLock locked INSTANCE_OPERATION_LOCK_NAMESPACE instanceId of Inl e \<Rightarrow> Inl e | Inr _ \<Rightarrow>
      let hit = (\<lambda>i. i_id i = instanceId \<and> i_status i = IS_creating);
          claimed = count_where hit (instances s);
          s1 = s\<lparr>instances := update_where hit (\<lambda>i. i\<lparr>i_status := IS_error\<rparr>) (instances s)\<rparr> in
      if claimed = 0 then Inr (False, s1)
      else case roll_back resourceRollback s1 of Inl e \<Rightarrow> Inl e | Inr (_, s2) \<Rightarrow> Inr (claimed = 1, s2))"

definition fail_row :: "instance_row \<Rightarrow> instance_row" where
  "fail_row i = i\<lparr>i_status := IS_error, i_cleanupPending := False, i_version := i_version i + 1\<rparr>"

text \<open>The prepaid part of an hourly order goes back from the reserved to the free balance.\<close>

definition release_prepaid :: "rat \<Rightarrow> user \<Rightarrow> user" where
  "release_prepaid prepaid u = u\<lparr>u_balance := column 8 (u_balance u + prepaid),
     u_hourlyReserved := column 8 (u_hourlyReserved u - prepaid)\<rparr>"

definition close_account :: "hourly_account \<Rightarrow> hourly_account" where
  "close_account a = a\<lparr>ha_status := HS_closed, ha_nextSettlementAt := None, ha_version := ha_version a + 1\<rparr>"

definition empty_account :: "rat \<Rightarrow> hourly_account \<Rightarrow> hourly_account" where
  "empty_account prepaid a = (close_account a)\<lparr>ha_prepaid := 0, ha_totalReleased := column 8 (ha_totalReleased a + prepaid)\<rparr>"

definition refund_hourly :: "settled_instance \<Rightarrow> string \<Rightarrow> db \<Rightarrow> (rat \<times> db) outcome" where
  "refund_hourly inst reason s =
     (case find_key ha_instanceId (si_id inst) (hourly_accounts s) of
        None \<Rightarrow> Inr (0, s)
      | Some account \<Rightarrow>
          let prepaid = ha_prepaid account in
          if prepaid > 0 then
            (case find_key u_id (si_userId inst) (users s) of
               None \<Rightarrow> Inl (Failure (M_user_vanished (si_userId inst)))
             | Some user \<Rightarrow>
                 Inr (prepaid, (add_log (mk_log (si_userId inst) BL_hourly_release prepaid (u_balance user) (u_balance user + prepaid)
                     None (Some (si_id inst)) None (Some (R_hourly_provision_release (si_name inst) reason)))
                   (s\<lparr>users := update_key u_id (si_userId inst) (release_prepaid prepaid) (users s)\<rparr>))
                   \<lparr>hourly_accounts := update_key ha_id (ha_id account) (empty_account prepaid) (hourly_accounts s)\<rparr>))
          else Inr (0, s\<lparr>hourly_accounts := update_key ha_id (ha_id account) close_account (hourly_accounts s)\<rparr>))"

definition charged_on :: "int \<Rightarrow> db \<Rightarrow> rat" where
  "charged_on instanceId s =
     (\<Sum>r\<leftarrow>filter (\<lambda>r. br_instanceId r = instanceId \<and> br_type r = BT_newPurchase) (billing_records s). max 0 (br_amount r))"

definition refunded_on :: "int \<Rightarrow> db \<Rightarrow> rat" where
  "refunded_on instanceId s =
     (\<Sum>r\<leftarrow>filter (\<lambda>r. br_instanceId r = instanceId \<and> br_type r = BT_refund) (billing_records s). \<bar>br_amount r\<bar>)"

definition refund_purchase :: "int \<Rightarrow> (int \<Rightarrow> bool) \<Rightarrow> bool \<Rightarrow> settled_instance \<Rightarrow> string \<Rightarrow> db \<Rightarrow> (rat \<times> db) outcome" where
  "refund_purchase now couponGranted hostingGranted inst reason s =
     (let refundAmount = roundCurrency (max 0 (charged_on (si_id inst) s - refunded_on (si_id inst) s)) in
      case releaseOfficialCouponUsageByInstance couponGranted (si_id inst) s of
        Inl e \<Rightarrow> Inl e
      | Inr (releasedCoupon, s1) \<Rightarrow>
          (case reverseAffCommissionForInstance (si_id inst) s1 of
             Inl e \<Rightarrow> Inl e
           | Inr (_, s2) \<Rightarrow>
               if refundAmount \<le> 0 then Inr (0, s2)
               else
                 let discount = (case releasedCoupon of None \<Rightarrow> 0 | Some c \<Rightarrow> rl_discountAmount c) in
                 (case refund_and_deduct now hostingGranted inst refundAmount (R_provision_refund (si_name inst) reason)
                     (roundCurrency (refundAmount + discount)) (R_provision_deduction (si_name inst)) s2 of
                    Inl e \<Rightarrow> Inl e | Inr s3 \<Rightarrow> Inr (refundAmount, s3))))"

record provision_result =
  pv_claimed :: bool
  pv_refundAmount :: rat

definition failCreatingInstanceAndRefund ::
    "int \<Rightarrow> bool \<Rightarrow> (int \<Rightarrow> bool) \<Rightarrow> bool \<Rightarrow> int \<Rightarrow> string \<Rightarrow> rollback option \<Rightarrow> db \<Rightarrow> (provision_result \<times> db) outcome" where
  "failCreatingInstanceAndRefund now locked couponGranted hostingGranted instanceId reason resourceRollback s =
     (case advisoryTransactionLock locked INSTANCE_OPERATION_LOCK_NAMESPACE instanceId of Inl e \<Rightarrow> Inl e | Inr _ \<Rightarrow>
      let hit = (\<lambda>i. i_id i = instanceId \<and> i_status i = IS_creating \<and> i_cleanupPending i);
          s1 = s\<lparr>instances := update_where hit fail_row (instances s)\<rparr> in
      if count_where hit (instances s) = 0 then Inr (\<lparr>pv_claimed = False, pv_refundAmount = 0\<rparr>, s1)
      else case find_key i_id instanceId (instances s1) of
        None \<Rightarrow> Inl (Error ''Instance disappeared during failed provision settlement'')
      | Some i \<Rightarrow>
          let inst = \<lparr>si_id = instanceId, si_userId = i_userId i, si_hostId = i_hostId i, si_name = i_name i\<rparr> in
          (case roll_back resourceRollback s1 of
             Inl e \<Rightarrow> Inl e
           | Inr (_, s2) \<Rightarrow>
               (case (if i_billingMode i = BM_hourly then refund_hourly inst reason s2
                      else refund_purchase now couponGranted hostingGranted inst reason s2) of
                  Inl e \<Rightarrow> Inl e
                | Inr (refundAmount, s3) \<Rightarrow> Inr (\<lparr>pv_claimed = True, pv_refundAmount = refundAmount\<rparr>, s3))))"

section \<open>What a refund does\<close>

definition refund_row :: "int \<Rightarrow> int \<Rightarrow> int \<Rightarrow> rat \<Rightarrow> billing_record" where
  "refund_row now userId instanceId amount = \<lparr>br_type = BT_refund, br_transferId = None, br_instanceId = instanceId, br_userId = userId,
     br_amount = - amount, br_months = 0, br_periodStart = now, br_periodEnd = now, br_createdAt = now\<rparr>"

definition funds_of :: "db \<Rightarrow> int \<Rightarrow> rat" where
  "funds_of s k = frozen_of s k + hosting_of s k + balance_of s k"

text \<open>The tables a settlement leaves alone.\<close>

definition others :: "db \<Rightarrow> db" where
  "others s = (rest s)\<lparr>billing_records := []\<rparr>"

lemma others_tables:
  assumes "others s' = others s"
  shows "instances s' = instances s" "hosts s' = hosts s" "official_usages s' = official_usages s" "destroy_records s' = destroy_records s"
    "aff_codes s' = aff_codes s" "aff_logs s' = aff_logs s" "migration_notes s' = migration_notes s" "hourly_accounts s' = hourly_accounts s"
    "official_coupons s' = official_coupons s"
proof -
  have "f (others s') = f (others s)" for f :: "db \<Rightarrow> 'x" by (simp add: assms)
  note eq = this
  show "instances s' = instances s" using eq [of instances] by (simp add: others_def rest_def)
  show "hosts s' = hosts s" using eq [of hosts] by (simp add: others_def rest_def)
  show "official_usages s' = official_usages s" using eq [of official_usages] by (simp add: others_def rest_def)
  show "destroy_records s' = destroy_records s" using eq [of destroy_records] by (simp add: others_def rest_def)
  show "aff_codes s' = aff_codes s" using eq [of aff_codes] by (simp add: others_def rest_def)
  show "aff_logs s' = aff_logs s" using eq [of aff_logs] by (simp add: others_def rest_def)
  show "migration_notes s' = migration_notes s" using eq [of migration_notes] by (simp add: others_def rest_def)
  show "hourly_accounts s' = hourly_accounts s" using eq [of hourly_accounts] by (simp add: others_def rest_def)
  show "official_coupons s' = official_coupons s" using eq [of official_coupons] by (simp add: others_def rest_def)
qed

lemma others_hosting: "hosting_frame s s' \<Longrightarrow> others s' = others s"
  by (simp add: hosting_frame_def others_def)

lemma createBillingRecord_simps [simp]:
  "users (createBillingRecord now d s) = users s" "hosting_logs (createBillingRecord now d s) = hosting_logs s"
  "hosting_seq (createBillingRecord now d s) = hosting_seq s" "hosts (createBillingRecord now d s) = hosts s"
  "others (createBillingRecord now d s) = others s"
  by (simp_all add: createBillingRecord_def others_def rest_def)

lemma resolve_cong:
  assumes "hosts s' = hosts s" and "hosting_logs s' = hosting_logs s" and "\<And>k. role_of k s' = role_of k s"
  shows "resolveHostedIncomeOwner h i b s' = resolveHostedIncomeOwner h i b s"
  unfolding resolveHostedIncomeOwner_def assms by (rule refl)

lemma funds_cong:
  "users s' = users s \<Longrightarrow> balance_of s' k = balance_of s k" "users s' = users s \<Longrightarrow> hosting_of s' k = hosting_of s k"
  "hosting_logs s' = hosting_logs s \<Longrightarrow> frozen_of s' k = frozen_of s k" "users s' = users s \<Longrightarrow> role_of k s' = role_of k s"
  by (simp_all add: balance_of_def hosting_of_def frozen_of_def role_of_def)

lemma pay_refund_effect:
  assumes w: "hosting_wf s" and a: "has_scale 2 a" and run: "pay_refund now k i a re s = Inr s'"
  shows "hosting_wf s' \<and> (\<forall>j. balance_of s' j = balance_of s j + (if j = k then a else 0)) \<and> (\<forall>j. hosting_of s' j = hosting_of s j)
    \<and> (\<forall>j. frozen_of s' j = frozen_of s j) \<and> billing_records s' = billing_records s @ [refund_row now k i a] \<and> others s' = others s
    \<and> (\<forall>h x b. resolveHostedIncomeOwner h x b s' = resolveHostedIncomeOwner h x b s)"
proof -
  from run obtain u where u: "find_key u_id k (users s) = Some u"
    and s': "s' = createBillingRecord now \<lparr>bi_instanceId = i, bi_userId = k, bi_type = BT_refund, bi_amount = - a, bi_months = 0,
        bi_periodStart = now, bi_periodEnd = now\<rparr> (add_log (mk_log k BL_refund a (u_balance u) (roundCurrency (u_balance u + a)) None (Some i) None (Some re))
          (put_balance k (u_balance u + a) s))"
    by (auto simp: pay_refund_def Let_def split: option.splits)
  define t where "t = add_log (mk_log k BL_refund a (u_balance u) (roundCurrency (u_balance u + a)) None (Some i) None (Some re)) (put_balance k (u_balance u + a) s)"
  have sc: "has_scale 8 (u_balance u + a)" using w u has_scale_28 [OF a] by (auto simp: hosting_wf_def dest: balances_wf_scale)
  have t: "hosting_wf t" "hosting_frame s t" "hosting_logs t = hosting_logs s" "billing_records t = billing_records s" "\<And>j. hosting_of t j = hosting_of s j"
    using w hosting_frame_trans [OF hosting_frame_put(2) hosting_frame_put(3)] by (simp_all add: t_def)
  have b: "balance_of t j = balance_of s j + (if j = k then a else 0)" for j
    unfolding t_def using balance_of_put [OF u] sc balance_of_Some [OF u] by (simp add: to_fixed_id)
  have role: "role_of j t = role_of j s" for j using t(2) by (simp add: hosting_frame_def)
  have s't: "s' = createBillingRecord now \<lparr>bi_instanceId = i, bi_userId = k, bi_type = BT_refund, bi_amount = - a, bi_months = 0,
        bi_periodStart = now, bi_periodEnd = now\<rparr> t" by (simp add: s' t_def)
  have same: "users s' = users t" "hosting_logs s' = hosting_logs t" "hosting_seq s' = hosting_seq t" "hosts s' = hosts t" "others s' = others t"
    by (simp_all add: s't)
  have "hosting_wf s'" using t(1) by (simp add: hosting_wf_def balances_wf_def same)
  moreover have "balance_of s' j = balance_of s j + (if j = k then a else 0)" "hosting_of s' j = hosting_of s j" "frozen_of s' j = frozen_of s j" for j
    using b t(5) by (simp_all add: funds_cong [of s' t] same funds_cong(3) [OF t(3)])
  moreover have "billing_records s' = billing_records s @ [refund_row now k i a]"
    using t(4) a by (simp add: s't createBillingRecord_def refund_row_def to_fixed_id has_scale_uminus)
  moreover have "others s' = others s" using others_hosting [OF t(2)] same by simp
  moreover have "resolveHostedIncomeOwner h x c s' = resolveHostedIncomeOwner h x c s" for h x c
    using hosting_frame_tables(2) [OF t(2)] t(3) role by (intro resolve_cong) (simp_all add: same funds_cong(4) [of s' t])
  ultimately show ?thesis by blast
qed

lemma refund_and_deduct_effect:
  assumes w: "hosting_wf s" and a: "has_scale 2 a" and h: "0 \<le> hosted" "has_scale 2 hosted"
    and run: "refund_and_deduct now lk inst a re hosted de s = Inr s'"
    and o: "owner = resolveHostedIncomeOwner (si_hostId inst) (Some (si_id inst)) True s"
  shows "hosting_wf s' \<and> billing_records s' = billing_records s @ [refund_row now (si_userId inst) (si_id inst) a] \<and> others s' = others s
    \<and> (\<forall>k. owner \<noteq> Some k \<longrightarrow> balance_of s' k = balance_of s k + (if k = si_userId inst then a else 0) \<and> hosting_of s' k = hosting_of s k
         \<and> frozen_of s' k = frozen_of s k)
    \<and> (\<forall>k. owner = Some k \<longrightarrow> funds_of s k + (if k = si_userId inst then a else 0) - hosted \<le> funds_of s' k
         \<and> funds_of s' k \<le> funds_of s k + (if k = si_userId inst then a else 0))"
proof -
  from run obtain s1 d where p: "pay_refund now (si_userId inst) (si_id inst) a re s = Inr s1"
    and dd: "deductHostingBalance now lk (si_hostId inst) hosted (si_id inst) de s1 = Inr (d, s')"
    by (auto simp: refund_and_deduct_def split: sum.splits)
  note 1 = pay_refund_effect [OF w a p]
  show ?thesis
  proof (cases d)
    case None
    then have "owner = None \<and> s' = s1" using dd 1 unfolding o
      by (auto simp: deductHostingBalance_def Let_def split: option.splits if_splits prod.splits)
    with 1 show ?thesis by simp
  next
    case (Some x)
    have w1: "hosting_wf s1" using 1 by blast
    note 2 = deduct_effect [OF w1 h(1) has_scale_28 [OF h(2)] dd [unfolded Some]]
    let ?o = "dd_hostOwnerId x"
    have own: "owner = Some ?o" using 1 2 unfolding o by simp
    have parts: "0 \<le> dd_fromFrozen x" "0 \<le> dd_fromAvailable x" "0 \<le> dd_fromBalance x" "dd_fromFrozen x + dd_fromAvailable x + dd_fromBalance x \<le> hosted"
      using 2 frozen_on_nonneg [OF w1, of ?o "si_id inst"] h(1) unfolding three_funds_def by (auto simp: min_def)
    have "others s' = others s" "billing_records s' = billing_records s1"
      using 1 2 others_hosting hosting_frame_tables(3) by metis+
    moreover have "funds_of s' ?o = funds_of s ?o + (if ?o = si_userId inst then a else 0) - (dd_fromFrozen x + dd_fromAvailable x + dd_fromBalance x)"
      using 1 2 by (simp add: funds_of_def)
    ultimately show ?thesis using 1 2 parts own by auto
  qed
qed

lemma hosted_amount_ok:
  assumes "0 < a"
  shows "0 \<le> calculateHostedRefundAmount updatedAt now i a b s \<and> has_scale 2 (calculateHostedRefundAmount updatedAt now i a b s)"
proof -
  let ?b = "getBillingValueBreakdown updatedAt now i s"
  have "has_scale 2 (hosted_share ?b b a)" by (simp add: hosted_share_def Let_def)
  moreover have "0 \<le> hosted_share ?b b a"
  proof -
    have le: "0 \<le> vb_remainingHostedValue ?b" "vb_remainingHostedValue ?b \<le> vb_totalHostedValue ?b"
      using breakdown_bounds [where i = i] by metis+
    moreover have "has_scale 2 (vb_remainingHostedValue ?b)" "has_scale 2 (vb_totalHostedValue ?b)"
      by (simp_all add: getBillingValueBreakdown_def Let_def)
    ultimately show ?thesis using hosted_share_bounds [of a ?b b] assms by simp
  qed
  ultimately show ?thesis using assms by (simp add: calculateHostedRefundAmount_def Let_def roundCurrency_nonneg)
qed

lemma clear_deletion_fields:
  "users (clear_deletion i s) = users s" "billing_records (clear_deletion i s) = billing_records s"
  "hosting_logs (clear_deletion i s) = hosting_logs s" "destroy_records (clear_deletion i s) = destroy_records s"
  "migration_notes (clear_deletion i s) = migration_notes s" "hosting_wf (clear_deletion i s) = hosting_wf s"
  by (simp_all add: clear_deletion_def hosting_wf_def balances_wf_def)

lemma clear_deletion_again: "clear_deletion i (clear_deletion i s) = clear_deletion i s"
proof -
  have "update_key i_id i clearDeletionBillingStateData (update_key i_id i clearDeletionBillingStateData t) =
      update_key i_id i clearDeletionBillingStateData t" for t
    by (induction t) (simp_all add: clearDeletionBillingStateData_def)
  then show ?thesis by (simp add: clear_deletion_def)
qed

lemma remotely_deleted_clear: "remotely_deleted i s \<Longrightarrow> remotely_deleted i (clear_deletion i s)"
  by (auto simp: remotely_deleted_def clear_deletion_def find_key_update_key clearDeletionBillingStateData_def split: option.splits)

text \<open>What a settlement has to leave when it refunds \<open>a\<close> and may take \<open>hosted\<close> from the host owner.\<close>

definition settled :: "settled_instance \<Rightarrow> rat \<Rightarrow> rat \<Rightarrow> int option \<Rightarrow> db \<Rightarrow> db \<Rightarrow> bool" where
  "settled inst a hosted owner s s' \<longleftrightarrow>
     (\<forall>k. owner \<noteq> Some k \<longrightarrow> balance_of s' k = balance_of s k + (if k = si_userId inst then a else 0)
        \<and> hosting_of s' k = hosting_of s k \<and> frozen_of s' k = frozen_of s k)
     \<and> (\<forall>k. owner = Some k \<longrightarrow> funds_of s k + (if k = si_userId inst then a else 0) - hosted \<le> funds_of s' k
        \<and> funds_of s' k \<le> funds_of s k + (if k = si_userId inst then a else 0))"

definition refund_rows :: "int \<Rightarrow> settled_instance \<Rightarrow> rat \<Rightarrow> billing_record list" where
  "refund_rows now inst a = (if a > 0 then [refund_row now (si_userId inst) (si_id inst) a] else [])"

lemma refund_part:
  assumes w: "hosting_wf s" and a: "has_scale 2 a" "0 \<le> a"
    and hosted: "hosted = (if a > 0 then calculateHostedRefundAmount updatedAt t (si_id inst) a b s else 0)"
    and run: "(if a > 0 then refund_and_deduct now lk inst a re hosted de s else Inr s) = Inr s'"
    and o: "owner = resolveHostedIncomeOwner (si_hostId inst) (Some (si_id inst)) True s"
  shows "hosting_wf s' \<and> billing_records s' = billing_records s @ refund_rows now inst a \<and> others s' = others s \<and> settled inst a hosted owner s s'"
proof (cases "a > 0")
  case True
  from run True have r: "refund_and_deduct now lk inst a re hosted de s = Inr s'" by simp
  have h: "0 \<le> hosted" "has_scale 2 hosted" using hosted_amount_ok [OF True] True by (simp_all add: hosted)
  from refund_and_deduct_effect [OF w a(1) h r o] True show ?thesis by (simp add: settled_def refund_rows_def)
next
  case False
  then have "a = 0" "s' = s" "hosted = 0" using a(2) run hosted by simp_all
  then show ?thesis using w by (simp add: settled_def refund_rows_def)
qed

lemma max_refundable_scale: "has_scale 2 (getMaxRefundableInTransaction u i s)" "0 \<le> getMaxRefundableInTransaction u i s"
  by (simp_all add: getMaxRefundableInTransaction_def getMaxRefundable_def Let_def roundCurrency_nonneg)

lemma capped:
  assumes "a = roundCurrency (min (max 0 v) m)" and "has_scale 2 m" and "0 \<le> m"
  shows "0 \<le> a" "a \<le> m" "has_scale 2 a"
proof -
  show "0 \<le> a" using assms by (auto intro: roundCurrency_nonneg)
  show "a \<le> m" using assms roundCurrency_min [OF assms(2), of "max 0 v"] by simp
  show "has_scale 2 a" by (simp add: assms(1))
qed

text \<open>A settlement of a destroyed instance, taken apart.\<close>

lemma destroy_amounts_ok:
  assumes "r = destroy_amounts updatedAt k inst value waiver s" and "v = roundCurrency (min (max 0 value) (getMaxRefundableInTransaction updatedAt (si_id inst) s))"
  shows "0 \<le> ds_refundAmount r \<and> 0 \<le> ds_feeAmount r \<and> ds_refundAmount r + ds_feeAmount r = v \<and> has_scale 2 (ds_refundAmount r)
    \<and> has_scale 2 (ds_feeAmount r)"
proof -
  note v = capped [OF assms(2) max_refundable_scale]
  define f where "f = ds_feeAmount r"
  have f: "f = 0 \<or> f = roundCurrency (v * (1 / 10))" unfolding f_def assms(1) assms(2) destroy_amounts_def Let_def by simp
  have "roundCurrency (v * (1 / 10)) \<le> roundCurrency v" using v(1) by (intro roundCurrency_mono) simp
  then have "f \<le> v" "0 \<le> f" "has_scale 2 f" using f v by (auto simp: roundCurrency_id intro!: roundCurrency_nonneg)
  moreover have "ds_refundAmount r = roundCurrency (max 0 (v - f))" unfolding f_def assms(1) assms(2) destroy_amounts_def Let_def by simp
  ultimately show ?thesis using v(3) by (simp add: f_def [symmetric] roundCurrency_id has_scale_diff)
qed

lemma destroy_cases:
  assumes run: "settleUserDestroyBilling updatedAt now granted lk k inst value waiver s = Inr (r, s')"
  obtains (before) d where "find_key dr_instanceId (si_id inst) (destroy_records s) = Some d" "remotely_deleted (si_id inst) s"
      "r = \<lparr>ds_refundAmount = dr_refundAmount d, ds_feeAmount = dr_feeAmount d, ds_isFirstTime = dr_isFirstTime d\<rparr>"
      "s' = clear_deletion (si_id inst) s"
    | (now) s1 hosted re where "find_key dr_instanceId (si_id inst) (destroy_records s) = None" "remotely_deleted (si_id inst) s"
      "r = destroy_amounts updatedAt k inst value waiver s"
      "hosted = (if ds_refundAmount r > 0 then calculateHostedRefundAmount updatedAt now (si_id inst) (ds_refundAmount r) False s else 0)"
      "(if ds_refundAmount r > 0 then refund_and_deduct now lk inst (ds_refundAmount r) re hosted (R_destroy_deduction (si_name inst)) s else Inr s) = Inr s1"
      "s' = clear_deletion (si_id inst) (s1\<lparr>destroy_records := destroy_records s1 @ [destroy_row k inst r]\<rparr>)"
proof (cases "find_key dr_instanceId (si_id inst) (destroy_records s)")
  case (Some d)
  then show ?thesis using run by (intro before [of d]) (auto simp: settleUserDestroyBilling_def split: if_splits)
next
  case None
  let ?r = "destroy_amounts updatedAt k inst value waiver s"
  let ?re = "R_destroyed_refund (si_name inst) waiver (ds_feeAmount ?r)"
  let ?h = "if ds_refundAmount ?r > 0 then calculateHostedRefundAmount updatedAt now (si_id inst) (ds_refundAmount ?r) False s else 0"
  let ?part = "if ds_refundAmount ?r > 0 then refund_and_deduct now lk inst (ds_refundAmount ?r) ?re ?h (R_destroy_deduction (si_name inst)) s else Inr s"
  have "remotely_deleted (si_id inst) s \<and> (case ?part of Inl e \<Rightarrow> Inl e | Inr s1 \<Rightarrow>
      Inr (?r, clear_deletion (si_id inst) (s1\<lparr>destroy_records := destroy_records s1 @ [destroy_row k inst ?r]\<rparr>))) = Inr (r, s')"
    using run None unfolding settleUserDestroyBilling_def Let_def by (auto split: if_split_asm)
  then obtain s1 where "?part = Inr s1" "r = ?r" "remotely_deleted (si_id inst) s"
    "s' = clear_deletion (si_id inst) (s1\<lparr>destroy_records := destroy_records s1 @ [destroy_row k inst ?r]\<rparr>)"
    by (cases ?part) auto
  then show ?thesis using None by (intro now [of ?h ?re s1]) (auto split: if_splits)
qed


section \<open>Refunds within the payments\<close>

definition cents :: "db \<Rightarrow> bool" where
  "cents s \<longleftrightarrow> (\<forall>r\<in>set (billing_records s). has_scale 2 (br_amount r))"

definition unmoved :: "int \<Rightarrow> db \<Rightarrow> bool" where
  "unmoved i s \<longleftrightarrow> (\<forall>m\<in>set (migration_notes s). mn_instanceId m \<noteq> Some i)"














section \<open>Properties of deletions\<close>


text \<open>C7: A destruction by the user pays back, apart from the fee, exactly the value asked for within what is refundable; the fee is nothing the first
  time and when it is waived; the user gets the refund to the last cent, the owner of the host loses at most the hosted share of it, counting all
  three of his funds, and nobody else's funds change.\<close>

theorem destroy_refund_exact:
  assumes "hosting_wf s" and "find_key dr_instanceId (si_id inst) (destroy_records s) = None"
    and "settleUserDestroyBilling updatedAt now granted lk requestUserId inst value feeWaiver s = Inr (r, s')"
    and "owner = resolveHostedIncomeOwner (si_hostId inst) (Some (si_id inst)) True s"
    and "hosted = (if ds_refundAmount r > 0 then calculateHostedRefundAmount updatedAt now (si_id inst) (ds_refundAmount r) False s else 0)"
  shows "0 \<le> ds_refundAmount r \<and> 0 \<le> ds_feeAmount r
    \<and> ds_refundAmount r + ds_feeAmount r = roundCurrency (min (max 0 value) (getMaxRefundableInTransaction updatedAt (si_id inst) s))
    \<and> (feeWaiver \<or> (\<forall>d\<in>set (destroy_records s). dr_userId d \<noteq> requestUserId) \<longrightarrow> ds_feeAmount r = 0)
    \<and> (\<forall>k. owner \<noteq> Some k \<longrightarrow> balance_of s' k = balance_of s k + (if k = si_userId inst then ds_refundAmount r else 0)
         \<and> hosting_of s' k = hosting_of s k \<and> frozen_of s' k = frozen_of s k)
    \<and> (\<forall>k. owner = Some k \<longrightarrow> funds_of s k + (if k = si_userId inst then ds_refundAmount r else 0) - hosted \<le> funds_of s' k
         \<and> funds_of s' k \<le> funds_of s k + (if k = si_userId inst then ds_refundAmount r else 0))"
  using assms(3)
proof (cases rule: destroy_cases)
  case (now s1 h re)
  note am = destroy_amounts_ok [OF now(3) refl]
  then have a: "has_scale 2 (ds_refundAmount r)" "0 \<le> ds_refundAmount r" by blast+
  note 1 = refund_part [OF assms(1) a now(4,5) assms(4)]
  have h: "h = hosted" using now(4) assms(5) by simp
  have "users s' = users s1" "hosting_logs s' = hosting_logs s1" by (simp_all add: now(6) clear_deletion_fields)
  then have "settled inst (ds_refundAmount r) hosted owner s s'"
    using 1 by (simp add: settled_def funds_of_def funds_cong [of s' s1] h)
  moreover have "ds_feeAmount r = 0" if "feeWaiver \<or> (\<forall>d\<in>set (destroy_records s). dr_userId d \<noteq> requestUserId)"
  proof -
    from that have "feeWaiver \<or> count_where (\<lambda>d. dr_userId d = requestUserId) (destroy_records s) = 0" by (auto simp: count_where_0)
    then show ?thesis unfolding now(3) destroy_amounts_def Let_def by auto
  qed
  ultimately show ?thesis using am by (simp add: settled_def)
qed (use assms(2) in simp)

text \<open>C17: A destruction is settled once: a settlement that is repeated after a crash, with whatever amounts, returns the recorded result
  and changes nothing.\<close>

theorem destroy_settled_once:
  assumes "hosting_wf s"
    and "settleUserDestroyBilling updatedAt now granted lk requestUserId inst value feeWaiver s = Inr (r, s')"
  shows "settleUserDestroyBilling updatedAt' now' (\<lambda>_ _. True) lk' requestUserId' inst value' feeWaiver' s' = Inr (r, s')"
  using assms(2)
proof (cases rule: destroy_cases)
  case (before d)
  have "destroy_records s' = destroy_records s" "remotely_deleted (si_id inst) s'"
    using before(2) by (simp_all add: before(4) clear_deletion_fields remotely_deleted_clear)
  with before show ?thesis by (simp add: settleUserDestroyBilling_def clear_deletion_again)
next
  case (now s1 h re)
  note am = destroy_amounts_ok [OF now(3) refl]
  then have a: "has_scale 2 (ds_refundAmount r)" "0 \<le> ds_refundAmount r" by blast+
  have same: "others s1 = others s" using refund_part [OF assms(1) a now(4,5) refl] by blast
  let ?t = "s1\<lparr>destroy_records := destroy_records s1 @ [destroy_row requestUserId inst r]\<rparr>"
  have "find_key dr_instanceId (si_id inst) (destroy_records s') = Some (destroy_row requestUserId inst r)"
    using now(1) others_tables(4) [OF same] by (simp add: now(6) clear_deletion_fields find_key_append) (simp add: destroy_row_def)
  moreover have "remotely_deleted (si_id inst) ?t" using now(2) others_tables(1) [OF same] by (simp add: remotely_deleted_def)
  then have "remotely_deleted (si_id inst) s'" unfolding now(6) by (rule remotely_deleted_clear)
  moreover have "clear_deletion (si_id inst) s' = s'" by (simp add: now(6) clear_deletion_again)
  moreover have "\<lparr>ds_refundAmount = column 2 (ds_refundAmount r), ds_feeAmount = column 2 (ds_feeAmount r), ds_isFirstTime = ds_isFirstTime r\<rparr> = r"
    using am by (simp add: to_fixed_id)
  ultimately show ?thesis by (simp add: settleUserDestroyBilling_def) (simp add: destroy_row_def)
qed

section \<open>A failed provision\<close>

text \<open>A state without what the referral programme keeps.\<close>

definition no_aff :: "user \<Rightarrow> user" where
  "no_aff u = u\<lparr>u_affBalance := 0\<rparr>"

definition aff_blind :: "db \<Rightarrow> db" where
  "aff_blind s = s\<lparr>users := map no_aff (users s), aff_logs := [], aff_codes := [], aff_log_seq := 0\<rparr>"

lemma take_back_blind: "aff_blind (take_back i l b s) = aff_blind s"
proof -
  have "map no_aff (update_key u_id k (set_aff v) us) = map no_aff us" for k v us
    by (rule map_update_key) (simp add: no_aff_def set_aff_def)
  then show ?thesis by (cases "al_affCodeId l") (simp_all add: aff_blind_def take_back_def Let_def add_aff_log_def put_aff_def)
qed

lemma reverse_all_blind: "reverse_all i ls n s = Inr (m, s') \<Longrightarrow> aff_blind s' = aff_blind s"
  by (induction i ls n s rule: reverse_all.induct) (auto simp: take_back_blind split: if_splits option.splits)

lemma blind_same:
  "balance_of (aff_blind s) k = balance_of s k" "hosting_of (aff_blind s) k = hosting_of s k" "frozen_of (aff_blind s) k = frozen_of s k"
  "role_of k (aff_blind s) = role_of k s" "hosting_wf (aff_blind s) = hosting_wf s" "hosts (aff_blind s) = hosts s"
  "hosting_logs (aff_blind s) = hosting_logs s" "instances (aff_blind s) = instances s" "official_usages (aff_blind s) = official_usages s"
proof -
  have f: "find_key u_id k (map no_aff us) = map_option no_aff (find_key u_id k us)" for us
    by (induction us) (simp_all add: no_aff_def)
  show "balance_of (aff_blind s) k = balance_of s k" "hosting_of (aff_blind s) k = hosting_of s k" "role_of k (aff_blind s) = role_of k s"
    by (auto simp: aff_blind_def balance_of_def hosting_of_def role_of_def f no_aff_def option.map_comp comp_def split: option.splits)
  show "frozen_of (aff_blind s) k = frozen_of s k" "hosts (aff_blind s) = hosts s" "hosting_logs (aff_blind s) = hosting_logs s"
    "instances (aff_blind s) = instances s" "official_usages (aff_blind s) = official_usages s"
    by (simp_all add: aff_blind_def frozen_of_def)
  show "hosting_wf (aff_blind s) = hosting_wf s" by (simp add: hosting_wf_def balances_wf_def aff_blind_def comp_def no_aff_def)
qed

lemma reversed_blind:
  assumes "reverseAffCommissionForInstance i s = Inr (n, s')"
  shows "balance_of s' k = balance_of s k" "hosting_of s' k = hosting_of s k" "frozen_of s' k = frozen_of s k" "hosting_wf s' = hosting_wf s"
    "resolveHostedIncomeOwner h x b s' = resolveHostedIncomeOwner h x b s" "instances s' = instances s" "official_usages s' = official_usages s"
proof -
  have e: "aff_blind s' = aff_blind s" using assms reverse_all_blind by (simp add: reverseAffCommissionForInstance_def)
  note same = blind_same [where s = s', unfolded e blind_same]
  show "balance_of s' k = balance_of s k" "hosting_of s' k = hosting_of s k" "frozen_of s' k = frozen_of s k" "hosting_wf s' = hosting_wf s"
    "instances s' = instances s" "official_usages s' = official_usages s"
    using same by simp_all
  show "resolveHostedIncomeOwner h x b s' = resolveHostedIncomeOwner h x b s" using same by (intro resolve_cong) simp_all
qed

lemma release_amounts_simps [simp]: "h_id (release_amounts o' h) = h_id h" "h_userId (release_amounts o' h) = h_userId h"
  by (simp_all add: release_amounts_def)

text \<open>Giving the resources back changes counters of hosts only.\<close>

lemma roll_back_frame:
  assumes "roll_back r s = Inr (x, s')"
  shows "\<exists>P f. s' = s\<lparr>hosts := update_where P f (hosts s)\<rparr> \<and> (\<forall>h. h_id (f h) = h_id h \<and> h_userId (f h) = h_userId h)"
proof (cases r)
  case None
  then have "s' = s\<lparr>hosts := update_where (\<lambda>_. False) id (hosts s)\<rparr>" using assms by (simp add: roll_back_def update_where_id)
  then show ?thesis by (intro exI [of _ "\<lambda>_. False"] exI [of _ id]) simp
next
  case (Some o')
  then have "s' = s\<lparr>hosts := update_where (holds_amounts o') (release_amounts o') (hosts s)\<rparr>"
    using assms by (auto simp: roll_back_def decrementHostResourceCounters_def Let_def split: if_splits)
  then show ?thesis by (intro exI [of _ "holds_amounts o'"] exI [of _ "release_amounts o'"]) simp
qed

lemma find_host_update:
  assumes "\<And>h. h_id (f h) = h_id h \<and> h_userId (f h) = h_userId h"
  shows "map_option h_userId (find_key h_id k (update_where P f hs)) = map_option h_userId (find_key h_id k hs)"
  using assms by (induction hs) auto

lemma resolve_hosts:
  assumes "\<And>k. map_option h_userId (find_key h_id k (hosts s')) = map_option h_userId (find_key h_id k (hosts s))"
    and "hosting_logs s' = hosting_logs s" and "users s' = users s"
  shows "resolveHostedIncomeOwner h i b s' = resolveHostedIncomeOwner h i b s"
proof -
  have r: "role_of k s' = role_of k s" for k using assms(3) by (rule funds_cong(4))
  show ?thesis using assms(1) [of h]
    unfolding resolveHostedIncomeOwner_def r assms(2)
    by (cases "find_key h_id h (hosts s')"; cases "find_key h_id h (hosts s)") simp_all
qed

lemma failed_cases:
  assumes run: "failCreatingInstanceAndRefund now locked cg lk k reason rb s = Inr (v, s')"
    and i: "find_key i_id k (instances s) = Some i" "distinct (map i_id (instances s))" "i_status i = IS_creating" "i_cleanupPending i"
  obtains s2 a P f where "instances s2 = update_key i_id k fail_row (instances s)"
    "s2 = s\<lparr>instances := update_key i_id k fail_row (instances s), hosts := update_where P f (hosts s)\<rparr>"
    "\<And>h. h_id (f h) = h_id h \<and> h_userId (f h) = h_userId h" "v = \<lparr>pv_claimed = True, pv_refundAmount = a\<rparr>"
    "(if i_billingMode i = BM_hourly then refund_hourly \<lparr>si_id = k, si_userId = i_userId i, si_hostId = i_hostId i, si_name = i_name i\<rparr> reason s2
      else refund_purchase now cg lk \<lparr>si_id = k, si_userId = i_userId i, si_hostId = i_hostId i, si_name = i_name i\<rparr> reason s2) = Inr (a, s')"
proof -
  let ?hit = "\<lambda>i. i_id i = k \<and> i_status i = IS_creating \<and> i_cleanupPending i"
  have c: "count_where ?hit (instances s) = 1" using count_key [OF i(2), of k "\<lambda>i. i_status i = IS_creating \<and> i_cleanupPending i"] i by simp
  have u: "update_where ?hit fail_row (instances s) = update_key i_id k fail_row (instances s)"
    using update_where_only [where key = i_id and P = "\<lambda>i. i_status i = IS_creating \<and> i_cleanupPending i" and f = fail_row, OF i(2,1)] i(3,4) by simp
  let ?s1 = "s\<lparr>instances := update_key i_id k fail_row (instances s)\<rparr>"
  have f: "find_key i_id k (instances ?s1) = Some (fail_row i)" using i(1) by (simp add: find_key_update_key fail_row_def)
  have row: "i_userId (fail_row i) = i_userId i" "i_hostId (fail_row i) = i_hostId i" "i_name (fail_row i) = i_name i" "i_billingMode (fail_row i) = i_billingMode i"
    by (simp_all add: fail_row_def)
  let ?inst = "\<lparr>si_id = k, si_userId = i_userId i, si_hostId = i_hostId i, si_name = i_name i\<rparr>"
  define part where "part = (\<lambda>t. if i_billingMode i = BM_hourly then refund_hourly ?inst reason t else refund_purchase now cg lk ?inst reason t)"
  have "locked \<and> (case roll_back rb ?s1 of Inl e \<Rightarrow> Inl e | Inr (x, s2) \<Rightarrow> (case part s2 of Inl e \<Rightarrow> Inl e
      | Inr (a, s3) \<Rightarrow> Inr (\<lparr>pv_claimed = True, pv_refundAmount = a\<rparr>, s3))) = Inr (v, s')"
    using run unfolding failCreatingInstanceAndRefund_def Let_def u advisoryTransactionLock_def part_def using c f
    by (cases locked; cases "roll_back rb ?s1") (auto simp: row)
  then obtain x s2 a where r: "roll_back rb ?s1 = Inr (x, s2)" and v: "v = \<lparr>pv_claimed = True, pv_refundAmount = a\<rparr>"
    and rest: "part s2 = Inr (a, s')"
    by (auto split: sum.splits prod.splits)
  from roll_back_frame [OF r] obtain P g where g: "s2 = ?s1\<lparr>hosts := update_where P g (hosts s)\<rparr>" "\<And>h. h_id (g h) = h_id h \<and> h_userId (g h) = h_userId h"
    by auto
  then have "instances s2 = update_key i_id k fail_row (instances s)" by simp
  from that [OF this _ g(2) v rest [unfolded part_def]] g(1) show thesis by simp
qed

lemma refund_purchase_effect:
  assumes w: "hosting_wf s" and aw: "aff_wf s" and cw: "coupons_wf s" and disc: "\<forall>u\<in>set (official_usages s). 0 \<le> ou_discountAmount u"
    and run: "refund_purchase now cg lk inst reason s = Inr (a, s')"
    and o: "owner = resolveHostedIncomeOwner (si_hostId inst) (Some (si_id inst)) True s"
  shows "a = roundCurrency (max 0 (charged_on (si_id inst) s - refunded_on (si_id inst) s))
    \<and> (\<forall>k. owner \<noteq> Some k \<longrightarrow> balance_of s' k = balance_of s k + (if k = si_userId inst then a else 0) \<and> hosting_of s' k = hosting_of s k
         \<and> frozen_of s' k = frozen_of s k)
    \<and> (\<forall>k. owner = Some k \<longrightarrow> funds_of s' k \<le> funds_of s k + (if k = si_userId inst then a else 0))
    \<and> usages_on (si_id inst) s' = [] \<and> open_commissions (si_id inst) s' = [] \<and> instances s' = instances s"
proof -
  define b where "b = roundCurrency (max 0 (charged_on (si_id inst) s - refunded_on (si_id inst) s))"
  have b0: "0 \<le> b" "has_scale 2 b" by (simp_all add: b_def roundCurrency_nonneg)
  from run obtain rc s1 n s2 where rel: "releaseOfficialCouponUsageByInstance cg (si_id inst) s = Inr (rc, s1)"
    and rev: "reverseAffCommissionForInstance (si_id inst) s1 = Inr (n, s2)"
    and part: "(if b \<le> 0 then Inr (0, s2) else (case refund_and_deduct now lk inst b (R_provision_refund (si_name inst) reason)
      (roundCurrency (b + (case rc of None \<Rightarrow> 0 | Some c \<Rightarrow> rl_discountAmount c))) (R_provision_deduction (si_name inst)) s2 of
        Inl e \<Rightarrow> Inl e | Inr s3 \<Rightarrow> Inr (b, s3))) = Inr (a, s')"
    unfolding refund_purchase_def Let_def b_def [symmetric] by (auto split: sum.splits prod.splits)
  have s1: "s1 = released (si_id inst) s" using coupon_release_effect [OF cw rel] .
  have same1: "users s1 = users s" "hosting_logs s1 = hosting_logs s" "hosts s1 = hosts s" "aff_logs s1 = aff_logs s" "instances s1 = instances s"
    by (simp_all add: s1 released_def)
  have "aff_wf s1" using aw by (simp add: s1 released_def aff_wf_def)
  note rv = reverse_effect [OF this rev]
  have d: "0 \<le> (case rc of None \<Rightarrow> 0 | Some c \<Rightarrow> rl_discountAmount c)"
  proof (cases rc)
    case (Some c)
    then have "rl_discountAmount c = (\<Sum>u\<leftarrow>usages_on (si_id inst) s. ou_discountAmount u)"
      using rel unfolding releaseOfficialCouponUsageByInstance_def usages_on_def [symmetric] Let_def
      by (auto split: if_splits option.splits sum.splits)
    then show ?thesis using disc Some by (auto simp: usages_on_def intro!: sum_list_nonneg)
  qed simp
  have w2: "hosting_wf s2" using reversed_blind(4) [OF rev] w by (simp add: s1 released_def hosting_wf_def balances_wf_def)
  have m: "balance_of s2 k = balance_of s k" "hosting_of s2 k = hosting_of s k" "frozen_of s2 k = frozen_of s k" for k
    by (simp_all add: reversed_blind(1-3) [OF rev] funds_cong(1,2) [OF same1(1)] funds_cong(3) [OF same1(2)])
  have own: "owner = resolveHostedIncomeOwner (si_hostId inst) (Some (si_id inst)) True s2"
    unfolding o reversed_blind(5) [OF rev] by (rule resolve_cong [OF same1(3,2) funds_cong(4) [OF same1(1)], symmetric])
  have us: "usages_on (si_id inst) s2 = []"
    using reversed_blind(7) [OF rev] by (simp add: usages_on_def s1 released_def filter_empty_conv)
  have inst: "instances s2 = instances s" using reversed_blind(6) [OF rev] same1 by simp
  show ?thesis
  proof (cases "b \<le> 0")
    case True
    then have "a = b" "s' = s2" using part b0 by simp_all
    then show ?thesis using m rv us inst True b0 by (simp add: b_def [symmetric] funds_of_def)
  next
    case False
    with part have ab: "a = b" and r: "refund_and_deduct now lk inst b (R_provision_refund (si_name inst) reason)
      (roundCurrency (b + (case rc of None \<Rightarrow> 0 | Some c \<Rightarrow> rl_discountAmount c))) (R_provision_deduction (si_name inst)) s2 = Inr s'"
      by (auto split: sum.splits)
    have h: "0 \<le> roundCurrency (b + (case rc of None \<Rightarrow> 0 | Some c \<Rightarrow> rl_discountAmount c))" using b0 d by (intro roundCurrency_nonneg) simp
    note e = refund_and_deduct_effect [OF w2 b0(2) h has_scale_roundCurrency(1) r own]
    then have "official_usages s' = official_usages s2" "aff_logs s' = aff_logs s2" "instances s' = instances s2"
      using others_tables [of s' s2] by blast+
    then have "usages_on (si_id inst) s' = []" "open_commissions (si_id inst) s' = []" "instances s' = instances s"
      using us rv inst by (simp_all add: usages_on_def open_commissions_def unreversed_def [abs_def])
    moreover have "funds_of s2 k = funds_of s k" for k by (simp add: funds_of_def m)
    ultimately show ?thesis using e unfolding ab b_def [symmetric] by (simp only: m simp_thms) blast
  qed
qed

lemma failed_again:
  assumes "find_key i_id k (instances s) = Some j" and "distinct (map i_id (instances s))" and "i_status j \<noteq> IS_creating"
  shows "failCreatingInstanceAndRefund now True cg lk k reason rb s = Inr (\<lparr>pv_claimed = False, pv_refundAmount = 0\<rparr>, s)"
proof -
  let ?hit = "\<lambda>i. i_id i = k \<and> i_status i = IS_creating \<and> i_cleanupPending i"
  have c: "count_where ?hit (instances s) = 0"
    using count_key [OF assms(2), of k "\<lambda>i. i_status i = IS_creating \<and> i_cleanupPending i"] assms(1,3) by simp
  then have "update_where ?hit fail_row (instances s) = instances s" by (intro update_where_id) (simp add: count_where_0)
  with c show ?thesis by (simp add: failCreatingInstanceAndRefund_def Let_def)
qed

lemma fail_row_simps [simp]: "i_id (fail_row i) = i_id i" "i_status (fail_row i) = IS_error" "\<not> i_cleanupPending (fail_row i)"
  by (simp_all add: fail_row_def)

text \<open>C5: An instance that could not be provisioned is settled whole: the buyer gets back what was charged and not refunded before, the owner of the host gains nothing,
  nobody else's funds change, the coupon use and the commissions of the purchase are gone, the instance is marked as failed, and a second attempt finds
  nothing to settle.\<close>

theorem failed_provision_refunded:
  assumes "hosting_wf s" and "aff_wf s" and "coupons_wf s" and "\<forall>u\<in>set (official_usages s). 0 \<le> ou_discountAmount u"
    and "find_key i_id instanceId (instances s) = Some i" and "distinct (map i_id (instances s))" and "i_status i = IS_creating"
    and "i_cleanupPending i" and "i_billingMode i = BM_package"
    and "failCreatingInstanceAndRefund now locked couponGranted lk instanceId reason resourceRollback s = Inr (v, s')"
    and "owner = resolveHostedIncomeOwner (i_hostId i) (Some instanceId) True s"
  shows "pv_claimed v \<and> pv_refundAmount v = roundCurrency (max 0 (charged_on instanceId s - refunded_on instanceId s))
    \<and> (\<forall>k. owner \<noteq> Some k \<longrightarrow> balance_of s' k = balance_of s k + (if k = i_userId i then pv_refundAmount v else 0)
         \<and> hosting_of s' k = hosting_of s k \<and> frozen_of s' k = frozen_of s k)
    \<and> (\<forall>k. owner = Some k \<longrightarrow> funds_of s' k \<le> funds_of s k + (if k = i_userId i then pv_refundAmount v else 0))
    \<and> usages_on instanceId s' = [] \<and> open_commissions instanceId s' = []
    \<and> find_key i_id instanceId (instances s') = Some (fail_row i)
    \<and> failCreatingInstanceAndRefund now' True couponGranted' lk' instanceId reason' resourceRollback' s' = Inr (\<lparr>pv_claimed = False, pv_refundAmount = 0\<rparr>, s')"
  using assms(10,5-8)
proof (rule failed_cases)
  fix s2 a P f
  assume i2: "instances s2 = update_key i_id instanceId fail_row (instances s)"
    and s2: "s2 = s\<lparr>instances := update_key i_id instanceId fail_row (instances s), hosts := update_where P f (hosts s)\<rparr>"
    and f: "\<And>h. h_id (f h) = h_id h \<and> h_userId (f h) = h_userId h" and v: "v = \<lparr>pv_claimed = True, pv_refundAmount = a\<rparr>"
    and part: "(if i_billingMode i = BM_hourly then refund_hourly \<lparr>si_id = instanceId, si_userId = i_userId i, si_hostId = i_hostId i, si_name = i_name i\<rparr> reason s2
      else refund_purchase now couponGranted lk \<lparr>si_id = instanceId, si_userId = i_userId i, si_hostId = i_hostId i, si_name = i_name i\<rparr> reason s2) = Inr (a, s')"
  let ?inst = "\<lparr>si_id = instanceId, si_userId = i_userId i, si_hostId = i_hostId i, si_name = i_name i\<rparr>"
  have r: "refund_purchase now couponGranted lk ?inst reason s2 = Inr (a, s')" using part assms(9) by simp
  have wf2: "hosting_wf s2" "aff_wf s2" "coupons_wf s2" "\<forall>u\<in>set (official_usages s2). 0 \<le> ou_discountAmount u"
    using assms(1-4) by (simp_all add: s2 hosting_wf_def balances_wf_def aff_wf_def coupons_wf_def purchases_of_def)
  have "owner = resolveHostedIncomeOwner (i_hostId i) (Some instanceId) True s2"
    unfolding assms(11) by (rule resolve_hosts [symmetric]) (simp_all add: s2 find_host_update [OF f])
  then have o: "owner = resolveHostedIncomeOwner (si_hostId ?inst) (Some (si_id ?inst)) True s2" by simp
  note e = refund_purchase_effect [OF wf2 r o]
  have m: "balance_of s2 k = balance_of s k" "hosting_of s2 k = hosting_of s k" "frozen_of s2 k = frozen_of s k" "funds_of s2 k = funds_of s k" for k
    by (simp_all add: s2 funds_of_def balance_of_def hosting_of_def frozen_of_def)
  have ch: "charged_on instanceId s2 = charged_on instanceId s" "refunded_on instanceId s2 = refunded_on instanceId s"
    by (simp_all add: s2 charged_on_def refunded_on_def)
  have inst: "instances s' = update_key i_id instanceId fail_row (instances s)" using e i2 by simp
  then have j: "find_key i_id instanceId (instances s') = Some (fail_row i)" using assms(5) by (simp add: find_key_update_key)
  have "distinct (map i_id (instances s'))" using assms(6) by (simp add: inst map_update_key)
  note again = failed_again [OF j this, where now = now' and cg = couponGranted' and lk = lk' and reason = reason' and rb = resourceRollback', simplified]
  from e [unfolded m ch settled_instance.select_convs] again j show ?thesis
    unfolding v provision_result.select_convs by (elim conjE) (intro conjI TrueI; assumption)
qed

definition reserved_of :: "db \<Rightarrow> int \<Rightarrow> rat" where
  "reserved_of s k = (case find_key u_id k (users s) of None \<Rightarrow> 0 | Some u \<Rightarrow> u_hourlyReserved u)"

text \<open>C18: When an instance billed by the hour could not be provisioned, the prepaid amount goes back from the reserved to the free balance, which keeps the
  sum of both for everybody, the account is closed and empty, and a second attempt finds nothing to settle.\<close>

theorem failed_hourly_released:
  assumes "balances_wf s" and "\<forall>u\<in>set (users s). has_scale 8 (u_hourlyReserved u)"
    and "find_key i_id instanceId (instances s) = Some i" and "distinct (map i_id (instances s))" and "i_status i = IS_creating"
    and "i_cleanupPending i" and "i_billingMode i = BM_hourly"
    and "find_key ha_instanceId instanceId (hourly_accounts s) = Some account" and "distinct (map ha_id (hourly_accounts s))"
    and "has_scale 8 (ha_prepaid account)" and "0 \<le> ha_prepaid account"
    and "failCreatingInstanceAndRefund now locked couponGranted lk instanceId reason resourceRollback s = Inr (v, s')"
  shows "pv_claimed v \<and> pv_refundAmount v = ha_prepaid account
    \<and> (\<forall>k. balance_of s' k = balance_of s k + (if k = i_userId i then ha_prepaid account else 0)
         \<and> balance_of s' k + reserved_of s' k = balance_of s k + reserved_of s k)
    \<and> (\<exists>a. find_key ha_id (ha_id account) (hourly_accounts s') = Some a \<and> ha_prepaid a = 0 \<and> ha_status a = HS_closed \<and> ha_nextSettlementAt a = None)
    \<and> failCreatingInstanceAndRefund now' True couponGranted' lk' instanceId reason' resourceRollback' s' = Inr (\<lparr>pv_claimed = False, pv_refundAmount = 0\<rparr>, s')"
  using assms(12,3-6)
proof (rule failed_cases)
  fix s2 a P f
  assume s2: "s2 = s\<lparr>instances := update_key i_id instanceId fail_row (instances s), hosts := update_where P f (hosts s)\<rparr>"
    and v: "v = \<lparr>pv_claimed = True, pv_refundAmount = a\<rparr>"
    and part: "(if i_billingMode i = BM_hourly then refund_hourly \<lparr>si_id = instanceId, si_userId = i_userId i, si_hostId = i_hostId i, si_name = i_name i\<rparr> reason s2
      else refund_purchase now couponGranted lk \<lparr>si_id = instanceId, si_userId = i_userId i, si_hostId = i_hostId i, si_name = i_name i\<rparr> reason s2) = Inr (a, s')"
  let ?inst = "\<lparr>si_id = instanceId, si_userId = i_userId i, si_hostId = i_hostId i, si_name = i_name i\<rparr>" and ?p = "ha_prepaid account"
  have r: "refund_hourly ?inst reason s2 = Inr (a, s')" using part assms(7) by simp
  have acc: "find_key ha_id (ha_id account) (hourly_accounts s) = Some account"
    using assms(8,9) by (auto intro: find_key_distinct dest: find_key_SomeD)
  have again: "failCreatingInstanceAndRefund now' True couponGranted' lk' instanceId reason' resourceRollback' s' = Inr (\<lparr>pv_claimed = False, pv_refundAmount = 0\<rparr>, s')"
    if "instances s' = instances s2"
    using that assms(3,4) by (intro failed_again [of _ _ "fail_row i"]) (simp_all add: s2 find_key_update_key map_update_key)
  show ?thesis
  proof (cases "?p > 0")
    case True
    with r obtain u where u: "find_key u_id (i_userId i) (users s) = Some u" and a: "a = ?p"
      and s': "s' = (add_log (mk_log (i_userId i) BL_hourly_release ?p (u_balance u) (u_balance u + ?p) None (Some instanceId) None
            (Some (R_hourly_provision_release (i_name i) reason))) (s2\<lparr>users := update_key u_id (i_userId i) (release_prepaid ?p) (users s)\<rparr>))
          \<lparr>hourly_accounts := update_key ha_id (ha_id account) (empty_account ?p) (hourly_accounts s)\<rparr>"
      using assms(8) by (auto simp: refund_hourly_def Let_def s2 split: option.splits)
    have us: "users s' = update_key u_id (i_userId i) (release_prepaid ?p) (users s)" and inst: "instances s' = instances s2"
      by (simp_all add: s' add_log_def)
    have sc: "has_scale 8 (u_balance u + ?p)" "has_scale 8 (u_hourlyReserved u - ?p)"
      using balances_wf_scale [OF assms(1) u] assms(2,10) u by (auto dest: find_key_SomeD)
    have "balance_of s' k = balance_of s k + (if k = i_userId i then ?p else 0)" "reserved_of s' k = reserved_of s k - (if k = i_userId i then ?p else 0)" for k
      using u sc by (auto simp: balance_of_def reserved_of_def us find_key_update_key release_prepaid_def to_fixed_id)
    moreover have "find_key ha_id (ha_id account) (hourly_accounts s') = Some (empty_account ?p account)"
      using acc by (simp add: s' find_key_update_key empty_account_def close_account_def)
    ultimately show ?thesis using again [OF inst] by (simp add: v a empty_account_def close_account_def)
  next
    case False
    then have "a = 0" "?p = 0" "s' = s2\<lparr>hourly_accounts := update_key ha_id (ha_id account) close_account (hourly_accounts s)\<rparr>"
      using r assms(8,11) by (auto simp: refund_hourly_def s2)
    moreover from this have "find_key ha_id (ha_id account) (hourly_accounts s') = Some (close_account account)"
      using acc by (simp add: find_key_update_key close_account_def)
    ultimately show ?thesis using again by (simp add: v s2 close_account_def balance_of_def reserved_of_def)
  qed
qed

section \<open>Settlements of concrete databases\<close>

text \<open>User 1 has paid 10 for instance 5 on the host of user 2 and got 4 back; it is deleted on the host.\<close>

definition closing_db :: db where
  "closing_db = empty_db\<lparr>users := [mk_user 1 R_user 20 0, mk_user 2 R_user 0 50], hosts := [mk_host 1 2],
     instances := [(mk_instance 5 1 1 IS_running)\<lparr>i_remoteDeleted := True\<rparr>],
     billing_records := [mk_record BT_newPurchase 5 1 10 0 1000, mk_record BT_refund 5 1 (- 4) 100 100]\<rparr>"

definition closing_inst :: settled_instance where
  "closing_inst = \<lparr>si_id = 5, si_userId = 1, si_hostId = 1, si_name = ''web''\<rparr>"

definition closing :: "db \<Rightarrow> (destroy_result \<times> db) outcome" where
  "closing s = settleUserDestroyBilling (\<lambda>_. 0) 250 (\<lambda>_ _. True) True 1 closing_inst (9 / 2) False s"

definition closed_db :: db where
  "closed_db = (case closing closing_db of Inl e \<Rightarrow> closing_db | Inr (r, s) \<Rightarrow> s)"

lemma closing_run: "closing closing_db = Inr (\<lparr>ds_refundAmount = 9 / 2, ds_feeAmount = 0, ds_isFirstTime = True\<rparr>, closed_db)"
proof -
  have "(case closing closing_db of Inl e \<Rightarrow> False | Inr (r, s) \<Rightarrow> r = \<lparr>ds_refundAmount = 9 / 2, ds_feeAmount = 0, ds_isFirstTime = True\<rparr>)"
    by code_simp
  then show ?thesis by (auto simp: closed_db_def split: sum.splits)
qed

lemma closing_db_inv: "hosting_wf closing_db" "cents closing_db" "unmoved 5 closing_db"
  "find_key dr_instanceId 5 (destroy_records closing_db) = None" "distinct (map i_id (instances closing_db))"
  using has_scale_of_int [of 8 20] has_scale_of_int [of 8 50] has_scale_of_int [of 2 10] has_scale_of_int [of 2 "- 4"]
  by (simp_all add: hosting_wf_def balances_wf_def cents_def unmoved_def closing_db_def empty_db_def mk_user_def mk_record_def)


theorem destroy_refund_exact_witness: "balance_of closed_db 1 = 49 / 2 \<and> 50 - 9 / 2 \<le> funds_of closed_db 2"
proof -
  let ?h = "calculateHostedRefundAmount (\<lambda>_. 0) 250 5 (9 / 2) False closing_db"
  have v: "resolveHostedIncomeOwner 1 (Some 5) True closing_db = Some 2" "balance_of closing_db 1 = 20" "funds_of closing_db 2 = 50" "?h = 9 / 2"
    by code_simp+
  have n: "find_key dr_instanceId (si_id closing_inst) (destroy_records closing_db) = None" using closing_db_inv(4) by (simp add: closing_inst_def)
  note e = destroy_refund_exact [OF closing_db_inv(1) n closing_run [unfolded closing_def] refl refl]
  show ?thesis using e v by (simp add: closing_inst_def)
qed

theorem destroy_settled_once_witness:
  "settleUserDestroyBilling (\<lambda>_. 7) 900 (\<lambda>_ _. True) False 3 closing_inst 100 True closed_db =
     Inr (\<lparr>ds_refundAmount = 9 / 2, ds_feeAmount = 0, ds_isFirstTime = True\<rparr>, closed_db)"
  by (rule destroy_settled_once [OF closing_db_inv(1) closing_run [unfolded closing_def]])

text \<open>The same purchase, whose container could not be created; and one that is billed by the hour, with 3 reserved.\<close>

definition failing_db :: "billing_mode \<Rightarrow> db" where
  "failing_db mode = closing_db\<lparr>users := [(mk_user 1 R_user 20 0)\<lparr>u_hourlyReserved := 3\<rparr>, mk_user 2 R_user 0 50],
     instances := [(mk_instance 5 1 1 IS_creating)\<lparr>i_cleanupPending := True, i_billingMode := mode\<rparr>],
     hourly_accounts := [\<lparr>ha_id = 1, ha_instanceId = 5, ha_packagePlanId = None, ha_pricingVersion = None, ha_lastSettledAt = 0,
       ha_nextSettlementAt = Some 9, ha_prepaid = 3, ha_totalCost = 0, ha_totalReserved = 3, ha_totalReleased = 0, ha_outstanding = 0,
       ha_status = HS_active, ha_version = 0\<rparr>]\<rparr>"

definition failing :: "billing_mode \<Rightarrow> (provision_result \<times> db) outcome" where
  "failing mode = failCreatingInstanceAndRefund 250 True (\<lambda>_. True) True 5 ''timeout'' None (failing_db mode)"

lemma failing_runs: "\<exists>s. failing mode = Inr (\<lparr>pv_claimed = True, pv_refundAmount = (if mode = BM_hourly then 3 else 6)\<rparr>, s)"
proof -
  have "(case failing BM_hourly of Inl e \<Rightarrow> False | Inr (r, s) \<Rightarrow> r = \<lparr>pv_claimed = True, pv_refundAmount = 3\<rparr>)"
    "(case failing BM_package of Inl e \<Rightarrow> False | Inr (r, s) \<Rightarrow> r = \<lparr>pv_claimed = True, pv_refundAmount = 6\<rparr>)" by code_simp+
  then show ?thesis by (cases mode) (auto split: sum.splits)
qed

lemma failing_db_inv: "hosting_wf (failing_db mode)" "aff_wf (failing_db mode)" "coupons_wf (failing_db mode)" "official_usages (failing_db mode) = []"
  "distinct (map i_id (instances (failing_db mode)))"
  using has_scale_of_int [of 8 20] has_scale_of_int [of 8 50]
  by (simp_all add: hosting_wf_def balances_wf_def aff_wf_def coupons_wf_def failing_db_def closing_db_def empty_db_def mk_user_def)

theorem failed_provision_refunded_witness:
  "\<exists>s. failing BM_package = Inr (\<lparr>pv_claimed = True, pv_refundAmount = 6\<rparr>, s) \<and> balance_of s 1 = 26 \<and> funds_of s 2 \<le> 50"
proof -
  from failing_runs [of BM_package] obtain s where run: "failing BM_package = Inr (\<lparr>pv_claimed = True, pv_refundAmount = 6\<rparr>, s)" by auto
  have v: "resolveHostedIncomeOwner 1 (Some 5) True (failing_db BM_package) = Some 2" "balance_of (failing_db BM_package) 1 = 20"
    "funds_of (failing_db BM_package) 2 = 50" by code_simp+
  let ?i = "(mk_instance 5 1 1 IS_creating)\<lparr>i_cleanupPending := True, i_billingMode := BM_package\<rparr>"
  have i: "find_key i_id 5 (instances (failing_db BM_package)) = Some ?i" "i_status ?i = IS_creating" "i_cleanupPending ?i" "i_billingMode ?i = BM_package"
    "i_userId ?i = 1" "i_hostId ?i = 1"
    by (simp_all add: failing_db_def mk_instance_def)
  have "\<forall>u\<in>set (official_usages (failing_db BM_package)). 0 \<le> ou_discountAmount u" by (simp add: failing_db_inv)
  note e = failed_provision_refunded [OF failing_db_inv(1-3) this i(1) failing_db_inv(5) i(2-4) run [unfolded failing_def] refl]
  show ?thesis using e run v i(5,6) by auto
qed

theorem failed_hourly_released_witness:
  "\<exists>s. failing BM_hourly = Inr (\<lparr>pv_claimed = True, pv_refundAmount = 3\<rparr>, s) \<and> balance_of s 1 = 23 \<and> reserved_of s 1 = 0"
proof -
  from failing_runs [of BM_hourly] obtain s where run: "failing BM_hourly = Inr (\<lparr>pv_claimed = True, pv_refundAmount = 3\<rparr>, s)" by auto
  have v: "balance_of (failing_db BM_hourly) 1 = 20" "reserved_of (failing_db BM_hourly) 1 = 3" by code_simp+
  let ?i = "(mk_instance 5 1 1 IS_creating)\<lparr>i_cleanupPending := True, i_billingMode := BM_hourly\<rparr>"
  let ?a = "hd (hourly_accounts (failing_db BM_hourly))"
  have i: "find_key i_id 5 (instances (failing_db BM_hourly)) = Some ?i" "i_status ?i = IS_creating" "i_cleanupPending ?i" "i_billingMode ?i = BM_hourly"
    "i_userId ?i = 1"
    by (simp_all add: failing_db_def mk_instance_def)
  have a: "find_key ha_instanceId 5 (hourly_accounts (failing_db BM_hourly)) = Some ?a" "distinct (map ha_id (hourly_accounts (failing_db BM_hourly)))"
    "ha_prepaid ?a = 3" by (simp_all add: failing_db_def)
  have p: "has_scale 8 (ha_prepaid ?a)" "0 \<le> ha_prepaid ?a" using has_scale_of_int [of 8 3] by (simp_all add: a(3))
  have "\<forall>u\<in>set (users (failing_db BM_hourly)). has_scale 8 (u_hourlyReserved u)" using has_scale_of_int [of 8 3]
    by (simp add: failing_db_def mk_user_def)
  moreover have "balances_wf (failing_db BM_hourly)" using failing_db_inv(1) by (simp add: hosting_wf_def)
  ultimately have e: "balance_of s k = balance_of (failing_db BM_hourly) k + (if k = i_userId ?i then ha_prepaid ?a else 0)
    \<and> balance_of s k + reserved_of s k = balance_of (failing_db BM_hourly) k + reserved_of (failing_db BM_hourly) k" for k
    using failed_hourly_released [OF _ _ i(1) failing_db_inv(5) i(2-4) a(1,2) p run [unfolded failing_def]] by blast
  show ?thesis using e [of 1] run v i(5) a(3) by auto
qed

end
