(* ===== verification/Points.thy ===== *)
theory Points
  imports Balance
begin

text \<open>
  The points account: \<open>server/src/db/points.ts\<close>. An account row is created on first use
  (\<open>upsert\<close>). Each operation is one transaction; it returns its result and the new database.
  \<open>now\<close> is the clock.
\<close>

section \<open>Operations\<close>

definition new_points_account :: "int \<Rightarrow> user_points" where
  "new_points_account userId = \<lparr>up_userId = userId, up_points = 0, up_totalEarned = 0,
     up_totalSpent = 0, up_lastConvertedAt = None, up_convertedConsume = 0\<rparr>"

text \<open>\<open>tx.userPoints.upsert({ where, update: {}, create })\<close>: the row, and the database holding it.\<close>

definition ensure_points :: "int \<Rightarrow> db \<Rightarrow> user_points \<times> db" where
  "ensure_points userId s =
     (case find_key up_userId userId (points_accounts s) of
        Some p \<Rightarrow> (p, s)
      | None \<Rightarrow> (new_points_account userId,
                 s\<lparr>points_accounts := points_accounts s @ [new_points_account userId]\<rparr>))"

definition getUserPoints :: "int \<Rightarrow> db \<Rightarrow> user_points \<times> db" where
  "getUserPoints userId s = ensure_points userId s"

definition update_points :: "int \<Rightarrow> (user_points \<Rightarrow> user_points) \<Rightarrow> db \<Rightarrow> db" where
  "update_points userId f s = s\<lparr>points_accounts := update_key up_userId userId f (points_accounts s)\<rparr>"

definition add_points_log :: "int \<Rightarrow> points_log_type \<Rightarrow> int \<Rightarrow> int \<Rightarrow> int \<Rightarrow> int option \<Rightarrow> remark option \<Rightarrow> db \<Rightarrow> db" where
  "add_points_log userId type amount before after relatedId remark s =
     s\<lparr>points_logs := points_logs s @
        [\<lparr>pl_userId = userId, pl_type = type, pl_amount = amount, pl_before = before,
          pl_after = after, pl_relatedId = relatedId, pl_remark = remark\<rparr>]\<rparr>"

record convertible =
  cv_totalConsume :: rat
  cv_convertedConsume :: rat
  cv_convertibleAmount :: rat
  cv_convertiblePoints :: int

definition getConvertibleConsume :: "int \<Rightarrow> db \<Rightarrow> convertible \<times> db" where
  "getConvertibleConsume userId s =
     (let (userPoints, s1) = getUserPoints userId s;
          totalConsume = getUserTotalConsume userId s1;
          convertedConsume = up_convertedConsume userPoints;
          convertibleAmount = max 0 (totalConsume - convertedConsume);
          convertiblePoints = \<lfloor>convertibleAmount * 100\<rfloor> in
      (\<lparr>cv_totalConsume = totalConsume, cv_convertedConsume = convertedConsume,
        cv_convertibleAmount = convertibleAmount, cv_convertiblePoints = convertiblePoints\<rparr>, s1))"

record convert_result =
  cvr_success :: bool
  cvr_converted :: int
  cvr_newPoints :: int
  cvr_consumeConverted :: rat
  cvr_message :: "message option"

text \<open>
  The conversion reads the account and the consumption, and then increments. The two halves are
  separate steps: the transaction runs at the database's default isolation, where another
  transaction's increment can fall between them.
\<close>

definition convert_read :: "int \<Rightarrow> db \<Rightarrow> (user_points \<times> rat) \<times> db" where
  "convert_read userId s =
     (let (userPoints, s1) = ensure_points userId s in
      ((userPoints, getUserTotalConsume userId s1), s1))"

definition convert_write :: "int \<Rightarrow> int \<Rightarrow> user_points \<times> rat \<Rightarrow> db \<Rightarrow> (convert_result \<times> db) outcome" where
  "convert_write now userId rd s =
     (let (userPoints, totalConsume) = rd;
          alreadyConverted = up_convertedConsume userPoints;
          newConvertableConsume = totalConsume - alreadyConverted in
      if newConvertableConsume \<le> 0
      then Inr (\<lparr>cvr_success = False, cvr_converted = 0, cvr_newPoints = up_points userPoints,
             cvr_consumeConverted = 0, cvr_message = Some M_nothing_to_convert\<rparr>, s)
      else
        let newPoints = \<lfloor>newConvertableConsume * 100\<rfloor> in
        case find_key up_userId userId (points_accounts s) of
          None \<Rightarrow> Inl RecordNotFound
        | Some p \<Rightarrow>
            let updatedPoints = up_points p + newPoints;
                s2 = update_points userId (\<lambda>p. p\<lparr>up_points := up_points p + newPoints,
                       up_totalEarned := up_totalEarned p + newPoints,
                       up_convertedConsume := column 2 totalConsume,
                       up_lastConvertedAt := Some now\<rparr>) s;
                s3 = add_points_log userId PL_convert newPoints (up_points userPoints) updatedPoints None
                       (Some (R_convert (to_fixed 2 newConvertableConsume) newPoints)) s2 in
            Inr (\<lparr>cvr_success = True, cvr_converted = newPoints, cvr_newPoints = updatedPoints,
                   cvr_consumeConverted = newConvertableConsume, cvr_message = None\<rparr>, s3))"

definition convertPointsFromConsumption :: "int \<Rightarrow> int \<Rightarrow> db \<Rightarrow> (convert_result \<times> db) outcome" where
  "convertPointsFromConsumption now userId s =
     (let (rd, s1) = convert_read userId s in convert_write now userId rd s1)"

record points_result =
  pr_success :: bool
  pr_newPoints :: int
  pr_message :: "message option"

text \<open>
  \<open>deductPoints\<close> reads the account, compares, and then issues an unconditional decrement. The two
  halves are kept apart: the transaction runs at the database's default isolation, where another
  transaction's decrement can fall between them.
\<close>

definition deduct_check :: "int \<Rightarrow> int \<Rightarrow> db \<Rightarrow> points_result + user_points" where
  "deduct_check userId amount s =
     (case find_key up_userId userId (points_accounts s) of
        None \<Rightarrow> Inl \<lparr>pr_success = False, pr_newPoints = 0, pr_message = Some M_points_account_missing\<rparr>
      | Some p \<Rightarrow>
          if up_points p < amount
          then Inl \<lparr>pr_success = False, pr_newPoints = up_points p, pr_message = Some M_points_too_low\<rparr>
          else Inr p)"

definition deduct_apply ::
    "int \<Rightarrow> int \<Rightarrow> int option \<Rightarrow> remark option \<Rightarrow> user_points \<Rightarrow> db \<Rightarrow> (points_result \<times> db) outcome" where
  "deduct_apply userId amount relatedId remark userPoints s =
     (case find_key up_userId userId (points_accounts s) of
        None \<Rightarrow> Inl RecordNotFound
      | Some p \<Rightarrow>
          let after = up_points p - amount;
              s1 = update_points userId (\<lambda>p. p\<lparr>up_points := up_points p - amount,
                     up_totalSpent := up_totalSpent p + amount\<rparr>) s;
              s2 = add_points_log userId PL_lottery_spend (- amount) (up_points userPoints) after relatedId
                     (Some (remark_or remark (R_draw_cost amount))) s1 in
          Inr (\<lparr>pr_success = True, pr_newPoints = after, pr_message = None\<rparr>, s2))"

definition deductPoints ::
    "int \<Rightarrow> int \<Rightarrow> int option \<Rightarrow> remark option \<Rightarrow> db \<Rightarrow> (points_result \<times> db) outcome" where
  "deductPoints userId amount relatedId remark s =
     (case deduct_check userId amount s of
        Inl r \<Rightarrow> Inr (r, s)
      | Inr p \<Rightarrow> deduct_apply userId amount relatedId remark p s)"

definition addPoints ::
    "int \<Rightarrow> int \<Rightarrow> points_log_type \<Rightarrow> int option \<Rightarrow> remark option \<Rightarrow> db \<Rightarrow> points_result \<times> db" where
  "addPoints userId amount type relatedId remark s =
     (let (userPoints, s1) = ensure_points userId s;
          s2 = update_points userId (\<lambda>p. p\<lparr>up_points := up_points p + amount,
                 up_totalEarned := up_totalEarned p + amount\<rparr>) s1;
          s3 = add_points_log userId type amount (up_points userPoints) (up_points userPoints + amount)
                 relatedId remark s2 in
      (\<lparr>pr_success = True, pr_newPoints = up_points userPoints + amount, pr_message = None\<rparr>, s3))"

definition adminAdjustPoints :: "int \<Rightarrow> int \<Rightarrow> remark \<Rightarrow> db \<Rightarrow> points_result \<times> db" where
  "adminAdjustPoints userId amount remark s =
     (let (userPoints, s1) = ensure_points userId s in
      if amount < 0 \<and> up_points userPoints + amount < 0
      then (\<lparr>pr_success = False, pr_newPoints = up_points userPoints,
             pr_message = Some M_points_negative\<rparr>, s1)
      else
        let s2 = update_points userId (\<lambda>p. p\<lparr>up_points := up_points p + amount,
                   up_totalEarned := (if amount > 0 then up_totalEarned p + amount else up_totalEarned p),
                   up_totalSpent := (if amount < 0 then up_totalSpent p + \<bar>amount\<bar> else up_totalSpent p)\<rparr>) s1;
            s3 = add_points_log userId PL_admin_adjust amount (up_points userPoints)
                   (up_points userPoints + amount) None (Some remark) s2 in
        (\<lparr>pr_success = True, pr_newPoints = up_points userPoints + amount, pr_message = None\<rparr>, s3))"

section \<open>Invariants of the account\<close>

text \<open>
  The books of an account: what is held is what was earned less what was spent, and accounts are
  unique per user.
\<close>

definition books_ok :: "user_points \<Rightarrow> bool" where
  "books_ok p \<longleftrightarrow> up_points p = up_totalEarned p - up_totalSpent p"

definition points_inv :: "db \<Rightarrow> bool" where
  "points_inv s \<longleftrightarrow> points_wf s \<and> (\<forall>p\<in>set (points_accounts s). books_ok p)"

definition points_logged :: "db \<Rightarrow> db \<Rightarrow> bool" where
  "points_logged s s' \<longleftrightarrow>
     (\<exists>es. points_entries s' = points_entries s @ es \<and> posted (points_of s) es (points_of s'))"

lemma points_loggedI:
  assumes "points_logs s' = points_logs s @ es"
    and "\<And>k. linked (points_of s k) (map (\<lambda>e. (pl_before e, pl_after e)) (filter (\<lambda>e. pl_userId e = k) es))
              (points_of s' k)"
  shows "points_logged s s'"
  unfolding points_logged_def points_entries_def posted_def
  by (rule exI [of _ "map (\<lambda>e. (pl_userId e, pl_before e, pl_after e)) es"]) (simp add: assms of_points_entries)

lemma points_logged_trans: "points_logged s s' \<Longrightarrow> points_logged s' s'' \<Longrightarrow> points_logged s s''"
  unfolding points_logged_def by (metis append.assoc posted_append)

lemma points_logged_frame:
  "points_accounts s' = points_accounts s \<Longrightarrow> points_logs s' = points_logs s \<Longrightarrow> points_logged s s'"
  by (rule points_loggedI [of _ _ "[]"]) (simp_all add: points_of_def)

lemma new_points_account_simps [simp]:
  "up_userId (new_points_account k) = k" "up_points (new_points_account k) = 0"
  "up_convertedConsume (new_points_account k) = 0" "books_ok (new_points_account k)"
  by (simp_all add: new_points_account_def books_ok_def)

lemma points_frame_simps [simp]:
  "users (update_points k f s) = users s" "balance_logs (update_points k f s) = balance_logs s"
  "points_logs (update_points k f s) = points_logs s"
  "points_accounts (update_points k f s) = update_key up_userId k f (points_accounts s)"
  "users (add_points_log k ty a b c r m s) = users s"
  "balance_logs (add_points_log k ty a b c r m s) = balance_logs s"
  "points_accounts (add_points_log k ty a b c r m s) = points_accounts s"
  "points_of (add_points_log k ty a b c r m s) j = points_of s j"
  by (simp_all add: update_points_def add_points_log_def points_of_def)

lemma points_logs_add [simp]:
  "points_logs (add_points_log k ty a b c r m s) = points_logs s @
     [\<lparr>pl_userId = k, pl_type = ty, pl_amount = a, pl_before = b, pl_after = c,
       pl_relatedId = r, pl_remark = m\<rparr>]"
  by (simp add: add_points_log_def)

text \<open>Creating an empty account changes no amount.\<close>

lemma points_of_append:
  "k \<notin> up_userId ` set (points_accounts s) \<Longrightarrow>
   points_of (s\<lparr>points_accounts := points_accounts s @ [new_points_account k]\<rparr>) j = points_of s j"
  by (cases "find_key up_userId j (points_accounts s)") (simp_all add: points_of_def find_key_append)

lemma ensure_points_facts:
  assumes "ensure_points k s = (p, s1)"
  shows "find_key up_userId k (points_accounts s1) = Some p \<and> up_userId p = k \<and>
    points_of s k = up_points p \<and> (\<forall>j. points_of s1 j = points_of s j) \<and>
    points_logs s1 = points_logs s \<and> users s1 = users s \<and> balance_logs s1 = balance_logs s \<and>
    (points_inv s \<longrightarrow> points_inv s1)"
proof (cases "find_key up_userId k (points_accounts s)")
  case None
  then have k: "k \<notin> up_userId ` set (points_accounts s)" by (simp add: find_key_None)
  from None have "points_of s k = 0" by (simp add: points_of_def)
  moreover from None assms have "p = new_points_account k"
    and "s1 = s\<lparr>points_accounts := points_accounts s @ [new_points_account k]\<rparr>"
    by (auto simp: ensure_points_def)
  ultimately show ?thesis
    using k None by (simp add: points_of_append find_key_append points_inv_def points_wf_def)
next
  case (Some q)
  with assms show ?thesis
    by (auto simp: ensure_points_def points_of_Some dest: find_key_SomeD)
qed

lemma ensure_pointsE:
  assumes "ensure_points k s = (p, s1)"
  shows "find_key up_userId k (points_accounts s1) = Some p" and "up_userId p = k"
    and "points_of s k = up_points p" and "points_of s1 j = points_of s j"
    and "points_logs s1 = points_logs s" and "users s1 = users s" and "balance_logs s1 = balance_logs s"
    and "points_inv s \<Longrightarrow> points_inv s1"
  using ensure_points_facts [OF assms] by auto

lemma points_of_update:
  assumes "find_key up_userId k (points_accounts s) = Some p" and "\<And>r. up_userId (f r) = up_userId r"
  shows "points_of (update_points k f s) j = (if j = k then up_points (f p) else points_of s j)"
  using assms by (simp add: points_of_def find_key_update_key)

lemma points_inv_update:
  assumes "points_inv s" and "\<And>r. up_userId (f r) = up_userId r" and "\<And>r. books_ok r \<Longrightarrow> books_ok (f r)"
  shows "points_inv (update_points k f s)"
  using assms by (auto simp: points_inv_def points_wf_def map_update_key elim!: set_update_keyE)

lemma points_inv_log [simp]: "points_inv (add_points_log k ty a b c r m s) \<longleftrightarrow> points_inv s"
  by (simp add: points_inv_def points_wf_def)

text \<open>The shape every operation has: one row updated, one entry written.\<close>

lemma points_post_logged:
  assumes "find_key up_userId k (points_accounts s) = Some p" and "\<And>r. up_userId (f r) = up_userId r"
    and "b = up_points p" and "c = up_points (f p)"
  shows "points_logged s (add_points_log k ty a b c r m (update_points k f s))"
  using assms
  by (intro points_loggedI [where es = "[\<lparr>pl_userId = k, pl_type = ty, pl_amount = a, pl_before = b,
        pl_after = c, pl_relatedId = r, pl_remark = m\<rparr>]"])
     (auto simp: points_of_update points_of_Some)

lemma ensure_logged: "ensure_points k s = (p, s1) \<Longrightarrow> points_logged s s1"
  by (rule points_loggedI [of _ _ "[]"]) (simp_all add: ensure_pointsE(4,5))

lemma ensure_then_post:
  assumes "ensure_points k s = (p, s1)" and "\<And>r. up_userId (f r) = up_userId r"
    and "\<And>r. books_ok r \<Longrightarrow> books_ok (f r)"
    and "b = up_points p" and "c = up_points (f p)"
    and "s' = add_points_log k ty a b c r m (update_points k f s1)"
  shows "points_logged s s' \<and> (points_inv s \<longrightarrow> points_inv s')"
proof
  show "points_logged s s'"
    using ensure_logged [OF assms(1)] points_post_logged [OF ensure_pointsE(1) [OF assms(1)] assms(2,4,5)]
    by (auto simp: assms(6) intro: points_logged_trans)
  show "points_inv s \<longrightarrow> points_inv s'"
    using ensure_pointsE(8) [OF assms(1)] by (simp add: assms(2,3,6) points_inv_update)
qed

lemma addPoints_ok:
  assumes "addPoints k amount ty rel rem s = (r, s')"
  shows "points_logged s s' \<and> (points_inv s \<longrightarrow> points_inv s')"
proof -
  obtain p s1 where e: "ensure_points k s = (p, s1)" by (cases "ensure_points k s")
  show ?thesis
    by (rule ensure_then_post [OF e, where f = "\<lambda>p. p\<lparr>up_points := up_points p + amount,
          up_totalEarned := up_totalEarned p + amount\<rparr>"])
       (use assms e in \<open>auto simp: addPoints_def books_ok_def Let_def\<close>)
qed

lemma adminAdjustPoints_ok:
  assumes "adminAdjustPoints k amount rem s = (r, s')"
  shows "points_logged s s' \<and> (points_inv s \<longrightarrow> points_inv s')"
proof -
  obtain p s1 where e: "ensure_points k s = (p, s1)" by (cases "ensure_points k s")
  show ?thesis
  proof (cases "amount < 0 \<and> up_points p + amount < 0")
    case True
    with assms e have "s' = s1" by (auto simp: adminAdjustPoints_def)
    with ensure_logged [OF e] ensure_pointsE(8) [OF e] show ?thesis by blast
  next
    case False
    show ?thesis
      by (rule ensure_then_post [OF e, where f = "\<lambda>p. p\<lparr>up_points := up_points p + amount,
            up_totalEarned := (if amount > 0 then up_totalEarned p + amount else up_totalEarned p),
            up_totalSpent := (if amount < 0 then up_totalSpent p + \<bar>amount\<bar> else up_totalSpent p)\<rparr>"])
         (use assms e False in \<open>auto simp: adminAdjustPoints_def books_ok_def Let_def\<close>)
  qed
qed

lemma convert_write_pos:
  assumes "find_key up_userId k (points_accounts s) = Some p" and "0 < tot - up_convertedConsume p"
  defines "n \<equiv> \<lfloor>(tot - up_convertedConsume p) * 100\<rfloor>"
  shows "convert_write now k (p, tot) s =
    Inr (\<lparr>cvr_success = True, cvr_converted = n, cvr_newPoints = up_points p + n,
           cvr_consumeConverted = tot - up_convertedConsume p, cvr_message = None\<rparr>,
         add_points_log k PL_convert n (up_points p) (up_points p + n) None
           (Some (R_convert (to_fixed 2 (tot - up_convertedConsume p)) n))
           (update_points k (\<lambda>p. p\<lparr>up_points := up_points p + n, up_totalEarned := up_totalEarned p + n,
              up_convertedConsume := column 2 tot, up_lastConvertedAt := Some now\<rparr>) s))"
  using assms(1,2) unfolding convert_write_def n_def prod.case Let_def by simp

lemma convert_write_none:
  "tot - up_convertedConsume p \<le> 0 \<Longrightarrow> convert_write now k (p, tot) s =
    Inr (\<lparr>cvr_success = False, cvr_converted = 0, cvr_newPoints = up_points p,
           cvr_consumeConverted = 0, cvr_message = Some M_nothing_to_convert\<rparr>, s)"
  by (simp add: convert_write_def)

lemma convert_eq:
  "ensure_points k s = (p, s1) \<Longrightarrow> convertPointsFromConsumption now k s =
     convert_write now k (p, getUserTotalConsume k s1) s1"
  by (simp add: convertPointsFromConsumption_def convert_read_def)

lemma convertPoints_ok:
  assumes "convertPointsFromConsumption now k s = Inr (r, s')"
  shows "points_logged s s' \<and> (points_inv s \<longrightarrow> points_inv s')"
proof -
  obtain p s1 where e: "ensure_points k s = (p, s1)" by (cases "ensure_points k s")
  let ?new = "getUserTotalConsume k s1 - up_convertedConsume p"
  show ?thesis
  proof (cases "?new \<le> 0")
    case True
    with assms e have "s' = s1"
      by (auto simp: convertPointsFromConsumption_def convert_read_def convert_write_def Let_def)
    with ensure_logged [OF e] ensure_pointsE(8) [OF e] show ?thesis by blast
  next
    case False
    show ?thesis
      by (rule ensure_then_post [OF e, where f = "\<lambda>p. p\<lparr>up_points := up_points p + \<lfloor>?new * 100\<rfloor>,
            up_totalEarned := up_totalEarned p + \<lfloor>?new * 100\<rfloor>,
            up_convertedConsume := column 2 (getUserTotalConsume k s1), up_lastConvertedAt := Some now\<rparr>"])
         (use assms e False ensure_pointsE(1) [OF e] in
          \<open>auto simp: convertPointsFromConsumption_def convert_read_def convert_write_def books_ok_def Let_def\<close>)
  qed
qed

lemma deductPoints_ok:
  assumes "deductPoints k amount rel rem s = Inr (r, s')"
  shows "points_logged s s' \<and> (points_inv s \<longrightarrow> points_inv s')"
proof (cases "deduct_check k amount s")
  case (Inl r')
  with assms show ?thesis by (auto simp: deductPoints_def intro: points_logged_frame)
next
  case (Inr p)
  then have p: "find_key up_userId k (points_accounts s) = Some p"
    by (auto simp: deduct_check_def split: option.splits if_splits)
  then have e: "ensure_points k s = (p, s)" by (simp add: ensure_points_def)
  show ?thesis
    by (rule ensure_then_post [OF e, where f = "\<lambda>p. p\<lparr>up_points := up_points p - amount,
          up_totalSpent := up_totalSpent p + amount\<rparr>"])
       (use assms Inr p in \<open>auto simp: deductPoints_def deduct_apply_def books_ok_def Let_def\<close>)
qed

section \<open>Properties\<close>

definition converted_of :: "db \<Rightarrow> int \<Rightarrow> rat" where
  "converted_of s k =
     (case find_key up_userId k (points_accounts s) of None \<Rightarrow> 0 | Some p \<Rightarrow> up_convertedConsume p)"

lemma ensure_converted:
  "ensure_points k s = (p, s1) \<Longrightarrow> converted_of s k = up_convertedConsume p \<and>
     getUserTotalConsume k s1 = getUserTotalConsume k s"
  by (auto simp: ensure_points_def converted_of_def getUserTotalConsume_def
      getUsersTotalConsumeMap_def Let_def split: option.splits)

text \<open>Conversion in one step, over the state it starts from.\<close>

lemma convert_cases:
  assumes "convertPointsFromConsumption now k s = Inr (r, s')"
  defines "left \<equiv> getUserTotalConsume k s - converted_of s k"
  shows "cvr_success r \<longleftrightarrow> 0 < left"
    and "points_of s' k = points_of s k + cvr_converted r"
    and "cvr_converted r = (if 0 < left then \<lfloor>left * 100\<rfloor> else 0)"
    and "converted_of s' k = (if 0 < left then column 2 (getUserTotalConsume k s) else converted_of s k)"
    and "getUserTotalConsume k s' = getUserTotalConsume k s"
proof -
  obtain p s1 where e: "ensure_points k s = (p, s1)" by (cases "ensure_points k s")
  have c1: "converted_of s1 k = up_convertedConsume p" using ensure_pointsE(1) [OF e] by (simp add: converted_of_def)
  have logs: "getUserTotalConsume k s2 = getUserTotalConsume k s1" if "balance_logs s2 = balance_logs s1" for s2
    using that by (simp add: getUserTotalConsume_def getUsersTotalConsumeMap_def Let_def)
  have sum_eq: "getUserTotalConsume k s1 = getUserTotalConsume k s" and conv: "converted_of s k = up_convertedConsume p"
    using ensure_converted [OF e] by auto
  have all: "(cvr_success r \<longleftrightarrow> 0 < left) \<and> points_of s' k = points_of s k + cvr_converted r \<and>
      cvr_converted r = (if 0 < left then \<lfloor>left * 100\<rfloor> else 0) \<and>
      converted_of s' k = (if 0 < left then column 2 (getUserTotalConsume k s) else converted_of s k) \<and>
      getUserTotalConsume k s' = getUserTotalConsume k s"
  proof (cases "0 < left")
    case False
    then have "getUserTotalConsume k s1 - up_convertedConsume p \<le> 0" by (simp add: left_def sum_eq conv)
    then have "s' = s1" "\<not> cvr_success r" "cvr_converted r = 0"
      using assms(1) convert_write_none by (auto simp: convert_eq [OF e])
    then show ?thesis
      using False c1 conv sum_eq ensure_pointsE(4) [OF e] by simp
  next
    case True
    define g :: "user_points \<Rightarrow> user_points" where "g = (\<lambda>p. p\<lparr>up_points := up_points p + \<lfloor>left * 100\<rfloor>,
        up_totalEarned := up_totalEarned p + \<lfloor>left * 100\<rfloor>,
        up_convertedConsume := column 2 (getUserTotalConsume k s), up_lastConvertedAt := Some now\<rparr>)"
    define s2 where "s2 = update_points k g s1"
    have r: "cvr_success r" "cvr_converted r = \<lfloor>left * 100\<rfloor>"
      and s': "s' = add_points_log k PL_convert \<lfloor>left * 100\<rfloor> (up_points p) (up_points p + \<lfloor>left * 100\<rfloor>) None
                 (Some (R_convert (to_fixed 2 left) \<lfloor>left * 100\<rfloor>)) s2"
      using assms(1) convert_write_pos [OF ensure_pointsE(1) [OF e], of "getUserTotalConsume k s" now] True
      by (simp_all add: convert_eq [OF e] s2_def g_def left_def sum_eq conv)
    have g: "up_userId (g q) = up_userId q" for q by (simp add: g_def)
    have acc: "find_key up_userId k (points_accounts s') = Some (g p)"
      using ensure_pointsE(1) [OF e] g by (simp add: s' s2_def find_key_update_key)
    then have "points_of s' k = up_points p + \<lfloor>left * 100\<rfloor>" and "converted_of s' k = column 2 (getUserTotalConsume k s)"
      by (simp_all add: points_of_def converted_of_def g_def)
    moreover have "getUserTotalConsume k s' = getUserTotalConsume k s"
      using sum_eq logs [of s'] by (simp add: s' s2_def)
    ultimately show ?thesis
      using True r ensure_pointsE(3) [OF e] by simp
  qed
  from all show "cvr_success r \<longleftrightarrow> 0 < left"
    and "points_of s' k = points_of s k + cvr_converted r"
    and "cvr_converted r = (if 0 < left then \<lfloor>left * 100\<rfloor> else 0)"
    and "converted_of s' k = (if 0 < left then column 2 (getUserTotalConsume k s) else converted_of s k)"
    and "getUserTotalConsume k s' = getUserTotalConsume k s"
    by simp_all
qed

text \<open>Converting consumption pays one point per cent exactly once: with whole-cent amounts, a
  conversion credits 100 points for each unit of consumption not converted before, records the whole
  consumption as converted, and a second conversion right after it is refused and credits nothing.\<close>

theorem conversion_exact_and_once:
  assumes "convertPointsFromConsumption now k s = Inr (r, s')"
    and "convertPointsFromConsumption later k s' = Inr (r2, s'')"
    and "has_scale 2 (getUserTotalConsume k s)" and "has_scale 2 (converted_of s k)"
    and "converted_of s k \<le> getUserTotalConsume k s"
  shows "of_int (points_of s' k - points_of s k) = 100 * (getUserTotalConsume k s - converted_of s k)
    \<and> converted_of s' k = getUserTotalConsume k s
    \<and> \<not> cvr_success r2 \<and> points_of s'' k = points_of s' k"
proof -
  let ?left = "getUserTotalConsume k s - converted_of s k"
  have "has_scale 2 ?left" using assms(3,4) by (rule has_scale_diff)
  then obtain c :: int where c: "?left = of_int c / 10 ^ 2" by (rule has_scaleE)
  with assms(5) have "0 \<le> (of_int c :: rat) / 10 ^ 2" by simp
  then have "0 \<le> c" by simp
  then have pts: "of_int (cvr_converted r) = 100 * ?left"
    unfolding convert_cases(3) [OF assms(1)] c by (auto simp: not_less)
  have conv: "converted_of s' k = getUserTotalConsume k s"
    using assms(5) convert_cases(4) [OF assms(1)] assms(3) by (auto simp: to_fixed_id split: if_splits)
  have "\<not> cvr_success r2" "points_of s'' k = points_of s' k"
    using convert_cases(1,2,3) [OF assms(2)] convert_cases(5) [OF assms(1)] conv by auto
  with pts conv convert_cases(2) [OF assms(1)] show ?thesis by simp
qed

text \<open>A user whose log holds the purchases given.\<close>

definition spender :: "rat list \<Rightarrow> db" where
  "spender xs = empty_db\<lparr>balance_logs :=
     map (\<lambda>x. mk_log 1 BL_hourly_consume (- x) x 0 None None None None) xs\<rparr>"

definition convert_1 :: "db \<Rightarrow> convert_result \<times> db" where
  "convert_1 s = (case convertPointsFromConsumption 0 1 s of
     Inr x \<Rightarrow> x | Inl e \<Rightarrow> (\<lparr>cvr_success = False, cvr_converted = 0, cvr_newPoints = 0,
       cvr_consumeConverted = 0, cvr_message = None\<rparr>, s))"

theorem conversion_exact_and_once_witness:
  "\<exists>r s' r2 s''. convertPointsFromConsumption 0 1 (spender [5, 7]) = Inr (r, s')
     \<and> convertPointsFromConsumption 9 1 s' = Inr (r2, s'') \<and> points_of s' 1 = 1200 \<and> points_of s'' 1 = 1200"
proof -
  have c: "case convertPointsFromConsumption 0 1 (spender [5, 7]) of
      Inr (r, s') \<Rightarrow> \<not> isl (convertPointsFromConsumption 9 1 s') | Inl e \<Rightarrow> False"
    by code_simp
  then obtain r s' where run1: "convertPointsFromConsumption 0 1 (spender [5, 7]) = Inr (r, s')"
    by (auto split: sum.split_asm)
  with c have "\<not> isl (convertPointsFromConsumption 9 1 s')" by simp
  then obtain r2 s'' where run2: "convertPointsFromConsumption 9 1 s' = Inr (r2, s'')"
    by (metis isl_def old.sum.exhaust surj_pair)
  note run = run1 run2
  have total: "getUserTotalConsume 1 (spender [5, 7]) = 12" and "converted_of (spender [5, 7]) 1 = 0"
    and "points_of (spender [5, 7]) 1 = 0"
    by code_simp+
  with conversion_exact_and_once [OF run] have "of_int (points_of s' 1) = (1200 :: rat)"
    and "points_of s'' 1 = points_of s' 1" by simp_all
  then have "points_of s' 1 = 1200" and "points_of s'' 1 = 1200" by linarith+
  with run show ?thesis by blast
qed

text \<open>Consumption below a cent is lost: hourly billing consumes with eight decimals, but the
  converted amount is stored with two, so after consuming 0.016 and 0.010 (worth two points) the
  second conversion reports success, credits nothing and marks 0.03 as converted.\<close>

theorem sub_cent_consumption_lost:
  "(case convert_1 (spender [16 / 1000]) of (r1, s1) \<Rightarrow>
    case convert_1 (s1\<lparr>balance_logs := balance_logs (spender [16 / 1000, 10 / 1000])\<rparr>) of (r2, s2) \<Rightarrow>
      cvr_converted r1 = 1 \<and> cvr_success r2 \<and> cvr_converted r2 = 0
      \<and> points_of s2 1 = 1 \<and> converted_of s2 1 = 3 / 100)"
  by code_simp

text \<open>Two conversions that interleave pay twice: when both read the account before either writes,
  both credit the full amount although the consumption is recorded as converted once.\<close>

theorem interleaved_conversion_pays_twice:
  assumes "convert_read k s = (rd1, s1)" and "convert_read k s1 = (rd2, s2)"
    and "convert_write now k rd1 s2 = Inr (r1, s3)" and "convert_write now k rd2 s3 = Inr (r2, s4)"
    and "0 < getUserTotalConsume k s - converted_of s k"
  shows "points_of s4 k = points_of s k + 2 * \<lfloor>(getUserTotalConsume k s - converted_of s k) * 100\<rfloor>
    \<and> converted_of s4 k = column 2 (getUserTotalConsume k s)"
proof -
  obtain p where e: "ensure_points k s = (p, s1)" and rd1: "rd1 = (p, getUserTotalConsume k s)"
    using assms(1) ensure_converted by (auto simp: convert_read_def split: prod.splits)
  from ensure_pointsE(1) [OF e] have e2: "ensure_points k s1 = (p, s1)" by (simp add: ensure_points_def)
  then have rd2: "rd2 = rd1" and s2: "s2 = s1"
    using assms(2) ensure_converted [OF e] by (auto simp: convert_read_def rd1)
  show ?thesis
    using assms(3,4,5) ensure_pointsE [OF e] ensure_converted [OF e]
    by (auto simp: rd2 rd1 s2 convert_write_def Let_def not_less points_of_Some converted_of_def
        find_key_update_key split: if_splits)
qed

theorem interleaved_conversion_pays_twice_witness:
  "\<exists>rd1 s1 rd2 s2 r1 s3 r2 s4. convert_read 1 (spender [5]) = (rd1, s1) \<and> convert_read 1 s1 = (rd2, s2)
     \<and> convert_write 0 1 rd1 s2 = Inr (r1, s3) \<and> convert_write 0 1 rd2 s3 = Inr (r2, s4)
     \<and> points_of s4 1 = 1000"
proof -
  obtain rd1 s1 where r1: "convert_read 1 (spender [5]) = (rd1, s1)" by fastforce
  obtain rd2 s2 where r2: "convert_read 1 s1 = (rd2, s2)" by fastforce
  have c: "case convert_read 1 (spender [5]) of (rd1, s1) \<Rightarrow> case convert_read 1 s1 of (rd2, s2) \<Rightarrow>
      case convert_write 0 1 rd1 s2 of Inl e \<Rightarrow> False | Inr (r1, s3) \<Rightarrow> \<not> isl (convert_write 0 1 rd2 s3)"
    by code_simp
  then obtain q1 s3 where w1: "convert_write 0 1 rd1 s2 = Inr (q1, s3)"
    by (auto simp: r1 r2 split: sum.split_asm)
  with c have "\<not> isl (convert_write 0 1 rd2 s3)" by (simp add: r1 r2)
  then obtain q2 s4 where w2: "convert_write 0 1 rd2 s3 = Inr (q2, s4)"
    by (metis isl_def old.sum.exhaust surj_pair)
  note run = r1 r2 w1 w2
  have "getUserTotalConsume 1 (spender [5]) = 5" "converted_of (spender [5]) 1 = 0"
    "points_of (spender [5]) 1 = 0"
    by code_simp+
  with interleaved_conversion_pays_twice [OF run] have "points_of s4 1 = 1000" by simp
  with run show ?thesis by blast
qed

text \<open>Points are only spent when they are there: a deduction succeeds exactly for an account that
  holds the amount, then lowers it by the amount, adds the amount to what was spent and logs it; every
  other case leaves the database as it was. Points that were not negative stay so.\<close>

theorem deduct_only_covered:
  "(\<exists>r s'. deductPoints k amount rel rem s = Inr (r, s')
     \<and> (pr_success r \<longleftrightarrow> (\<exists>p. find_key up_userId k (points_accounts s) = Some p \<and> amount \<le> up_points p))
     \<and> (if pr_success r
        then points_of s' k = points_of s k - amount \<and> 0 \<le> points_of s' k
           \<and> pr_newPoints r = points_of s' k \<and> length (points_logs s') = Suc (length (points_logs s))
        else s' = s))"
proof (cases "find_key up_userId k (points_accounts s)")
  case None
  then show ?thesis by (simp add: deductPoints_def deduct_check_def)
next
  case (Some p)
  then show ?thesis
    by (auto simp: deductPoints_def deduct_check_def deduct_apply_def Let_def points_of_update
        points_of_Some not_less)
qed

end
