(* ===== verification/Addresses.thy ===== *)
theory Addresses
  imports Strings "HOL-Library.Word"
begin

text \<open>
  Addresses: \<open>server/src/lib/ip-calculator.ts\<close> (allocation of private IPv4 and of IPv6 addresses and
  subnets) and \<open>server/src/lib/network-address.ts\<close> (host texts). An IPv4 text is the list of the
  numbers between its dots. The IPv6 library, \<open>net.isIP\<close> and the random sources are not part of the
  repository: they are arguments, and what the code relies on is a hypothesis (\<open>ip6_laws\<close>).
\<close>

section \<open>IPv4\<close>

unbundle bit_operations_syntax

text \<open>\<open>x << k\<close> on a number: truncate, keep 32 bits, shift, read as signed.\<close>

definition shift_left :: "int \<Rightarrow> nat \<Rightarrow> int" where
  "shift_left x k = sint (push_bit k (word_of_int x :: 32 word))"

text \<open>\<open>(x >>> k) & 255\<close>.\<close>

definition octet_at :: "nat \<Rightarrow> int \<Rightarrow> int" where
  "octet_at k x = uint (drop_bit k (word_of_int x :: 32 word) AND 255)"

definition ipv4ToInt :: "int list \<Rightarrow> int" where
  "ipv4ToInt parts =
     shift_left (parts ! 0) 24 + shift_left (parts ! 1) 16 + shift_left (parts ! 2) 8 + parts ! 3"

definition intToIpv4 :: "int \<Rightarrow> int list" where
  "intToIpv4 num = [octet_at 24 num, octet_at 16 num, octet_at 8 num, octet_at 0 num]"

text \<open>\<open>random\<close> is the value of \<open>Math.random()\<close>, in [0, 1).\<close>

definition generateRandomIPv4 :: "rat \<Rightarrow> int list" where
  "generateRandomIPv4 random =
     (let start = ipv4ToInt [10, 10, 1, 1];
          end = ipv4ToInt [10, 10, 3, 254];
          range = end - start + 1;
          randomOffset = \<lfloor>random * of_int range\<rfloor> in
      intToIpv4 (start + randomOffset))"

text \<open>A part that is not a whole number is \<open>None\<close> (the source's \<open>NaN\<close>).\<close>

definition isIpv4InRange :: "int option list \<Rightarrow> bool" where
  "isIpv4InRange parts =
     (if length parts \<noteq> 4 \<or> (\<exists>p\<in>set parts. case p of None \<Rightarrow> True | Some n \<Rightarrow> n < 0 \<or> n > 255)
      then False
      else
        let num = ipv4ToInt (map the parts);
            start = ipv4ToInt [10, 10, 1, 1];
            end = ipv4ToInt [10, 10, 3, 254] in
        num \<ge> start \<and> num \<le> end)"

section \<open>IPv6\<close>

text \<open>
  The \<open>Address6\<close> class: \<open>isValid\<close>, \<open>startAddress().bigInt()\<close>, \<open>endAddress().bigInt()\<close>, \<open>bigInt()\<close>,
  \<open>subnetMask\<close> of a text, and \<open>fromBigInt(n).correctForm()\<close>.
\<close>

record ip6 =
  valid6 :: "string \<Rightarrow> bool"
  start6 :: "string \<Rightarrow> int"
  end6 :: "string \<Rightarrow> int"
  big6 :: "string \<Rightarrow> int"
  mask6 :: "string \<Rightarrow> nat"
  text6 :: "int \<Rightarrow> string"

text \<open>
  What the library documents: the range of a subnet is the aligned block of its prefix, and the text
  of a 128-bit number is a valid address that denotes it.
\<close>

definition ip6_laws :: "ip6 \<Rightarrow> bool" where
  "ip6_laws lib \<longleftrightarrow>
     (\<forall>s. valid6 lib s \<longrightarrow> mask6 lib s \<le> 128 \<and> 0 \<le> start6 lib s
        \<and> start6 lib s mod 2 ^ (128 - mask6 lib s) = 0
        \<and> end6 lib s = start6 lib s + 2 ^ (128 - mask6 lib s) - 1 \<and> end6 lib s < 2 ^ 128)
     \<and> (\<forall>n. 0 \<le> n \<and> n < 2 ^ 128 \<longrightarrow> valid6 lib (text6 lib n) \<and> big6 lib (text6 lib n) = n)"

datatype ip_error =
    Invalid_IPv6_subnet string
  | Invalid_subnet_or_address
  | Target_prefix_must_be_greater int nat

definition calculateIPv6 :: "ip6 \<Rightarrow> string \<Rightarrow> int \<Rightarrow> ip_error + string" where
  "calculateIPv6 lib subnetStr offset =
     (if \<not> valid6 lib subnetStr then Inl (Invalid_IPv6_subnet subnetStr)
      else
        let startBigInt = start6 lib subnetStr;
            targetBigInt = startBigInt + offset + 2 in
        Inr (text6 lib targetBigInt))"

definition isValidIPv6Subnet :: "ip6 \<Rightarrow> string \<Rightarrow> bool" where
  "isValidIPv6Subnet lib subnetStr = valid6 lib subnetStr"

text \<open>\<open>Number(n)\<close> keeps every integer up to \<open>MAX_SAFE_INTEGER\<close>; the offsets in use are below it.\<close>

definition getIPv6Offset :: "ip6 \<Rightarrow> string \<Rightarrow> string \<Rightarrow> ip_error + int" where
  "getIPv6Offset lib subnetStr address =
     (if \<not> valid6 lib subnetStr \<or> \<not> valid6 lib address then Inl Invalid_subnet_or_address
      else Inr (big6 lib address - start6 lib subnetStr - 2))"

definition MAX_SAFE_INTEGER :: int where
  "MAX_SAFE_INTEGER = 2 ^ 53 - 1"

text \<open>
  A random number below \<open>n\<close>: eight random bytes (as a number below \<open>2 ^ 64\<close>) reduced modulo \<open>n\<close> when
  \<open>limit\<close> is not a safe integer, \<open>Math.floor(Math.random() * n)\<close> otherwise.
\<close>

definition random_below :: "int \<Rightarrow> rat \<Rightarrow> int \<Rightarrow> int \<Rightarrow> int" where
  "random_below bytes random limit n =
     (if limit > MAX_SAFE_INTEGER then bytes mod n else \<lfloor>random * of_int n\<rfloor>)"

definition generateRandomIPv6 :: "ip6 \<Rightarrow> int \<Rightarrow> rat \<Rightarrow> string \<Rightarrow> ip_error + string" where
  "generateRandomIPv6 lib bytes random subnetStr =
     (if \<not> valid6 lib subnetStr then Inl (Invalid_IPv6_subnet subnetStr)
      else
        let minAddress = start6 lib subnetStr + 2;
            maxAddress = end6 lib subnetStr;
            addressRange = maxAddress - minAddress;
            randomOffset = random_below bytes random addressRange (addressRange + 1);
            targetBigInt = minAddress + randomOffset in
        Inr (text6 lib targetBigInt))"

text \<open>The result text is the address and the prefix it is followed by.\<close>

definition generateRandomSubnet :: "ip6 \<Rightarrow> int \<Rightarrow> rat \<Rightarrow> string \<Rightarrow> int \<Rightarrow> ip_error + string \<times> int" where
  "generateRandomSubnet lib bytes random hostSubnet prefix =
     (if \<not> valid6 lib hostSubnet then Inl (Invalid_IPv6_subnet hostSubnet)
      else if prefix \<le> int (mask6 lib hostSubnet)
      then Inl (Target_prefix_must_be_greater prefix (mask6 lib hostSubnet))
      else
        let subnetBits = nat (prefix - int (mask6 lib hostSubnet));
            maxSubnets = 2 ^ subnetBits;
            subnetIndex = random_below bytes random maxSubnets maxSubnets;
            hostStart = start6 lib hostSubnet;
            subnetSize = (if prefix \<le> 128 then 2 ^ nat (128 - prefix) else 0);
            subnetStart = hostStart + subnetIndex * subnetSize in
        Inr (text6 lib subnetStart, prefix))"

definition isIpv6InSubnet :: "ip6 \<Rightarrow> string \<Rightarrow> string \<Rightarrow> bool" where
  "isIpv6InSubnet lib address subnetStr =
     (if \<not> valid6 lib address \<or> \<not> valid6 lib subnetStr then False
      else big6 lib address \<ge> start6 lib subnetStr \<and> big6 lib address \<le> end6 lib subnetStr)"

definition isStrictValidIpv6 :: "ip6 \<Rightarrow> string \<Rightarrow> bool" where
  "isStrictValidIpv6 lib address = valid6 lib (hd (split_at (CHR ''/'') (trim address)))"

section \<open>Host texts\<close>

definition normalizeNetworkHost :: "string \<Rightarrow> string" where
  "normalizeNetworkHost value =
     (let trimmed = trim value in
      if starts_with trimmed (CHR ''['') \<and> ends_with trimmed (CHR '']'')
      then
        let inner = trim (butlast (tl trimmed)) in
        if CHR '':'' \<in> set inner then inner else trimmed
      else trimmed)"

text \<open>\<open>isIP\<close> yields 0, 4 or 6.\<close>

definition getAddressFamily :: "(string \<Rightarrow> nat) \<Rightarrow> string \<Rightarrow> nat" where
  "getAddressFamily isIP value = isIP (normalizeNetworkHost value)"

definition isIpLiteral :: "(string \<Rightarrow> nat) \<Rightarrow> string \<Rightarrow> bool" where
  "isIpLiteral isIP value \<longleftrightarrow> getAddressFamily isIP value \<noteq> 0"

definition formatHostForUrl :: "(string \<Rightarrow> nat) \<Rightarrow> string \<Rightarrow> string" where
  "formatHostForUrl isIP value =
     (let normalized = normalizeNetworkHost value in
      if getAddressFamily isIP normalized = 6 then ''['' @ normalized @ '']'' else normalized)"

definition formatHostForListen :: "(string \<Rightarrow> nat) \<Rightarrow> string \<Rightarrow> string" where
  "formatHostForListen isIP value = formatHostForUrl isIP value"

text \<open>A text argument that may be \<open>null\<close>, \<open>undefined\<close> or empty is absent.\<close>

definition present :: "string option \<Rightarrow> bool" where
  "present v \<longleftrightarrow> (case v of None \<Rightarrow> False | Some s \<Rightarrow> s \<noteq> [])"

definition selectBindableIpv4ListenAddress ::
    "(string \<Rightarrow> nat) \<Rightarrow> string option \<Rightarrow> string option \<Rightarrow> string option \<Rightarrow> string" where
  "selectBindableIpv4ListenAddress isIP explicitBindIpv4 fallbackPublicIpv4 hostIpAddress =
     (let explicit = (if present explicitBindIpv4 then normalizeNetworkHost (the explicitBindIpv4) else []) in
      if getAddressFamily isIP explicit = 4 then explicit
      else
        let normalizedHostIpAddress =
              (if present hostIpAddress then Some (normalizeNetworkHost (the hostIpAddress)) else None);
            fallback = (if present fallbackPublicIpv4 then normalizeNetworkHost (the fallbackPublicIpv4) else []) in
        if getAddressFamily isIP fallback \<noteq> 4 then ''0.0.0.0''
        else
          let localCandidates =
                (if present normalizedHostIpAddress \<and> getAddressFamily isIP (the normalizedHostIpAddress) = 4
                 then {the normalizedHostIpAddress} else {}) in
          if fallback \<in> localCandidates then fallback else ''0.0.0.0'')"

definition normalizeIpv4Address :: "(string \<Rightarrow> nat) \<Rightarrow> string option \<Rightarrow> string option" where
  "normalizeIpv4Address isIP value =
     (if \<not> present value then None
      else
        let address = trim (hd (split_at (CHR ''/'') (normalizeNetworkHost (the value)))) in
        if getAddressFamily isIP address = 4 then Some address else None)"

definition isIpv6Address :: "(string \<Rightarrow> nat) \<Rightarrow> string \<Rightarrow> bool" where
  "isIpv6Address isIP value \<longleftrightarrow> getAddressFamily isIP value = 6"

datatype dns_record_type = DNS_A | DNS_AAAA | DNS_CNAME

definition getDnsRecordType :: "(string \<Rightarrow> nat) \<Rightarrow> string \<Rightarrow> dns_record_type" where
  "getDnsRecordType isIP value =
     (let family = getAddressFamily isIP value in
      if family = 4 then DNS_A else if family = 6 then DNS_AAAA else DNS_CNAME)"

section \<open>Lemmas\<close>

text \<open>A shift of an octet is a product, signed once it reaches the top bit.\<close>

lemma shift_left_mod: "shift_left x k mod 2 ^ 32 = x * 2 ^ k mod 2 ^ 32"
proof -
  have "shift_left x k mod 2 ^ 32 = uint (push_bit k (word_of_int x :: 32 word))"
    using uint_sint [of "push_bit k (word_of_int x :: 32 word)"] by (simp add: shift_left_def take_bit_eq_mod)
  also have "\<dots> = x * 2 ^ k mod 2 ^ 32"
    unfolding unsigned_push_bit_eq
    by (simp add: push_bit_eq_mult [where ?'a = int] unsigned_of_int take_bit_eq_mod mod_mult_left_eq)
  finally show ?thesis .
qed

lemma octet_at_eq: "octet_at k x = x mod 2 ^ 32 div 2 ^ k mod 256"
proof -
  have "octet_at k x = and (uint (drop_bit k (word_of_int x :: 32 word))) 255"
    by (simp add: octet_at_def unsigned_and_eq)
  also have "\<dots> = take_bit 8 (uint (drop_bit k (word_of_int x :: 32 word)))"
    by (simp add: take_bit_eq_mask mask_eq_exp_minus_1)
  also have "\<dots> = x mod 2 ^ 32 div 2 ^ k mod 256"
    unfolding unsigned_drop_bit_eq
    by (simp add: unsigned_of_int drop_bit_eq_div [where ?'a = int] take_bit_eq_mod)
  finally show ?thesis .
qed

definition octets :: "int list \<Rightarrow> bool" where
  "octets ps \<longleftrightarrow> length ps = 4 \<and> (\<forall>p\<in>set ps. 0 \<le> p \<and> p \<le> 255)"

lemma ipv4ToInt_mod:
  assumes "octets [a, b, c, d]"
  shows "ipv4ToInt [a, b, c, d] mod 2 ^ 32 = a * 2 ^ 24 + b * 2 ^ 16 + c * 2 ^ 8 + d"
proof -
  let ?v = "a * 2 ^ 24 + b * 2 ^ 16 + c * 2 ^ 8 + d"
  have "ipv4ToInt [a, b, c, d] mod 2 ^ 32 = ?v mod 2 ^ 32"
    unfolding ipv4ToInt_def by (simp only: nth_Cons_0 nth_Cons_numeral diff_numeral_special
        One_nat_def nth_Cons_Suc numeral_2_eq_2 numeral_3_eq_3)
      (intro mod_add_cong shift_left_mod refl)
  also have "\<dots> = ?v" using assms by (simp add: octets_def)
  finally show ?thesis .
qed

lemma octets_back:
  assumes "octets [a, b, c, d]" and "n mod 2 ^ 32 = a * 2 ^ 24 + b * 2 ^ 16 + c * 2 ^ 8 + d"
  shows "intToIpv4 n = [a, b, c, d]"
proof -
  have r: "0 \<le> a" "a \<le> 255" "0 \<le> b" "b \<le> 255" "0 \<le> c" "c \<le> 255" "0 \<le> d" "d \<le> 255"
    using assms(1) by (simp_all add: octets_def)
  have "(a * 2 ^ 24 + b * 2 ^ 16 + c * 2 ^ 8 + d) div 2 ^ 24 = a"
    "(a * 2 ^ 24 + b * 2 ^ 16 + c * 2 ^ 8 + d) div 2 ^ 16 = a * 2 ^ 8 + b"
    "(a * 2 ^ 24 + b * 2 ^ 16 + c * 2 ^ 8 + d) div 2 ^ 8 = a * 2 ^ 16 + b * 2 ^ 8 + c"
    using r by simp_all
  moreover have low: "(x * 256 + y) mod 256 = y" if "0 \<le> y" "y \<le> 255" for x y :: int
    using that by simp
  have "(a * 65536 + b * 256 + c) mod 256 = c" using low [OF r(5,6), of "a * 256 + b"] by (simp add: algebra_simps)
  moreover have "(a * 16777216 + b * 65536 + c * 256 + d) mod 256 = d"
    using low [OF r(7,8), of "a * 65536 + b * 256 + c"] by (simp add: algebra_simps)
  ultimately show ?thesis
    unfolding intToIpv4_def octet_at_eq assms(2) using r by simp
qed

text \<open>The private range as numbers, and back as octets.\<close>

lemma range_consts:
  "ipv4ToInt [10, 10, 1, 1] = 168427777" "ipv4ToInt [10, 10, 3, 254] = 168428542"
  by code_simp+

lemma octets4: "octets ps \<Longrightarrow> \<exists>a b c d. ps = [a, b, c, d]"
  by (auto simp: octets_def eval_nat_numeral length_Suc_conv)

lemma shift_small:
  assumes "0 \<le> x * 2 ^ k" "x * 2 ^ k < 2 ^ 31"
  shows "shift_left x k = x * 2 ^ k"
proof -
  have eq: "shift_left x k = sint (word_of_int (x * 2 ^ k) :: 32 word)"
    by (simp add: shift_left_def push_bit_eq_mult)
  have "signed_take_bit 31 (x * 2 ^ k) = x * 2 ^ k"
    using assms by (intro signed_take_bit_int_eq_self) simp_all
  then show ?thesis unfolding eq signed_of_int by simp
qed

lemma ipv4ToInt_private:
  "0 \<le> c \<Longrightarrow> c \<le> 255 \<Longrightarrow> ipv4ToInt [10, 10, c, d] = 168427520 + c * 256 + d"
  by (simp add: ipv4ToInt_def shift_small)

lemma range_check:
  assumes "octets [a, b, c, d]"
  shows "isIpv4InRange (map Some [a, b, c, d]) \<longleftrightarrow>
    a = 10 \<and> b = 10 \<and> 257 \<le> c * 256 + d \<and> c * 256 + d \<le> 1022"
proof -
  have r: "0 \<le> a" "a \<le> 255" "0 \<le> b" "b \<le> 255" "0 \<le> c" "c \<le> 255" "0 \<le> d" "d \<le> 255"
    using assms by (simp_all add: octets_def)
  let ?n = "ipv4ToInt [a, b, c, d]" and ?v = "a * 2 ^ 24 + b * 2 ^ 16 + c * 2 ^ 8 + d"
  have v: "?n mod 2 ^ 32 = ?v" by (rule ipv4ToInt_mod [OF assms])
  have "isIpv4InRange (map Some [a, b, c, d]) \<longleftrightarrow> 168427777 \<le> ?n \<and> ?n \<le> 168428542"
    using r by (simp add: isIpv4InRange_def range_consts not_less Let_def)
  also have "\<dots> \<longleftrightarrow> 168427777 \<le> ?v \<and> ?v \<le> 168428542"
  proof (cases "a \<le> 127")
    case True
    then have "?n = ?v" using r by (simp add: ipv4ToInt_def shift_small)
    then show ?thesis by (simp only:)
  next
    case False
    then have "\<not> ?v \<le> 168428542" using r by simp
    moreover have "?n = ?v" if "168427777 \<le> ?n \<and> ?n \<le> 168428542"
      using v that by simp
    ultimately show ?thesis by metis
  qed
  also have "\<dots> \<longleftrightarrow> a = 10 \<and> b = 10 \<and> 257 \<le> c * 256 + d \<and> c * 256 + d \<le> 1022"
  proof
    assume v: "168427777 \<le> ?v \<and> ?v \<le> 168428542"
    then have "a = 10" using r by simp
    moreover from this v have "b = 10" using r by simp
    ultimately show "a = 10 \<and> b = 10 \<and> 257 \<le> c * 256 + d \<and> c * 256 + d \<le> 1022" using v by simp
  qed auto
  finally show ?thesis .
qed

lemma block_fits:
  fixes m :: int
  assumes "0 \<le> i" "i < 2 ^ b" "b \<le> e"
  shows "i * 2 ^ (e - b) + 2 ^ (e - b) \<le> (2::int) ^ e"
proof -
  have "(i + 1) * 2 ^ (e - b) \<le> 2 ^ b * (2::int) ^ (e - b)"
    using assms(2) by (intro mult_right_mono) auto
  also have "\<dots> = 2 ^ e" using assms(3) by (simp flip: power_add)
  finally show ?thesis by (simp add: algebra_simps)
qed

lemma random_below_bounds:
  assumes "0 \<le> random" "random < 1" "0 < n"
  shows "0 \<le> random_below bytes random l n" "random_below bytes random l n < n"
proof -
  have "0 \<le> random * of_int n" using assms by simp
  moreover have "random * of_int n < of_int n" using assms by simp
  ultimately have "0 \<le> \<lfloor>random * of_int n\<rfloor>" "\<lfloor>random * of_int n\<rfloor> < n"
    by (simp_all add: floor_less_iff)
  then show "0 \<le> random_below bytes random l n" "random_below bytes random l n < n"
    using assms(3) by (simp_all add: random_below_def)
qed

text \<open>The laws of the library, one by one.\<close>

lemma ip6_range:
  assumes "ip6_laws lib" "valid6 lib s"
  shows "mask6 lib s \<le> 128" "0 \<le> start6 lib s" "start6 lib s mod 2 ^ (128 - mask6 lib s) = 0"
    and "end6 lib s = start6 lib s + 2 ^ (128 - mask6 lib s) - 1" "end6 lib s < 2 ^ 128"
  using assms by (auto simp: ip6_laws_def)

lemma ip6_text:
  assumes "ip6_laws lib" "0 \<le> n" "n < 2 ^ 128"
  shows "valid6 lib (text6 lib n)" "big6 lib (text6 lib n) = n"
  using assms by (auto simp: ip6_laws_def)

lemma ip6_in_subnet:
  assumes "ip6_laws lib" "valid6 lib s" "0 \<le> n" "n < 2 ^ 128"
  shows "isIpv6InSubnet lib (text6 lib n) s \<longleftrightarrow> start6 lib s \<le> n \<and> n \<le> end6 lib s"
  using ip6_text [OF assms(1,3,4)] assms(2) by (simp add: isIpv6InSubnet_def)

lemma host_size: "m \<le> 126 \<Longrightarrow> (4::int) \<le> 2 ^ (128 - m)"
  using power_increasing [of 2 "128 - m" "2::int"] by simp

text \<open>A number line to run the examples on: a text of \<open>n\<close> letters is the address \<open>n\<close>; two texts
  denote subnets.\<close>

definition unary_ip6 :: ip6 where
  "unary_ip6 = \<lparr>valid6 = (\<lambda>s. int (length s) < 2 ^ 128),
     start6 = (\<lambda>s. if s = ''S'' \<or> s = ''T'' then 0 else int (length s)),
     end6 = (\<lambda>s. if s = ''S'' then 2 ^ 64 - 1 else if s = ''T'' then 1 else int (length s)),
     big6 = (\<lambda>s. if s = ''S'' \<or> s = ''T'' then 0 else int (length s)),
     mask6 = (\<lambda>s. if s = ''S'' then 64 else if s = ''T'' then 127 else 128),
     text6 = (\<lambda>n. replicate (nat n) (CHR ''a''))\<rparr>"

lemma unary_text: "replicate n (CHR ''a'') \<noteq> ''S'' \<and> replicate n (CHR ''a'') \<noteq> ''T''"
  by (cases n) auto

lemma unary_laws: "ip6_laws unary_ip6"
  using unary_text by (auto simp: ip6_laws_def unary_ip6_def)

lemma normalize_trimmed: "trim (normalizeNetworkHost v) = normalizeNetworkHost v"
  by (simp add: normalizeNetworkHost_def Let_def)

lemma normalize_brackets:
  assumes "CHR '':'' \<in> set n" "trim n = n"
  shows "normalizeNetworkHost (''['' @ n @ '']'') = n"
proof -
  have "trim (''['' @ n @ '']'') = ''['' @ n @ '']''"
    by (simp add: trim_def is_space_def)
  then show ?thesis using assms by (simp add: normalizeNetworkHost_def starts_with_def ends_with_def)
qed

section \<open>Properties\<close>

text \<open>IPv4 texts and numbers round-trip over the whole address space, although the shifts wrap
  to negative numbers from 128.0.0.0 on; every address drawn from the private range is accepted by
  the range check, and the check accepts exactly 10.10.1.1 to 10.10.3.254.\<close>

theorem ipv4_allocation:
  assumes "octets ps" and "0 \<le> random" "random < 1"
  shows "intToIpv4 (ipv4ToInt ps) = ps
    \<and> isIpv4InRange (map Some (generateRandomIPv4 random))
    \<and> (isIpv4InRange (map Some ps) \<longleftrightarrow> ps ! 0 = 10 \<and> ps ! 1 = 10 \<and>
        257 \<le> ps ! 2 * 256 + ps ! 3 \<and> ps ! 2 * 256 + ps ! 3 \<le> 1022)"
proof -
  obtain a b c d where ps: "ps = [a, b, c, d]" using octets4 [OF assms(1)] by blast
  then have oct: "octets [a, b, c, d]" using assms(1) by simp
  then have r: "0 \<le> a" "a \<le> 255" "0 \<le> b" "b \<le> 255" "0 \<le> c" "c \<le> 255" "0 \<le> d" "d \<le> 255"
    by (simp_all add: octets_def)
  have same: "intToIpv4 (ipv4ToInt ps) = ps" unfolding ps by (rule octets_back [OF oct ipv4ToInt_mod [OF oct]])
  have drawn: "isIpv4InRange (map Some (generateRandomIPv4 random))"
  proof -
    define k where "k = \<lfloor>random * 766\<rfloor>"
    have k: "0 \<le> k" "k < 766" using assms(2,3) by (simp_all add: k_def floor_less_iff)
    define x where "x = (k + 257) div 256"
    define y where "y = (k + 257) mod 256"
    have xy: "0 \<le> x" "x \<le> 255" "0 \<le> y" "y \<le> 255" "x * 256 + y = k + 257"
      using k by (simp_all add: x_def y_def)
    then have o: "octets [10, 10, x, y]" by (simp add: octets_def)
    have "generateRandomIPv4 random = intToIpv4 (168427777 + k)"
      by (simp add: generateRandomIPv4_def range_consts k_def)
    also have "\<dots> = [10, 10, x, y]" by (rule octets_back [OF o]) (use xy k in simp)
    finally show ?thesis
      using xy k by (simp add: isIpv4InRange_def range_consts ipv4ToInt_private)
  qed
  show ?thesis using same drawn range_check [OF oct] ps by simp
qed

theorem ipv4_allocation_witness:
  "intToIpv4 (ipv4ToInt [203, 0, 113, 7]) = [203, 0, 113, 7]
    \<and> isIpv4InRange (map Some (generateRandomIPv4 (9999 / 10000)))"
  using ipv4_allocation [of "[203, 0, 113, 7]" "9999 / 10000"] by (simp add: octets_def)

text \<open>Offsets and IPv6 addresses correspond: the address computed for an offset gives back that
  offset, so different offsets get different addresses, and it lies in the subnet exactly when the
  offset and the two reserved addresses fit; a larger offset silently leaves the subnet.\<close>

theorem ipv6_offset_roundtrip:
  assumes "ip6_laws lib" "valid6 lib s" "0 \<le> offset" "start6 lib s + offset + 2 < 2 ^ 128"
  shows "\<exists>a. calculateIPv6 lib s offset = Inr a \<and> getIPv6Offset lib s a = Inr offset
    \<and> (isIpv6InSubnet lib a s \<longleftrightarrow> offset + 2 < 2 ^ (128 - mask6 lib s))"
proof -
  let ?n = "start6 lib s + offset + 2"
  have n: "0 \<le> ?n" using ip6_range [OF assms(1,2)] assms(3) by simp
  have "calculateIPv6 lib s offset = Inr (text6 lib ?n)" and "getIPv6Offset lib s (text6 lib ?n) = Inr offset"
    using assms(2) ip6_text [OF assms(1) n assms(4)] by (simp_all add: calculateIPv6_def getIPv6Offset_def)
  moreover have "isIpv6InSubnet lib (text6 lib ?n) s \<longleftrightarrow> offset + 2 < 2 ^ (128 - mask6 lib s)"
    unfolding ip6_in_subnet [OF assms(1,2) n assms(4)] ip6_range(4) [OF assms(1,2)] using assms(3) by auto
  ultimately show ?thesis by blast
qed

theorem ipv6_offset_roundtrip_witness:
  "\<exists>a. calculateIPv6 unary_ip6 ''S'' 5 = Inr a \<and> getIPv6Offset unary_ip6 ''S'' a = Inr 5"
  using ipv6_offset_roundtrip [OF unary_laws, of "''S''" 5] by (auto simp: unary_ip6_def)

text \<open>Random IPv6 addresses are usable: drawn from any subnet of at least four addresses, the address
  is in the subnet and is neither of the two reserved first addresses, whatever the random sources give.
  From a /127 or /128 the draw always leaves the subnet.\<close>

theorem random_ipv6_in_subnet:
  assumes "ip6_laws lib" "valid6 lib s" "0 \<le> random" "random < 1" "start6 lib s + 2 < 2 ^ 128"
  shows "\<exists>a. generateRandomIPv6 lib bytes random s = Inr a
    \<and> (mask6 lib s \<le> 126 \<longrightarrow> isIpv6InSubnet lib a s \<and> start6 lib s + 2 \<le> big6 lib a)
    \<and> (127 \<le> mask6 lib s \<longrightarrow> \<not> isIpv6InSubnet lib a s)"
proof -
  note R = ip6_range [OF assms(1,2)]
  let ?min = "start6 lib s + 2" and ?r = "end6 lib s - (start6 lib s + 2)"
  let ?k = "random_below bytes random ?r (?r + 1)"
  have gen: "generateRandomIPv6 lib bytes random s = Inr (text6 lib (?min + ?k))"
    using assms(2) by (simp add: generateRandomIPv6_def Let_def)
  have "isIpv6InSubnet lib (text6 lib (?min + ?k)) s \<and> ?min \<le> big6 lib (text6 lib (?min + ?k))"
    if m: "mask6 lib s \<le> 126"
  proof -
    have "0 < ?r + 1" using R(4) host_size [OF m] by simp
    then have k: "0 \<le> ?k" "?k < ?r + 1" using random_below_bounds [OF assms(3,4)] by auto
    then have n: "0 \<le> ?min + ?k" "?min + ?k < 2 ^ 128" using R(2,5) by linarith+
    then show ?thesis
      using k ip6_in_subnet [OF assms(1,2) n] ip6_text [OF assms(1) n] by simp
  qed
  moreover have "\<not> isIpv6InSubnet lib (text6 lib (?min + ?k)) s" if m: "127 \<le> mask6 lib s"
  proof -
    have "mask6 lib s = 127 \<or> mask6 lib s = 128" using m R(1) by auto
    then have r: "?r = - 1 \<or> ?r = - 2" using R(4) by auto
    have "\<lfloor>- random\<rfloor> = 0 \<or> \<lfloor>- random\<rfloor> = - 1" using assms(3,4) by linarith
    then have "random_below bytes random (- 1) 0 = 0"
      and "random_below bytes random (- 2) (- 1) = 0 \<or> random_below bytes random (- 2) (- 1) = - 1"
      by (simp_all add: random_below_def MAX_SAFE_INTEGER_def)
    then have k: "?k = 0 \<or> (?k = - 1 \<and> ?r = - 2)"
      using r by (elim disjE) (simp_all only: add.commute [of _ 1], simp_all)
    then have n: "0 \<le> ?min + ?k" "?min + ?k < 2 ^ 128" using R(2) assms(5) by auto
    show ?thesis using k r ip6_in_subnet [OF assms(1,2) n] by auto
  qed
  ultimately show ?thesis using gen by blast
qed

theorem random_ipv6_in_subnet_witness:
  "(\<exists>a. generateRandomIPv6 unary_ip6 7 (1 / 2) ''S'' = Inr a \<and> isIpv6InSubnet unary_ip6 a ''S'')
   \<and> (\<exists>a. generateRandomIPv6 unary_ip6 7 (1 / 2) ''T'' = Inr a \<and> \<not> isIpv6InSubnet unary_ip6 a ''T'')"
  using random_ipv6_in_subnet [OF unary_laws, of "''S''" "1 / 2" 7]
    random_ipv6_in_subnet [OF unary_laws, of "''T''" "1 / 2" 7]
  by (auto simp: unary_ip6_def)

text \<open>Random subnets tile the host's subnet: a draw is an aligned block of the target size that lies
  inside the host's range, and two draws with the same prefix are the same block or disjoint.\<close>

theorem random_subnets_tile:
  assumes "ip6_laws lib" "valid6 lib s" "0 \<le> random" "random < 1" "0 \<le> random'" "random' < 1"
    and "int (mask6 lib s) < p" "p \<le> 128"
  shows "\<exists>x y. generateRandomSubnet lib bytes random s p = Inr (text6 lib x, p)
    \<and> generateRandomSubnet lib bytes' random' s p = Inr (text6 lib y, p)
    \<and> big6 lib (text6 lib x) = x \<and> x mod 2 ^ nat (128 - p) = 0
    \<and> start6 lib s \<le> x \<and> x + 2 ^ nat (128 - p) - 1 \<le> end6 lib s
    \<and> (x = y \<or> x + 2 ^ nat (128 - p) \<le> y \<or> y + 2 ^ nat (128 - p) \<le> x)"
proof -
  note R = ip6_range [OF assms(1,2)]
  let ?e = "128 - mask6 lib s" and ?b = "nat (p - int (mask6 lib s))" and ?S = "(2::int) ^ nat (128 - p)"
  have sz: "?e - ?b = nat (128 - p)" "?b \<le> ?e" using assms(7,8) R(1) by auto
  have gen: "generateRandomSubnet lib bs r s p =
      Inr (text6 lib (start6 lib s + random_below bs r (2 ^ ?b) (2 ^ ?b) * ?S), p)" for bs r
    using assms(2,7,8) by (simp add: generateRandomSubnet_def Let_def)
  define i where "i = random_below bytes random (2 ^ ?b) (2 ^ ?b)"
  define j where "j = random_below bytes' random' (2 ^ ?b) (2 ^ ?b)"
  have i: "0 \<le> i" "i < 2 ^ ?b" and j: "0 \<le> j" "j < 2 ^ ?b"
    using random_below_bounds [OF assms(3,4)] random_below_bounds [OF assms(5,6)] by (simp_all add: i_def j_def)
  have fit: "i * ?S + ?S \<le> 2 ^ ?e" using block_fits [OF i sz(2)] unfolding sz(1) .
  have pos: "0 < ?S" by simp
  have "start6 lib s mod ?S = 0"
  proof -
    have "?S dvd 2 ^ ?e" using sz(1) by (intro le_imp_power_dvd) auto
    then show ?thesis using R(3) by (meson dvd_trans mod_0_imp_dvd dvd_imp_mod_0)
  qed
  then have al: "(start6 lib s + i * ?S) mod ?S = 0" by simp
  have "i * ?S \<le> 2 ^ ?e - ?S" "0 \<le> i * ?S" using fit i(1) by simp_all
  then have n: "0 \<le> start6 lib s + i * ?S" "start6 lib s + i * ?S < 2 ^ 128" using R(2,4,5) pos by linarith+
  have apart: "i = j \<or> i * ?S + ?S \<le> j * ?S \<or> j * ?S + ?S \<le> i * ?S"
  proof -
    have "a * ?S + ?S \<le> b * ?S" if "a < b" for a b
      using that mult_right_mono [of "a + 1" b ?S] by (simp add: algebra_simps)
    then show ?thesis by (metis linorder_neqE)
  qed
  define x where "x = start6 lib s + i * ?S"
  define y where "y = start6 lib s + j * ?S"
  have "generateRandomSubnet lib bytes random s p = Inr (text6 lib x, p)"
    "generateRandomSubnet lib bytes' random' s p = Inr (text6 lib y, p)"
    unfolding gen x_def y_def i_def j_def by (rule refl)+
  moreover have "big6 lib (text6 lib x) = x" unfolding x_def by (rule ip6_text(2) [OF assms(1) n])
  moreover have "start6 lib s \<le> x" using i(1) by (simp add: x_def)
  moreover have "x + ?S - 1 \<le> end6 lib s" using fit R(4) by (simp add: x_def)
  moreover have "x mod ?S = 0" using al by (simp add: x_def)
  moreover have "x = y \<or> x + ?S \<le> y \<or> y + ?S \<le> x" using apart by (auto simp: x_def y_def)
  ultimately show ?thesis by metis
qed

theorem random_subnets_tile_witness:
  "\<exists>x. generateRandomSubnet unary_ip6 9 (1 / 3) ''S'' 112 = Inr (text6 unary_ip6 x, 112) \<and> x mod 2 ^ 16 = 0"
proof -
  have "valid6 unary_ip6 ''S''" "mask6 unary_ip6 ''S'' = 64" "nat (128 - 112) = 16" by (simp_all add: unary_ip6_def)
  then show ?thesis
    using random_subnets_tile [OF unary_laws, of "''S''" "1 / 3" "1 / 3" 112 9 9] by auto
qed

text \<open>Address literals survive formatting: an IPv6 literal is put in brackets and an IPv4 literal
  is left alone, the formatted text has the same address family and normalises back to the literal, and
  formatting it again changes nothing.\<close>

theorem host_literals_roundtrip:
  assumes "trim v = v" "isIP v = 4 \<or> isIP v = 6" "\<not> starts_with v (CHR ''['')"
    and "isIP v = 6 \<Longrightarrow> CHR '':'' \<in> set v"
  shows "formatHostForUrl isIP v = (if isIP v = 6 then ''['' @ v @ '']'' else v)
    \<and> getAddressFamily isIP (formatHostForUrl isIP v) = isIP v
    \<and> normalizeNetworkHost (formatHostForUrl isIP v) = v
    \<and> formatHostForUrl isIP (formatHostForUrl isIP v) = formatHostForUrl isIP v"
proof -
  have n: "normalizeNetworkHost v = v" using assms(1,3) by (simp add: normalizeNetworkHost_def)
  have f: "formatHostForUrl isIP v = (if isIP v = 6 then ''['' @ v @ '']'' else v)"
    by (simp add: formatHostForUrl_def getAddressFamily_def n)
  have b: "normalizeNetworkHost (formatHostForUrl isIP v) = v"
    using normalize_brackets [OF assms(4,1)] n unfolding f by simp
  have "formatHostForUrl isIP (formatHostForUrl isIP v) = formatHostForUrl isIP v"
    by (subst (1) formatHostForUrl_def) (simp only: b Let_def getAddressFamily_def n, simp add: f)
  with f b show ?thesis by (simp add: getAddressFamily_def)
qed

theorem host_literals_roundtrip_witness:
  "formatHostForUrl (\<lambda>s. if s = ''::1'' then 6 else 0) ''::1'' = ''[::1]''"
proof -
  have "trim ''::1'' = ''::1''" by code_simp
  then show ?thesis
    using host_literals_roundtrip [of "''::1''" "\<lambda>s. if s = ''::1'' then 6 else 0"]
    by (simp add: starts_with_def)
qed

text \<open>A listen address is always a bindable IPv4 address: it is the wildcard, the explicit address, or a
  public address that is the host's own.\<close>

theorem listen_address_bindable:
  assumes "isIP ''0.0.0.0'' = 4" "isIP [] = 0"
  shows "getAddressFamily isIP (selectBindableIpv4ListenAddress isIP explicit fallback host) = 4
    \<and> (selectBindableIpv4ListenAddress isIP explicit fallback host = ''0.0.0.0''
       \<or> (\<exists>v. explicit = Some v \<and> selectBindableIpv4ListenAddress isIP explicit fallback host = normalizeNetworkHost v)
       \<or> (\<exists>f h. fallback = Some f \<and> host = Some h \<and> normalizeNetworkHost f = normalizeNetworkHost h
            \<and> selectBindableIpv4ListenAddress isIP explicit fallback host = normalizeNetworkHost f))"
proof -
  have w: "normalizeNetworkHost ''0.0.0.0'' = ''0.0.0.0''" and e: "normalizeNetworkHost [] = []" by code_simp+
  show ?thesis
    using assms w e
    by (cases explicit; cases fallback; cases host)
      (auto simp: selectBindableIpv4ListenAddress_def present_def Let_def getAddressFamily_def)
qed

theorem listen_address_bindable_witness:
  "getAddressFamily (\<lambda>s. if s = [] then 0 else 4)
     (selectBindableIpv4ListenAddress (\<lambda>s. if s = [] then 0 else 4) None (Some ''1.2.3.4'') None) = 4"
  by (rule listen_address_bindable [THEN conjunct1]) simp_all

end
