(* ===== verification/AccessLimits.thy ===== *)
theory AccessLimits
  imports Database Strings
begin

text \<open>
  Small rules that guard resources and access: CPU allowances (\<open>server/src/lib/cpu-allowance.ts\<close>),
  the traffic multiplier of a package on a host (\<open>lib/traffic-multiplier.ts\<close>), the whitelist of email
  domains (\<open>lib/email-domain.ts\<close>) and who may operate an instance (\<open>lib/permission.ts\<close>). System
  settings and the package-host binding are read from tables not modelled: their values are arguments.
\<close>

section \<open>CPU allowance\<close>

definition allowanceToCores :: "rat \<Rightarrow> int" where
  "allowanceToCores allowance =
     (if allowance \<le> 0 then 1 else if allowance \<le> 100 then 1 else \<lceil>allowance / 100\<rceil>)"

text \<open>The upper bound defaults to \<open>Infinity\<close>: \<open>None\<close>. \<open>x % 5 === 0\<close>: \<open>x\<close> is a multiple of 5.\<close>

definition multiple_of_5 :: "rat \<Rightarrow> bool" where
  "multiple_of_5 x \<longleftrightarrow> of_int \<lfloor>x / 5\<rfloor> * 5 = x"

definition isValidAllowance :: "rat \<Rightarrow> rat \<Rightarrow> rat option \<Rightarrow> bool" where
  "isValidAllowance allowance minAllowance maxAllowance =
     (if allowance < minAllowance \<or> (case maxAllowance of None \<Rightarrow> False | Some m \<Rightarrow> allowance > m)
      then False else multiple_of_5 allowance)"

definition normalizeAllowance :: "rat \<Rightarrow> rat \<Rightarrow> rat option \<Rightarrow> rat" where
  "normalizeAllowance allowance minAllowance maxAllowance =
     (let a1 = max allowance minAllowance;
          a2 = (case maxAllowance of None \<Rightarrow> a1 | Some m \<Rightarrow> min a1 m);
          a3 = of_int \<lfloor>a2 / 5\<rfloor> * 5 in
      max a3 minAllowance)"

section \<open>Traffic multiplier\<close>

definition MULTIPLIER_SCALE :: int where
  "MULTIPLIER_SCALE = 1000"

text \<open>A stored multiplier: absent (\<open>null\<close>, \<open>undefined\<close> or empty), or what \<open>Number\<close> makes of it.\<close>

datatype multiplier = Absent | Not_finite | Numeric rat

definition normalizeTrafficMultiplier :: "multiplier \<Rightarrow> rat outcome" where
  "normalizeTrafficMultiplier value =
     (case value of
        Absent \<Rightarrow> Inr 1
      | Not_finite \<Rightarrow> Inl (Error ''Traffic multiplier must be at least 0.001 and no more than 100'')
      | Numeric numeric \<Rightarrow>
          if numeric < 1 / 1000 \<or> numeric > 100
          then Inl (Error ''Traffic multiplier must be at least 0.001 and no more than 100'')
          else Inr (of_int (js_round (numeric * 1000)) / 1000))"

text \<open>Division of \<open>bigint\<close>s truncates towards zero.\<close>

definition bigint_div :: "int \<Rightarrow> int \<Rightarrow> int" where
  "bigint_div a b = sgn a * sgn b * (\<bar>a\<bar> div \<bar>b\<bar>)"

definition applyTrafficMultiplier :: "int option \<Rightarrow> multiplier \<Rightarrow> int option outcome" where
  "applyTrafficMultiplier limit m =
     (case limit of
        None \<Rightarrow> Inr None
      | Some l \<Rightarrow>
          (case normalizeTrafficMultiplier m of
             Inl e \<Rightarrow> Inl e
           | Inr normalized \<Rightarrow>
               let scaled = js_round (normalized * of_int MULTIPLIER_SCALE) in
               Inr (Some (bigint_div (l * scaled) MULTIPLIER_SCALE))))"

text \<open>\<open>binding\<close> maps a package and a host to the stored multiplier, if they are bound.\<close>

definition getPackageHostTrafficMultiplier ::
    "(int \<Rightarrow> int \<Rightarrow> multiplier option) \<Rightarrow> int \<Rightarrow> int \<Rightarrow> rat outcome" where
  "getPackageHostTrafficMultiplier binding packageId hostId =
     normalizeTrafficMultiplier (case binding packageId hostId of None \<Rightarrow> Absent | Some m \<Rightarrow> m)"

definition resolveInstanceTrafficLimitForHost ::
    "(int \<Rightarrow> int \<Rightarrow> multiplier option) \<Rightarrow> int option \<Rightarrow> int \<Rightarrow> int option \<Rightarrow> int option outcome" where
  "resolveInstanceTrafficLimitForHost binding packageId hostId baseTrafficLimit =
     (if packageId = None \<or> packageId = Some 0 then Inr baseTrafficLimit
      else case getPackageHostTrafficMultiplier binding (the packageId) hostId of
        Inl e \<Rightarrow> Inl e
      | Inr m \<Rightarrow> applyTrafficMultiplier baseTrafficLimit (Numeric m))"

section \<open>Email domains\<close>

definition DEFAULT_ALLOWED_DOMAINS :: "string list" where
  "DEFAULT_ALLOWED_DOMAINS = [''gmail.com'', ''outlook.com'', ''hotmail.com'', ''live.com'', ''msn.com'',
     ''icloud.com'', ''me.com'', ''mac.com'', ''yahoo.com'', ''zoho.com'', ''proton.me'', ''pm.me'',
     ''protonmail.com'', ''protonmail.ch'', ''fastmail.com'', ''tuta.com'', ''tutanota.com'', ''tuta.io'',
     ''keemail.me'', ''posteo.de'', ''posteo.net'', ''disroot.org'', ''riseup.net'']"

definition getAllowedEmailDomains :: "string option \<Rightarrow> string list" where
  "getAllowedEmailDomains domainsStr =
     (case domainsStr of
        None \<Rightarrow> DEFAULT_ALLOWED_DOMAINS
      | Some s \<Rightarrow>
          if s = [] then DEFAULT_ALLOWED_DOMAINS
          else filter (\<lambda>d. length d > 0) (map (\<lambda>d. toLowerCase (trim d)) (split_at (CHR '','') s)))"

definition extractEmailDomain :: "string \<Rightarrow> string option" where
  "extractEmailDomain email =
     (case after_last (CHR ''@'') email of
        None \<Rightarrow> None
      | Some d \<Rightarrow> if d = [] then None else Some (toLowerCase d))"

record email_result =
  er_valid :: bool
  er_domain :: "string option"
  er_allowedDomains :: "string list option"

definition validateEmailDomain :: "bool \<Rightarrow> string option \<Rightarrow> string \<Rightarrow> email_result" where
  "validateEmailDomain whitelistEnabled domainsStr email =
     (if \<not> whitelistEnabled then \<lparr>er_valid = True, er_domain = None, er_allowedDomains = None\<rparr>
      else case extractEmailDomain email of
        None \<Rightarrow> \<lparr>er_valid = False, er_domain = None, er_allowedDomains = None\<rparr>
      | Some domain \<Rightarrow>
          let allowedDomains = getAllowedEmailDomains domainsStr;
              isAllowed = domain \<in> set allowedDomains in
          \<lparr>er_valid = isAllowed, er_domain = Some domain,
           er_allowedDomains = (if isAllowed then None else Some allowedDomains)\<rparr>)"

section \<open>Permissions\<close>

datatype role = Role_admin | Role_user

record auth_user =
  au_id :: int
  au_role :: role

datatype permission = Allowed_admin | Allowed_owner | Allowed_hostOwner | Denied string

definition allowed :: "permission \<Rightarrow> bool" where
  "allowed p \<longleftrightarrow> (case p of Denied _ \<Rightarrow> False | _ \<Rightarrow> True)"

definition checkInstancePermission :: "auth_user \<Rightarrow> instance_row \<Rightarrow> db \<Rightarrow> permission" where
  "checkInstancePermission user inst s =
     (if au_role user = Role_admin then Allowed_admin
      else if i_userId inst = au_id user then Allowed_owner
      else case find_key h_id (i_hostId inst) (hosts s) of
        Some host \<Rightarrow>
          if h_userId host = au_id user then Allowed_hostOwner
          else Denied ''No permission to operate this instance''
      | None \<Rightarrow> Denied ''No permission to operate this instance'')"

definition checkInstanceOwnerOrAdminPermission :: "auth_user \<Rightarrow> instance_row \<Rightarrow> permission" where
  "checkInstanceOwnerOrAdminPermission user inst =
     (if au_role user = Role_admin then Allowed_admin
      else if i_userId inst = au_id user then Allowed_owner
      else Denied ''This operation is only allowed for the instance owner or an administrator'')"

text \<open>The replies sent when access is refused: 403, and 404 for an instance that does not exist.\<close>

datatype reply = Forbidden_403 | Not_found_404

definition requireInstanceViewPermission :: "auth_user \<Rightarrow> instance_row \<Rightarrow> db \<Rightarrow> reply option" where
  "requireInstanceViewPermission user inst s =
     (if \<not> allowed (checkInstancePermission user inst s) then Some Forbidden_403 else None)"

definition getInstanceWithPermission :: "auth_user \<Rightarrow> int \<Rightarrow> db \<Rightarrow> reply + instance_row" where
  "getInstanceWithPermission user instanceId s =
     (case find_key i_id instanceId (instances s) of
        None \<Rightarrow> Inl Not_found_404
      | Some inst \<Rightarrow>
          if \<not> allowed (checkInstancePermission user inst s) then Inl Forbidden_403
          else Inr inst)"

section \<open>Lemmas\<close>

lemma floor5_le: "of_int \<lfloor>x / 5\<rfloor> * 5 \<le> (x::rat)"
proof -
  have "of_int \<lfloor>x / 5\<rfloor> * 5 \<le> x / 5 * 5" by (intro mult_right_mono of_int_floor_le) simp
  then show ?thesis by simp
qed

lemma multiple_of_5_floor [simp]: "multiple_of_5 (of_int \<lfloor>x / 5\<rfloor> * 5)"
  by (simp add: multiple_of_5_def)

lemma multiplier_range:
  assumes "normalizeTrafficMultiplier m = Inr x"
  shows "\<exists>k. x = of_int k / 1000 \<and> 1 \<le> k \<and> k \<le> 100000 \<and> js_round (x * of_int MULTIPLIER_SCALE) = k"
proof (cases m)
  case Absent
  then show ?thesis using assms js_round_of_int [of 1000]
    by (intro exI [of _ 1000]) (simp add: normalizeTrafficMultiplier_def MULTIPLIER_SCALE_def)
next
  case Not_finite
  then show ?thesis using assms by (simp add: normalizeTrafficMultiplier_def)
next
  case (Numeric n)
  then have n: "1 \<le> n * 1000" "n * 1000 \<le> 100000" and x: "x = of_int (js_round (n * 1000)) / 1000"
    using assms by (auto simp: normalizeTrafficMultiplier_def field_simps split: if_splits)
  have "1 \<le> js_round (n * 1000)" "js_round (n * 1000) \<le> 100000"
    using n by (auto simp: js_round_def le_floor_iff floor_le_iff)
  then show ?thesis using x by (intro exI [of _ "js_round (n * 1000)"]) (simp add: MULTIPLIER_SCALE_def)
qed

lemma bigint_div_nonneg: "0 \<le> a \<Longrightarrow> 0 < b \<Longrightarrow> bigint_div a b = a div b"
  by (cases "a = 0") (auto simp: bigint_div_def)

lemma applyTraffic_eq:
  assumes "normalizeTrafficMultiplier m = Inr (of_int k / 1000)" "1 \<le> k" "0 \<le> l"
    and "js_round (of_int k / 1000 * of_int MULTIPLIER_SCALE) = k"
  shows "applyTrafficMultiplier (Some l) m = Inr (Some (l * k div 1000))"
  using assms by (simp add: applyTrafficMultiplier_def bigint_div_nonneg MULTIPLIER_SCALE_def)

lemma lower_char_at:
  assumes "c \<noteq> CHR ''@''"
  shows "lower_char c \<noteq> CHR ''@''"
proof
  have code: "of_char (CHR ''@'') = (64 :: nat)" by code_simp
  assume l: "lower_char c = CHR ''@''"
  show False
  proof (cases "65 \<le> (of_char c :: nat) \<and> (of_char c :: nat) \<le> 90")
    case True
    then have "of_char (lower_char c) = (of_char c + 32 :: nat) mod 256"
      unfolding lower_char_def Let_def by (simp only: if_P of_char_of)
    then have "(of_char c + 32 :: nat) mod 256 = 64" unfolding l code by (rule sym)
    moreover have "(of_char c + 32 :: nat) mod 256 = of_char c + 32" using True by (intro mod_less) linarith
    ultimately show False using True by linarith
  next
    case False
    then have "lower_char c = c" unfolding lower_char_def Let_def by (simp only: if_False)
    with l assms show False by (simp only:)
  qed
qed

section \<open>Properties\<close>

text \<open>Normalised CPU allowances are valid: with bounds in order and a minimum that is a multiple of 5,
  the result passes the validity check, is within the bounds, is the allowance itself if that was valid,
  and normalising again changes nothing; the cores it stands for cover it.\<close>

theorem allowance_normal_form:
  assumes "multiple_of_5 lo" and "\<And>m. hi = Some m \<Longrightarrow> lo \<le> m"
  shows "isValidAllowance (normalizeAllowance a lo hi) lo hi
    \<and> (isValidAllowance a lo hi \<longrightarrow> normalizeAllowance a lo hi = a)
    \<and> normalizeAllowance (normalizeAllowance a lo hi) lo hi = normalizeAllowance a lo hi
    \<and> normalizeAllowance a lo hi \<le> 100 * of_int (allowanceToCores (normalizeAllowance a lo hi))"
proof -
  have fix_valid: "normalizeAllowance b lo hi = b" if "isValidAllowance b lo hi" for b
    using that by (cases hi) (auto simp: isValidAllowance_def normalizeAllowance_def multiple_of_5_def Let_def split: if_splits)
  have valid: "isValidAllowance (normalizeAllowance a lo hi) lo hi"
  proof -
    define b where "b = (case hi of None \<Rightarrow> max a lo | Some m \<Rightarrow> min (max a lo) m)"
    have n: "normalizeAllowance a lo hi = max (of_int \<lfloor>b / 5\<rfloor> * 5) lo"
      by (simp add: normalizeAllowance_def b_def Let_def)
    have "multiple_of_5 (max (of_int \<lfloor>b / 5\<rfloor> * 5) lo)" using assms(1) by (simp add: max_def)
    moreover have "max (of_int \<lfloor>b / 5\<rfloor> * 5) lo \<le> m" if "hi = Some m" for m
      using that assms(2) floor5_le [of b] by (auto simp: b_def)
    ultimately show ?thesis unfolding n by (cases hi) (auto simp: isValidAllowance_def)
  qed
  have "x \<le> 100 * of_int (allowanceToCores x)" for x
  proof (cases "x \<le> 100")
    case True
    then show ?thesis by (simp add: allowanceToCores_def)
  next
    case False
    have "x / 100 * 100 \<le> of_int \<lceil>x / 100\<rceil> * 100" by (intro mult_right_mono le_of_int_ceiling) simp
    with False show ?thesis by (simp add: allowanceToCores_def mult.commute)
  qed
  then show ?thesis using valid fix_valid by blast
qed

theorem allowance_normal_form_witness:
  "isValidAllowance (normalizeAllowance 163 15 (Some 400)) 15 (Some 400)"
proof -
  have "multiple_of_5 15" by code_simp
  then show ?thesis using allowance_normal_form [of 15 "Some 400" 163] by simp
qed

text \<open>The traffic multiplier scales a limit to within a byte: an accepted multiplier \<open>x\<close> (rounded to
  thousandths, between 0.001 and 100) turns a limit \<open>l\<close> into \<open>l * x\<close> rounded down, unlimited stays
  unlimited, an absent multiplier keeps the limit, and a larger limit never gets less.\<close>

theorem traffic_limit_scaled:
  assumes "normalizeTrafficMultiplier m = Inr x" and "0 \<le> l" "l \<le> l'"
  shows "1 / 1000 \<le> x \<and> x \<le> 100
    \<and> applyTrafficMultiplier (Some l) m = Inr (Some \<lfloor>of_int l * x\<rfloor>)
    \<and> applyTrafficMultiplier None m = Inr None
    \<and> applyTrafficMultiplier (Some l) Absent = Inr (Some l)
    \<and> \<lfloor>of_int l * x\<rfloor> \<le> \<lfloor>of_int l' * x\<rfloor>"
proof -
  obtain k where k: "x = of_int k / 1000" "1 \<le> k" "k \<le> 100000" "js_round (x * of_int MULTIPLIER_SCALE) = k"
    using multiplier_range [OF assms(1)] by blast
  have "\<lfloor>of_int l * x\<rfloor> = l * k div 1000"
    using floor_divide_of_int_eq [of "l * k" 1000, where 'a = rat] by (simp add: k(1))
  then have "applyTrafficMultiplier (Some l) m = Inr (Some \<lfloor>of_int l * x\<rfloor>)"
    using applyTraffic_eq [OF assms(1) [unfolded k(1)] k(2) assms(2) k(4) [unfolded k(1)]] by (simp only:)
  moreover have "applyTrafficMultiplier (Some l) Absent = Inr (Some l)"
  proof -
    obtain j where j: "(1::rat) = of_int j / 1000" "js_round (1 * of_int MULTIPLIER_SCALE) = j"
      using multiplier_range [of Absent 1] by (auto simp: normalizeTrafficMultiplier_def)
    then have "j = 1000" by (simp add: field_simps)
    then show ?thesis
      using applyTraffic_eq [of Absent 1000 l] j assms(2) by (simp add: normalizeTrafficMultiplier_def)
  qed
  moreover have "of_int l * x \<le> of_int l' * x" using assms(3) k by (intro mult_right_mono) simp_all
  then have "\<lfloor>of_int l * x\<rfloor> \<le> \<lfloor>of_int l' * x\<rfloor>" by (rule floor_mono)
  moreover have "1 / 1000 \<le> x" "x \<le> 100" using k(2,3) by (simp_all add: k(1))
  moreover have "applyTrafficMultiplier None m = Inr None" by (simp add: applyTrafficMultiplier_def)
  ultimately show ?thesis by blast
qed

theorem traffic_limit_scaled_witness:
  "applyTrafficMultiplier (Some 1000001) (Numeric (3 / 2)) = Inr (Some 1500001)"
proof -
  have m: "normalizeTrafficMultiplier (Numeric (3 / 2)) = Inr (3 / 2)" by code_simp
  show ?thesis using traffic_limit_scaled [OF m, of 1000001 1000001] by (simp add: floor_eq_iff)
qed

text \<open>The whitelist looks at the part after the last @: with it enabled, an address whose last part is
  the domain \<open>d\<close> is accepted exactly when \<open>d\<close>, in any case, is on the list, whatever comes before, and
  an address without a domain is refused.\<close>

theorem whitelist_by_last_domain:
  assumes "CHR ''@'' \<notin> set d" "d \<noteq> []" "CHR ''@'' \<notin> set nodomain"
  shows "(er_valid (validateEmailDomain True cfg (local @ CHR ''@'' # d)) \<longleftrightarrow>
        toLowerCase d \<in> set (getAllowedEmailDomains cfg))
    \<and> er_valid (validateEmailDomain True cfg (local @ CHR ''@'' # toLowerCase d)) =
        er_valid (validateEmailDomain True cfg (local @ CHR ''@'' # d))
    \<and> \<not> er_valid (validateEmailDomain True cfg nodomain)
    \<and> \<not> er_valid (validateEmailDomain True cfg (local @ ''@''))"
proof -
  have low: "CHR ''@'' \<notin> set (toLowerCase d)"
  proof
    assume "CHR ''@'' \<in> set (toLowerCase d)"
    then obtain c where l: "CHR ''@'' = lower_char c" and c: "c \<in> set d"
      unfolding toLowerCase_def set_map by (rule imageE)
    have "c \<noteq> CHR ''@''" using c assms(1) by (intro notI) (simp only:)
    then show False using l [symmetric] by (rule lower_char_at [THEN notE])
  qed
  have "extractEmailDomain (local @ CHR ''@'' # e) = Some (toLowerCase e)" if "CHR ''@'' \<notin> set e" "e \<noteq> []" for e
    using after_last_append [OF that(1), of local] that(2) by (simp add: extractEmailDomain_def)
  note ext = this [OF assms(1,2)] this [OF low]
  have "toLowerCase d \<noteq> []" using assms(2) by (simp add: toLowerCase_def)
  moreover have "extractEmailDomain nodomain = None" using assms(3) by (simp add: extractEmailDomain_def after_last_def)
  moreover have "extractEmailDomain (local @ ''@'') = None"
    using after_last_append [of "CHR ''@''" "[]" local] by (simp add: extractEmailDomain_def)
  ultimately show ?thesis using ext by (simp add: validateEmailDomain_def Let_def)
qed

theorem whitelist_by_last_domain_witness:
  "\<not> er_valid (validateEmailDomain True None ''a@gmail.com@evil.org'')"
proof -
  have "toLowerCase ''evil.org'' \<notin> set (getAllowedEmailDomains None)" by code_simp
  then show ?thesis
    using whitelist_by_last_domain [of "''evil.org''" "[]" None "''a@gmail.com''"] by simp
qed

text \<open>Access to an instance is exactly for administrators, its owner and the owner of its host, and
  sensitive operations are not for the host's owner: whoever passes the strict check passes the general
  one, and the difference is only a host owner who neither owns the instance nor administrates.\<close>

theorem instance_access:
  "(allowed (checkInstancePermission user inst s) \<longleftrightarrow>
      au_role user = Role_admin \<or> i_userId inst = au_id user
      \<or> (\<exists>h. find_key h_id (i_hostId inst) (hosts s) = Some h \<and> h_userId h = au_id user))
   \<and> (allowed (checkInstanceOwnerOrAdminPermission user inst) \<longleftrightarrow>
        allowed (checkInstancePermission user inst s) \<and> checkInstancePermission user inst s \<noteq> Allowed_hostOwner)
   \<and> (getInstanceWithPermission user k s = Inr inst \<longleftrightarrow>
        find_key i_id k (instances s) = Some inst \<and> requireInstanceViewPermission user inst s = None)"
  by (auto simp: allowed_def checkInstancePermission_def checkInstanceOwnerOrAdminPermission_def
      getInstanceWithPermission_def requireInstanceViewPermission_def split: option.splits)

end
