(* ===== verification/ResourcePool.thy ===== *)
theory ResourcePool
  imports Database
begin

text \<open>
  The pool of resources a user collects, and the daily check-in that feeds it:
  \<open>server/src/db/resource-pool.ts\<close> and \<open>server/src/db/checkin.ts\<close>. The clock \<open>now\<close> and the random
  numbers in [0, 1) are arguments. Beijing time is UTC+8 without daylight saving.
\<close>

section \<open>The pool\<close>

datatype pool_field = PF_cpu | PF_memory | PF_disk | PF_traffic

definition RESOURCE_FIELD_MAP :: "code_type \<Rightarrow> pool_field option" where
  "RESOURCE_FIELD_MAP t =
     (case t of CT_c \<Rightarrow> Some PF_cpu | CT_r \<Rightarrow> Some PF_memory | CT_d \<Rightarrow> Some PF_disk
      | CT_t \<Rightarrow> Some PF_traffic | CT_p \<Rightarrow> None)"

definition pool_get :: "pool_field \<Rightarrow> resource_pool \<Rightarrow> int" where
  "pool_get f p = (case f of PF_cpu \<Rightarrow> rp_cpu p | PF_memory \<Rightarrow> rp_memory p | PF_disk \<Rightarrow> rp_disk p | PF_traffic \<Rightarrow> rp_traffic p)"

definition pool_credit :: "pool_field \<Rightarrow> int \<Rightarrow> resource_pool \<Rightarrow> resource_pool" where
  "pool_credit f n p =
     (case f of
        PF_cpu \<Rightarrow> p\<lparr>rp_cpu := rp_cpu p + n\<rparr>
      | PF_memory \<Rightarrow> p\<lparr>rp_memory := rp_memory p + n\<rparr>
      | PF_disk \<Rightarrow> p\<lparr>rp_disk := rp_disk p + n\<rparr>
      | PF_traffic \<Rightarrow> p\<lparr>rp_traffic := rp_traffic p + n\<rparr>)"

definition new_pool :: "int \<Rightarrow> resource_pool" where
  "new_pool userId = \<lparr>rp_userId = userId, rp_cpu = 0, rp_memory = 0, rp_disk = 0, rp_traffic = 0\<rparr>"

definition getUserResourcePool :: "int \<Rightarrow> db \<Rightarrow> resource_pool \<times> db" where
  "getUserResourcePool userId s =
     (case find_key rp_userId userId (pools s) of
        Some p \<Rightarrow> (p, s)
      | None \<Rightarrow> (new_pool userId, s\<lparr>pools := pools s @ [new_pool userId]\<rparr>))"

definition credit_pool :: "int \<Rightarrow> pool_field \<Rightarrow> int \<Rightarrow> db \<Rightarrow> db" where
  "credit_pool userId f amount s =
     s\<lparr>pools := upsert_key rp_userId userId (pool_credit f amount) (pool_credit f amount (new_pool userId)) (pools s)\<rparr>"

definition add_pool_log :: "int \<Rightarrow> pool_action \<Rightarrow> code_type \<Rightarrow> int \<Rightarrow> int option \<Rightarrow> remark option \<Rightarrow> db \<Rightarrow> db" where
  "add_pool_log userId action resourceType amount instanceId remark s =
     s\<lparr>pool_logs := pool_logs s @ [\<lparr>rl_userId = userId, rl_action = action, rl_type = resourceType,
        rl_amount = amount, rl_instanceId = instanceId, rl_remark = remark\<rparr>]\<rparr>"

definition addToResourcePool ::
    "int \<Rightarrow> code_type \<Rightarrow> int \<Rightarrow> pool_action \<Rightarrow> remark option \<Rightarrow> db \<Rightarrow> (unit \<times> db) outcome" where
  "addToResourcePool userId resourceType amount action remark s =
     (case RESOURCE_FIELD_MAP resourceType of
        None \<Rightarrow> Inl (Error ''Invalid resource type: p'')
      | Some field \<Rightarrow>
          Inr ((), add_pool_log userId action resourceType amount None remark (credit_pool userId field amount s)))"

definition MAX_SAFE :: int where
  "MAX_SAFE = 2 ^ 53 - 1"

definition deductFromResourcePool ::
    "int \<Rightarrow> code_type \<Rightarrow> int \<Rightarrow> int \<Rightarrow> remark option \<Rightarrow> db \<Rightarrow> (bool \<times> db) outcome" where
  "deductFromResourcePool userId resourceType amount instanceId remark s =
     (case RESOURCE_FIELD_MAP resourceType of
        None \<Rightarrow> Inl (Error ''Invalid resource type: p'')
      | Some field \<Rightarrow>
          if \<bar>amount\<bar> > MAX_SAFE \<or> amount \<le> 0 then Inl (Error ''Invalid resource amount'')
          else
            let sufficient = (\<lambda>p. rp_userId p = userId \<and> amount \<le> pool_get field p);
                count = count_where sufficient (pools s);
                s1 = s\<lparr>pools := update_where sufficient (pool_credit field (- amount)) (pools s)\<rparr> in
            if count \<noteq> 1 then Inr (False, s1)
            else Inr (True, add_pool_log userId PA_apply resourceType (- amount) (Some instanceId) remark s1))"

definition adminGrantResource where
  "adminGrantResource userId resourceType amount remark s =
     addToResourcePool userId resourceType amount PA_admin_grant remark s"

definition systemGrantResource where
  "systemGrantResource userId resourceType amount remark s =
     addToResourcePool userId resourceType amount PA_system_grant remark s"

definition lotteryGrantResource where
  "lotteryGrantResource userId resourceType amount remark s =
     addToResourcePool userId resourceType amount PA_lottery remark s"

definition logSystemRedeemToInstance where
  "logSystemRedeemToInstance userId resourceType amount instanceId remark s =
     add_pool_log userId PA_system_redeem resourceType amount (Some instanceId) remark s"

section \<open>Check-in\<close>

definition CODE_VALUES :: "code_type \<Rightarrow> int list" where
  "CODE_VALUES t =
     (case t of CT_c \<Rightarrow> [1, 2, 3, 5] | CT_r \<Rightarrow> [2, 4, 6, 12] | CT_d \<Rightarrow> [16, 32, 64, 128]
      | CT_t \<Rightarrow> [1, 2, 3, 5] | CT_p \<Rightarrow> [100, 300, 500, 1000])"

definition CODE_TYPES :: "code_type list" where
  "CODE_TYPES = [CT_c, CT_r, CT_d, CT_t]"

definition randomizeReward :: "rat \<Rightarrow> rat \<Rightarrow> code_type \<times> int" where
  "randomizeReward random1 random2 =
     (let type = pick random1 CODE_TYPES; value = pick random2 (CODE_VALUES type) in (type, value))"

definition userHasInstances :: "int \<Rightarrow> db \<Rightarrow> bool" where
  "userHasInstances userId s \<longleftrightarrow>
     count_where (\<lambda>i. i_userId i = userId \<and> i_status i \<notin> {IS_deleted, IS_error}) (instances s) > 0"

definition beijing_offset :: int where
  "beijing_offset = 8 * 60 * 60 * 1000"

definition beijing_day_ms :: int where
  "beijing_day_ms = 24 * 60 * 60 * 1000"

definition toBeijingMidnight :: "int \<Rightarrow> int" where
  "toBeijingMidnight date = (date + beijing_offset) div beijing_day_ms * beijing_day_ms - beijing_offset"

definition getBeijingMidnight :: "int \<Rightarrow> int" where
  "getBeijingMidnight now = toBeijingMidnight now"

definition hasCheckedInToday :: "int \<Rightarrow> int \<Rightarrow> db \<Rightarrow> bool" where
  "hasCheckedInToday now userId s =
     (case find_key cs_userId userId (checkins s) of
        None \<Rightarrow> False
      | Some stats \<Rightarrow>
          (case cs_lastCheckin stats of
             None \<Rightarrow> False
           | Some d \<Rightarrow> toBeijingMidnight d \<ge> getBeijingMidnight now))"

definition hasRedeemedToday :: "int \<Rightarrow> int \<Rightarrow> db \<Rightarrow> bool" where
  "hasRedeemedToday now userId s =
     (case find_key cs_userId userId (checkins s) of
        None \<Rightarrow> False
      | Some stats \<Rightarrow>
          (case cs_lastRedeem stats of
             None \<Rightarrow> False
           | Some d \<Rightarrow> toBeijingMidnight d \<ge> getBeijingMidnight now))"

definition getCheckinStats :: "int \<Rightarrow> db \<Rightarrow> checkin_stats option" where
  "getCheckinStats userId s = find_key cs_userId userId (checkins s)"

definition new_stats :: "int \<Rightarrow> checkin_stats" where
  "new_stats userId = \<lparr>cs_userId = userId, cs_lastCheckin = None, cs_lastRedeem = None,
     cs_othersUse = 0, cs_selfOnly = False\<rparr>"

text \<open>The \<open>upsert\<close> of the statistics row with the fields given.\<close>

definition upsertCheckinStats :: "int \<Rightarrow> (checkin_stats \<Rightarrow> checkin_stats) \<Rightarrow> db \<Rightarrow> db" where
  "upsertCheckinStats userId f s =
     s\<lparr>checkins := upsert_key cs_userId userId f (f (new_stats userId)) (checkins s)\<rparr>"

definition performCheckin :: "int \<Rightarrow> rat \<Rightarrow> rat \<Rightarrow> int \<Rightarrow> db \<Rightarrow> (code_type \<times> int) \<times> db" where
  "performCheckin now random1 random2 userId s =
     (let (type, value) = randomizeReward random1 random2;
          field = the (RESOURCE_FIELD_MAP type);
          s1 = credit_pool userId field value s;
          s2 = add_pool_log userId PA_checkin type value None (Some R_checkin) s1;
          s3 = upsertCheckinStats userId (\<lambda>c. c\<lparr>cs_lastCheckin := Some now\<rparr>) s2 in
      ((type, value), s3))"

definition useRedeemCode :: "int \<Rightarrow> int \<Rightarrow> int \<Rightarrow> int option \<Rightarrow> db \<Rightarrow> (unit \<times> db) outcome" where
  "useRedeemCode now recordId usedBy usedFor s =
     (if find_key cr_id recordId (checkin_records s) = None then Inl RecordNotFound
      else
        let s1 = s\<lparr>checkin_records := update_key cr_id recordId
              (\<lambda>r. r\<lparr>cr_usedAt := Some now, cr_usedBy := Some usedBy, cr_usedFor := usedFor\<rparr>) (checkin_records s)\<rparr> in
        Inr ((), upsertCheckinStats usedBy (\<lambda>c. c\<lparr>cs_lastRedeem := Some now\<rparr>) s1))"

definition updateOwnerShareStatus :: "int \<Rightarrow> bool \<Rightarrow> db \<Rightarrow> db" where
  "updateOwnerShareStatus ownerId usedBySelf s =
     (let stats = find_key cs_userId ownerId (checkins s) in
      if usedBySelf
      then upsertCheckinStats ownerId (\<lambda>c. c\<lparr>cs_othersUse := 0, cs_selfOnly := False\<rparr>) s
      else
        let currentCount = (case stats of None \<Rightarrow> 0 | Some c \<Rightarrow> cs_othersUse c);
            newCount = currentCount + 1;
            selfOnlyMode = (newCount \<ge> 2) in
        upsertCheckinStats ownerId (\<lambda>c. c\<lparr>cs_othersUse := newCount, cs_selfOnly := selfOnlyMode\<rparr>) s)"

record checkin_status =
  ck_hasCheckedIn :: bool
  ck_hasInstances :: bool
  ck_selfOnlyMode :: bool
  ck_consecutiveOthersUse :: int

definition getCheckinStatus :: "int \<Rightarrow> int \<Rightarrow> db \<Rightarrow> checkin_status" where
  "getCheckinStatus now userId s =
     (let stats = getCheckinStats userId s in
      \<lparr>ck_hasCheckedIn = hasCheckedInToday now userId s,
       ck_hasInstances = userHasInstances userId s,
       ck_selfOnlyMode = (case stats of None \<Rightarrow> False | Some c \<Rightarrow> cs_selfOnly c),
       ck_consecutiveOthersUse = (case stats of None \<Rightarrow> 0 | Some c \<Rightarrow> cs_othersUse c)\<rparr>)"

definition userHasPaidInstance :: "int \<Rightarrow> db \<Rightarrow> bool" where
  "userHasPaidInstance userId s \<longleftrightarrow>
     count_where (\<lambda>i. i_userId i = userId \<and> i_billingMode i = BM_package \<and> i_packagePlanId i \<noteq> None) (instances s) > 0"

section \<open>The pool's books\<close>

interpretation pool_account: account_table rp_userId "pool_get f" "pool_credit f" for f
  by unfold_locales (simp_all add: pool_get_def pool_credit_def split: pool_field.split)

definition pool_of :: "db \<Rightarrow> int \<Rightarrow> pool_field \<Rightarrow> int" where
  "pool_of s k f = (case find_key rp_userId k (pools s) of None \<Rightarrow> 0 | Some p \<Rightarrow> pool_get f p)"

text \<open>What the log says a user's pool received and gave; redemptions that went to an instance
  directly are only noted.\<close>

definition logged_amount :: "db \<Rightarrow> int \<Rightarrow> pool_field \<Rightarrow> int" where
  "logged_amount s k f =
     (\<Sum>e\<leftarrow>pool_logs s. if rl_userId e = k \<and> RESOURCE_FIELD_MAP (rl_type e) = Some f \<and> rl_action e \<noteq> PA_system_redeem
        then rl_amount e else 0)"

definition pools_ok :: "db \<Rightarrow> bool" where
  "pools_ok s \<longleftrightarrow> distinct (map rp_userId (pools s))
     \<and> (\<forall>k f. 0 \<le> pool_of s k f) \<and> (\<forall>k f. logged_amount s k f = pool_of s k f)"

lemma pool_get_credit: "pool_get g (pool_credit f n p) = pool_get g p + (if f = g then n else 0)"
  by (cases f; cases g) (simp_all add: pool_get_def pool_credit_def)

lemma pool_credit_user [simp]: "rp_userId (pool_credit f n p) = rp_userId p"
  by (rule pool_account.key_credit)

lemma new_pool_simps [simp]: "rp_userId (new_pool k) = k" "pool_get f (new_pool k) = 0"
  by (cases f; simp add: new_pool_def pool_get_def)+

lemma pool_of_credit: "pool_of (credit_pool k f n s) j g = pool_of s j g + (if j = k \<and> f = g then n else 0)"
  by (simp add: pool_of_def credit_pool_def find_key_upsert pool_get_credit split: option.split)

lemma pool_frame [simp]:
  "pools (add_pool_log k a t n i r s) = pools s" "pool_of (add_pool_log k a t n i r s) j f = pool_of s j f"
  "pool_logs (credit_pool k g n s) = pool_logs s" "checkins (add_pool_log k a t n i r s) = checkins s"
  "checkins (credit_pool k g n s) = checkins s"
  "pools (upsertCheckinStats k h s) = pools s" "pool_logs (upsertCheckinStats k h s) = pool_logs s"
  "pool_of (upsertCheckinStats k h s) j f = pool_of s j f"
  by (simp_all add: add_pool_log_def credit_pool_def pool_of_def upsertCheckinStats_def)

lemma logged_frame [simp]:
  "logged_amount (upsertCheckinStats k h s) j f = logged_amount s j f"
  "logged_amount (credit_pool k g n s) j f = logged_amount s j f"
  by (simp_all add: logged_amount_def)

lemma logged_add:
  "logged_amount (add_pool_log k a t n i r s) j f = logged_amount s j f
     + (if j = k \<and> RESOURCE_FIELD_MAP t = Some f \<and> a \<noteq> PA_system_redeem then n else 0)"
  by (auto simp: logged_amount_def add_pool_log_def)

lemma distinct_credit_pool: "distinct (map rp_userId (pools s)) \<Longrightarrow> distinct (map rp_userId (pools (credit_pool k f n s)))"
  by (simp add: credit_pool_def distinct_upsert_key)

lemma grant_ok:
  assumes "pools_ok s" "RESOURCE_FIELD_MAP t = Some f" "0 \<le> n" "a \<noteq> PA_system_redeem"
  shows "pools_ok (add_pool_log k a t n i r (credit_pool k f n s))"
  using assms by (auto simp: pools_ok_def logged_add pool_of_credit distinct_credit_pool)

lemma deduct_Inr:
  assumes "deductFromResourcePool k t n i r s = Inr (b, s')" "distinct (map rp_userId (pools s))"
  shows "\<exists>f. RESOURCE_FIELD_MAP t = Some f \<and> 0 < n \<and>
    (b \<longleftrightarrow> (\<exists>p. find_key rp_userId k (pools s) = Some p \<and> n \<le> pool_get f p)) \<and>
    (if b then s' = add_pool_log k PA_apply t (- n) (Some i) r (credit_pool k f (- n) s) else s' = s)"
proof -
  obtain f where f: "RESOURCE_FIELD_MAP t = Some f" and n: "0 < n"
    using assms(1) by (auto simp: deductFromResourcePool_def split: option.splits if_splits)
  let ?P = "\<lambda>p. rp_userId p = k \<and> n \<le> pool_get f p"
  have c: "count_where ?P (pools s) = 1 \<longleftrightarrow> (\<exists>p. find_key rp_userId k (pools s) = Some p \<and> n \<le> pool_get f p)"
    by (rule pool_account.guarded_debit_count [OF assms(2)])
  show ?thesis
  proof (cases "\<exists>p. find_key rp_userId k (pools s) = Some p \<and> n \<le> pool_get f p")
    case True
    then obtain p where p: "find_key rp_userId k (pools s) = Some p" "n \<le> pool_get f p" by blast
    have "update_where ?P (pool_credit f (- n)) (pools s) = update_key rp_userId k (pool_credit f (- n)) (pools s)"
      by (rule pool_account.guarded_debit_eq [OF assms(2) p])
    then have "s\<lparr>pools := update_where ?P (pool_credit f (- n)) (pools s)\<rparr> = credit_pool k f (- n) s"
      using p by (simp add: credit_pool_def upsert_key_def)
    then show ?thesis
      using assms(1) f n c True by (auto simp: deductFromResourcePool_def Let_def split: if_splits)
  next
    case False
    have "update_where ?P (pool_credit f (- n)) (pools s) = pools s"
      by (rule pool_account.guarded_debit_refused [OF assms(2) False])
    then show ?thesis
      using assms(1) f n c False by (auto simp: deductFromResourcePool_def Let_def split: if_splits)
  qed
qed

text \<open>The operations on pools as steps; grants are of nonnegative amounts.\<close>

inductive pool_step :: "db \<Rightarrow> db \<Rightarrow> bool" where
  read: "getUserResourcePool k s = (p, s') \<Longrightarrow> pool_step s s'"
| admin: "0 \<le> n \<Longrightarrow> adminGrantResource k t n r s = Inr (u, s') \<Longrightarrow> pool_step s s'"
| system: "0 \<le> n \<Longrightarrow> systemGrantResource k t n r s = Inr (u, s') \<Longrightarrow> pool_step s s'"
| lottery: "0 \<le> n \<Longrightarrow> lotteryGrantResource k t n r s = Inr (u, s') \<Longrightarrow> pool_step s s'"
| deduct: "deductFromResourcePool k t n i r s = Inr (b, s') \<Longrightarrow> pool_step s s'"
| note_redeem: "s' = logSystemRedeemToInstance k t n i r s \<Longrightarrow> pool_step s s'"
| checkin: "0 \<le> x \<Longrightarrow> x < 1 \<Longrightarrow> 0 \<le> y \<Longrightarrow> y < 1 \<Longrightarrow> performCheckin now x y k s = (w, s') \<Longrightarrow> pool_step s s'"

lemma reward_range:
  assumes "0 \<le> x" "x < 1" "0 \<le> y" "y < 1" "randomizeReward x y = (t, v)"
  shows "v \<in> set (CODE_VALUES t) \<and> t \<noteq> CT_p \<and> 0 < v \<and> (\<exists>f. RESOURCE_FIELD_MAP t = Some f)"
proof -
  have t: "t \<in> set CODE_TYPES" and "v = pick y (CODE_VALUES t)"
    using assms pick_mem [OF assms(1,2), of CODE_TYPES] by (auto simp: randomizeReward_def Let_def CODE_TYPES_def)
  moreover have "CODE_VALUES t \<noteq> []" by (cases t) (simp_all add: CODE_VALUES_def)
  ultimately have v: "v \<in> set (CODE_VALUES t)" using pick_mem [OF assms(3,4)] by simp
  then have "0 < v" by (cases t) (auto simp: CODE_VALUES_def)
  with t v show ?thesis by (auto simp: CODE_TYPES_def RESOURCE_FIELD_MAP_def)
qed

lemma checkin_eq:
  assumes "randomizeReward x y = (t, v)"
  shows "performCheckin now x y k s = ((t, v), upsertCheckinStats k (\<lambda>c. c\<lparr>cs_lastCheckin := Some now\<rparr>)
    (add_pool_log k PA_checkin t v None (Some R_checkin) (credit_pool k (the (RESOURCE_FIELD_MAP t)) v s)))"
  using assms by (simp add: performCheckin_def)

lemma pools_ok_stats [simp]: "pools_ok (upsertCheckinStats k h s) \<longleftrightarrow> pools_ok s"
  by (simp add: pools_ok_def)

lemma pool_step_ok: "pool_step s s' \<Longrightarrow> pools_ok s \<Longrightarrow> pools_ok s'"
proof (induction rule: pool_step.induct)
  case (read k s p s')
  have "pool_of (s\<lparr>pools := pools s @ [new_pool k]\<rparr>) j f = pool_of s j f" if "find_key rp_userId k (pools s) = None" for j f
    using that by (auto simp: pool_of_def find_key_append split: option.split)
  moreover have "logged_amount (s\<lparr>pools := ps\<rparr>) j f = logged_amount s j f" for ps j f by (simp add: logged_amount_def)
  ultimately show ?case using read
    by (auto simp: getUserResourcePool_def pools_ok_def find_key_None split: option.splits)
next
  case (deduct k t n i r s b s')
  have d: "distinct (map rp_userId (pools s))" using deduct(2) by (simp add: pools_ok_def)
  obtain f where f: "RESOURCE_FIELD_MAP t = Some f" "0 < n"
    and b: "b \<longleftrightarrow> (\<exists>p. find_key rp_userId k (pools s) = Some p \<and> n \<le> pool_get f p)"
    and s': "if b then s' = add_pool_log k PA_apply t (- n) (Some i) r (credit_pool k f (- n) s) else s' = s"
    using deduct_Inr [OF deduct(1) d] by blast
  show ?case
  proof (cases b)
    case True
    with b have "n \<le> pool_of s k f" by (auto simp: pool_of_def)
    with True s' f deduct(2) show ?thesis
      by (auto simp: pools_ok_def logged_add pool_of_credit distinct_credit_pool)
  qed (use s' deduct(2) in simp)
next
  case (note_redeem s' k t n i r s)
  then show ?case by (simp add: logSystemRedeemToInstance_def pools_ok_def logged_add)
next
  case (checkin x y now k s w s')
  obtain t v where r: "randomizeReward x y = (t, v)" by fastforce
  obtain f where "RESOURCE_FIELD_MAP t = Some f" "0 < v" using reward_range [OF checkin(1-4) r] by blast
  then show ?case using checkin(5,6) by (auto simp: checkin_eq [OF r] grant_ok)
qed (auto simp: adminGrantResource_def systemGrantResource_def lotteryGrantResource_def addToResourcePool_def
    grant_ok split: option.splits)

interpretation pool_runs: invariant_system pool_step pools_ok
  by unfold_locales (rule pool_step_ok)

lemma int_div_less:
  fixes x q d :: int
  assumes "0 < d"
  shows "x div d < q \<longleftrightarrow> x < q * d"
proof -
  have "q \<le> x div d \<longleftrightarrow> q * d \<le> x"
  proof
    assume "q \<le> x div d"
    then have "q * d \<le> x div d * d" using assms by (simp add: mult_right_mono)
    also have "\<dots> \<le> x" using assms minus_mod_eq_div_mult [of x d, symmetric] pos_mod_sign [of d x] by linarith
    finally show "q * d \<le> x" .
  next
    assume "q * d \<le> x"
    then have "q * d div d \<le> x div d" using assms by (rule zdiv_mono1)
    then show "q \<le> x div d" using assms by simp
  qed
  then show ?thesis by (simp add: not_le [symmetric])
qed

section \<open>Properties\<close>

text \<open>C29: The resource pool is never overspent and its log accounts for it: along any run of grants,
  check-ins, deductions and reads, every user's amount of every resource stays nonnegative and equals the
  sum of the logged changes.\<close>

theorem pool_never_overspent:
  assumes "pool_step\<^sup>*\<^sup>* s s'" "pools_ok s"
  shows "0 \<le> pool_of s' k f \<and> pool_of s' k f = logged_amount s' k f"
proof -
  have "pools_ok s'" using assms by (rule pool_runs.inv_run)
  then show ?thesis by (simp add: pools_ok_def)
qed

theorem pool_never_overspent_witness:
  "\<exists>s1 s2. adminGrantResource 4 CT_c 10 None empty_db = Inr ((), s1)
     \<and> deductFromResourcePool 4 CT_c 7 9 None s1 = Inr (True, s2) \<and> 0 \<le> pool_of s2 4 PF_cpu"
proof -
  have c: "case adminGrantResource 4 CT_c 10 None empty_db of Inl e \<Rightarrow> False
    | Inr (u, s1) \<Rightarrow> (case deductFromResourcePool 4 CT_c 7 9 None s1 of Inl e \<Rightarrow> False | Inr (b, s2) \<Rightarrow> b)"
    by code_simp
  then obtain s1 where r: "adminGrantResource 4 CT_c 10 None empty_db = Inr ((), s1)" by (auto split: sum.split_asm)
  with c obtain s2 where d: "deductFromResourcePool 4 CT_c 7 9 None s1 = Inr (True, s2)" by (auto split: sum.split_asm)
  have "pool_step\<^sup>*\<^sup>* empty_db s2"
    using pool_step.admin [OF _ r] pool_step.deduct [OF d] by (meson converse_rtranclp_into_rtranclp rtranclp.rtrancl_refl zero_le_numeral)
  moreover have "pools_ok empty_db" by (simp add: pools_ok_def empty_db_def pool_of_def logged_amount_def)
  ultimately have "0 \<le> pool_of s2 4 PF_cpu \<and> pool_of s2 4 PF_cpu = logged_amount s2 4 PF_cpu"
    by (rule pool_never_overspent)
  with r d show ?thesis by blast
qed

text \<open>A check-in pays a reward from the table and counts for the Beijing day: it credits the pool with
  the amount it reports, the user counts as checked in at every later moment before the next Beijing
  midnight and no longer after it.\<close>

theorem checkin_counts_for_the_day:
  assumes "performCheckin t0 x y k s = ((t, v), s')" "0 \<le> x" "x < 1" "0 \<le> y" "y < 1" "t0 \<le> t1"
  shows "v \<in> set (CODE_VALUES t) \<and> t \<noteq> CT_p
    \<and> pool_of s' k (the (RESOURCE_FIELD_MAP t)) = pool_of s k (the (RESOURCE_FIELD_MAP t)) + v
    \<and> (hasCheckedInToday t1 k s' \<longleftrightarrow> t1 < toBeijingMidnight t0 + beijing_day_ms)"
proof -
  obtain t' v' where r: "randomizeReward x y = (t', v')" by fastforce
  have e: "t' = t" "v' = v" and s': "s' = upsertCheckinStats k (\<lambda>c. c\<lparr>cs_lastCheckin := Some t0\<rparr>)
    (add_pool_log k PA_checkin t v None (Some R_checkin) (credit_pool k (the (RESOURCE_FIELD_MAP t)) v s))"
    using assms(1) by (auto simp: checkin_eq [OF r])
  have "hasCheckedInToday t1 k s' \<longleftrightarrow> toBeijingMidnight t0 \<ge> toBeijingMidnight t1"
    by (auto simp: s' hasCheckedInToday_def upsertCheckinStats_def getBeijingMidnight_def find_key_upsert
        new_stats_def split: option.split)
  also have "\<dots> \<longleftrightarrow> t1 < toBeijingMidnight t0 + beijing_day_ms"
  proof -
    define a where "a = (t0 + beijing_offset) div beijing_day_ms"
    define b where "b = (t1 + beijing_offset) div beijing_day_ms"
    have p: "0 < beijing_day_ms" by (simp add: beijing_day_ms_def)
    have "t1 < toBeijingMidnight t0 + beijing_day_ms \<longleftrightarrow> t1 + beijing_offset < (a + 1) * beijing_day_ms"
      by (simp add: toBeijingMidnight_def a_def algebra_simps)
    also have "\<dots> \<longleftrightarrow> b < a + 1" unfolding b_def by (rule int_div_less [OF p, symmetric])
    finally show ?thesis using p by (auto simp: toBeijingMidnight_def a_def b_def)
  qed
  finally show ?thesis
    using reward_range [OF assms(2-5) r] by (auto simp: e s' pool_of_credit)
qed

theorem checkin_counts_for_the_day_witness:
  "\<exists>t v s'. performCheckin 1000 (1 / 2) (3 / 4) 4 empty_db = ((t, v), s') \<and> hasCheckedInToday 2000 4 s'"
proof -
  obtain t v s' where r: "performCheckin 1000 (1 / 2) (3 / 4) 4 empty_db = ((t, v), s')" by (metis surj_pair)
  have "2000 < toBeijingMidnight 1000 + beijing_day_ms" by code_simp
  then show ?thesis using checkin_counts_for_the_day [OF r, of 2000] r by simp
qed

text \<open>The check-in itself does not ask whether the user has checked in: two requests that both passed the
  route's check before either wrote are both paid on the same day.\<close>

theorem repeated_checkin_pays_again:
  assumes "performCheckin t0 x y k s = ((t, v), s1)" "performCheckin t0 x y k s1 = ((t', v'), s2)"
    and "0 \<le> x" "x < 1" "0 \<le> y" "y < 1"
  shows "hasCheckedInToday t0 k s1 \<and> t' = t \<and> v' = v
    \<and> pool_of s2 k (the (RESOURCE_FIELD_MAP t)) = pool_of s k (the (RESOURCE_FIELD_MAP t)) + 2 * v \<and> 0 < v"
proof -
  obtain a b where r: "randomizeReward x y = (a, b)" by fastforce
  have e: "t = a" "v = b" "t' = a" "v' = b"
    and s1: "s1 = upsertCheckinStats k (\<lambda>c. c\<lparr>cs_lastCheckin := Some t0\<rparr>)
      (add_pool_log k PA_checkin a b None (Some R_checkin) (credit_pool k (the (RESOURCE_FIELD_MAP a)) b s))"
    and s2: "s2 = upsertCheckinStats k (\<lambda>c. c\<lparr>cs_lastCheckin := Some t0\<rparr>)
      (add_pool_log k PA_checkin a b None (Some R_checkin) (credit_pool k (the (RESOURCE_FIELD_MAP a)) b s1))"
    using assms(1,2) by (auto simp: checkin_eq [OF r])
  have "hasCheckedInToday t0 k s1"
    by (auto simp: s1 hasCheckedInToday_def upsertCheckinStats_def getBeijingMidnight_def find_key_upsert
        new_stats_def split: option.split)
  moreover have "pool_of s2 k (the (RESOURCE_FIELD_MAP a)) = pool_of s k (the (RESOURCE_FIELD_MAP a)) + 2 * b"
    by (simp add: s2 pool_of_credit) (simp add: s1 pool_of_credit)
  ultimately show ?thesis using reward_range [OF assms(3-6) r] by (simp add: e)
qed

theorem repeated_checkin_pays_again_witness:
  "\<exists>t v s1 s2. performCheckin 0 0 0 4 empty_db = ((t, v), s1) \<and> hasCheckedInToday 0 4 s1
     \<and> performCheckin 0 0 0 4 s1 = ((t, v), s2) \<and> 0 < v"
proof -
  obtain t v s1 where r1: "performCheckin 0 0 0 4 empty_db = ((t, v), s1)" by (metis surj_pair)
  obtain t' v' s2 where r2: "performCheckin 0 0 0 4 s1 = ((t', v'), s2)" by (metis surj_pair)
  from repeated_checkin_pays_again [OF r1 r2] r1 r2 show ?thesis by simp
qed

end
