(* ===== verification/RedeemCodes.thy ===== *)
theory RedeemCodes
  imports Database
begin

text \<open>
  Redeem codes of a host: \<open>server/src/db/redeem-codes.ts\<close>. The random text of a code is not kept (rows
  are identified by their id, which the caller supplies for a new row); uses have a serial id and a
  unique index on user and batch. \<open>useSystemRedeemCode\<close> retries while the code's lock is busy: what the
  lock says and the database the \<open>i\<close>-th attempt sees are arguments.
\<close>

section \<open>Operations\<close>

definition CODE_VALUE_RANGES :: "code_type \<Rightarrow> int \<times> int" where
  "CODE_VALUE_RANGES t =
     (case t of CT_c \<Rightarrow> (1, 100) | CT_r \<Rightarrow> (1, 65536) | CT_d \<Rightarrow> (1, 1048576)
      | CT_t \<Rightarrow> (1, 10240) | CT_p \<Rightarrow> (1, 100000))"

definition isValidCodeValue :: "code_type \<Rightarrow> rat \<Rightarrow> bool" where
  "isValidCodeValue codeType value \<longleftrightarrow>
     (let (lo, hi) = CODE_VALUE_RANGES codeType in
      is_integer value \<and> value \<ge> of_int lo \<and> value \<le> of_int hi)"

definition isSystemCode :: "string \<Rightarrow> bool" where
  "isSystemCode code \<longleftrightarrow> take 2 code = ''h-''"

record code_data =
  cd_hostId :: int
  cd_codeType :: code_type
  cd_codeValue :: int
  cd_maxUses :: "int option"
  cd_expiresAt :: "int option"
  cd_remark :: "string option"

definition new_code :: "int \<Rightarrow> code_data \<Rightarrow> int \<Rightarrow> string option \<Rightarrow> redeem_code" where
  "new_code newId data maxUses batchId =
     \<lparr>rc_id = newId, rc_hostId = cd_hostId data, rc_type = cd_codeType data, rc_value = cd_codeValue data,
      rc_maxUses = maxUses, rc_usedCount = 0, rc_expiresAt = cd_expiresAt data, rc_enabled = True,
      rc_remark = cd_remark data, rc_batchId = batchId\<rparr>"



definition hasUserUsedCode :: "int \<Rightarrow> int \<Rightarrow> db \<Rightarrow> bool" where
  "hasUserUsedCode redeemCodeId userId s \<longleftrightarrow>
     find_where (\<lambda>u. cu_codeId u = redeemCodeId \<and> cu_userId u = userId) (usages s) \<noteq> None"

definition hasUserUsedBatch :: "string \<Rightarrow> int \<Rightarrow> db \<Rightarrow> bool" where
  "hasUserUsedBatch batchId userId s \<longleftrightarrow>
     (let batchCodes = map rc_id (filter (\<lambda>c. rc_batchId c = Some batchId) (codes s)) in
      if length batchCodes = 0 then False
      else find_where (\<lambda>u. cu_codeId u \<in> set batchCodes \<and> cu_userId u = userId) (usages s) \<noteq> None)"

text \<open>\<open>redeemCodeUsage.create\<close>: the unique index ignores rows without a batch.\<close>

definition insert_usage :: "int \<Rightarrow> int \<Rightarrow> int \<Rightarrow> string option \<Rightarrow> db \<Rightarrow> (unit \<times> db) outcome" where
  "insert_usage redeemCodeId userId instanceId batchId s =
     (if batchId \<noteq> None \<and> find_where (\<lambda>u. cu_userId u = userId \<and> cu_batchId u = batchId) (usages s) \<noteq> None
      then Inl UniqueViolation
      else Inr ((), s\<lparr>usages := usages s @ [\<lparr>cu_id = usage_seq s, cu_codeId = redeemCodeId, cu_userId = userId,
             cu_instanceId = instanceId, cu_batchId = batchId\<rparr>], usage_seq := usage_seq s + 1\<rparr>))"

text \<open>\<open>if (batchId)\<close>: an absent or empty batch is false.\<close>

definition batch_set :: "string option \<Rightarrow> bool" where
  "batch_set b \<longleftrightarrow> b \<noteq> None \<and> b \<noteq> Some []"

text \<open>One attempt: \<open>None\<close> when the lock is busy.\<close>

definition use_attempt :: "bool \<Rightarrow> int \<Rightarrow> int \<Rightarrow> int \<Rightarrow> string option \<Rightarrow> db \<Rightarrow> (unit option \<times> db) outcome" where
  "use_attempt locked redeemCodeId userId instanceId batchId s =
     (if \<not> locked then Inr (None, s)
      else if find_where (\<lambda>u. cu_codeId u = redeemCodeId \<and> cu_userId u = userId) (usages s) \<noteq> None
      then Inl (Error ''REDEEM_CODE_ALREADY_USED_BY_USER'')
      else if batch_set batchId \<and> find_where (\<lambda>u. cu_userId u = userId \<and> cu_batchId u = batchId) (usages s) \<noteq> None
      then Inl (Error ''REDEEM_CODE_BATCH_LIMIT'')
      else
        let free = (\<lambda>c. rc_id c = redeemCodeId \<and> rc_usedCount c < rc_maxUses c);
            result = count_where free (codes s);
            s1 = s\<lparr>codes := update_where free (\<lambda>c. c\<lparr>rc_usedCount := rc_usedCount c + 1\<rparr>) (codes s)\<rparr> in
        if result = 0 then Inl (Error ''REDEEM_CODE_EXHAUSTED'')
        else case insert_usage redeemCodeId userId instanceId batchId s1 of
          Inl e \<Rightarrow> if e = UniqueViolation \<and> batch_set batchId then Inl (Error ''REDEEM_CODE_BATCH_LIMIT'') else Inl e
        | Inr (_, s2) \<Rightarrow> Inr (Some (), s2))"

definition LOCK_RETRY_LIMIT :: nat where
  "LOCK_RETRY_LIMIT = 10"

primrec use_loop ::
    "nat \<Rightarrow> nat \<Rightarrow> (nat \<Rightarrow> bool) \<Rightarrow> (nat \<Rightarrow> db) \<Rightarrow> int \<Rightarrow> int \<Rightarrow> int \<Rightarrow> string option \<Rightarrow> (unit \<times> db) outcome" where
  "use_loop 0 i locked dbs redeemCodeId userId instanceId batchId = Inl (Error ''REDEEM_CODE_BUSY'')"
| "use_loop (Suc left) i locked dbs redeemCodeId userId instanceId batchId =
     (case use_attempt (locked i) redeemCodeId userId instanceId batchId (dbs i) of
        Inl e \<Rightarrow> Inl e
      | Inr (Some _, s) \<Rightarrow> Inr ((), s)
      | Inr (None, s) \<Rightarrow> use_loop left (i + 1) locked dbs redeemCodeId userId instanceId batchId)"

definition useSystemRedeemCode where
  "useSystemRedeemCode locked dbs redeemCodeId userId instanceId batchId =
     use_loop LOCK_RETRY_LIMIT 0 locked dbs redeemCodeId userId instanceId batchId"

definition releaseSystemRedeemCode :: "int \<Rightarrow> int \<Rightarrow> int \<Rightarrow> db \<Rightarrow> db" where
  "releaseSystemRedeemCode redeemCodeId userId instanceId s =
     (case find_where (\<lambda>u. cu_codeId u = redeemCodeId \<and> cu_userId u = userId \<and> cu_instanceId u = instanceId) (usages s) of
        None \<Rightarrow> s
      | Some usage \<Rightarrow>
          s\<lparr>usages := delete_where (\<lambda>u. cu_id u = cu_id usage) (usages s),
            codes := update_where (\<lambda>c. rc_id c = redeemCodeId \<and> rc_usedCount c > 0)
              (\<lambda>c. c\<lparr>rc_usedCount := rc_usedCount c - 1\<rparr>) (codes s)\<rparr>)"






definition isInstanceBelongsToHost :: "int \<Rightarrow> int \<Rightarrow> db \<Rightarrow> bool" where
  "isInstanceBelongsToHost instanceId hostId s \<longleftrightarrow>
     find_where (\<lambda>i. i_id i = instanceId \<and> i_hostId i = hostId) (instances s) \<noteq> None"

section \<open>The books of the codes\<close>

abbreviation uses_of :: "int \<Rightarrow> code_usage list \<Rightarrow> nat" where
  "uses_of k us \<equiv> count_where (\<lambda>u. cu_codeId u = k) us"

text \<open>Every code's counter is the number of its uses, no user has two uses of one code or of one batch,
  ids are unique and below the sequence.\<close>

definition usages_ok :: "code_usage list \<Rightarrow> bool" where
  "usages_ok us \<longleftrightarrow> distinct (map (\<lambda>u. (cu_codeId u, cu_userId u)) us)
     \<and> distinct (map (\<lambda>u. (cu_userId u, cu_batchId u)) (filter (\<lambda>u. cu_batchId u \<noteq> None) us))"

definition codes_ok :: "db \<Rightarrow> bool" where
  "codes_ok s \<longleftrightarrow> distinct (map rc_id (codes s)) \<and> distinct (map cu_id (usages s))
     \<and> (\<forall>u\<in>set (usages s). cu_id u < usage_seq s \<and> cu_codeId u \<in> rc_id ` set (codes s))
     \<and> (\<forall>c\<in>set (codes s). rc_usedCount c = int (uses_of (rc_id c) (usages s)))
     \<and> usages_ok (usages s)"

lemma count_append [simp]: "count_where P (xs @ ys) = count_where P xs + count_where P ys"
  by (simp add: count_where_def)

lemma count_single [simp]: "count_where P [x] = (if P x then 1 else 0)"
  by (simp add: count_where_def)


lemma find_where_append:
  "find_where P (xs @ ys) = (case find_where P xs of None \<Rightarrow> find_where P ys | Some x \<Rightarrow> Some x)"
  by (induction xs) (auto simp: find_where_def)



text \<open>A successful attempt: what it found and what it wrote.\<close>

lemma use_attempt_Some:
  assumes "use_attempt locked k v i b s = Inr (Some u, s')" "distinct (map rc_id (codes s))"
  shows "\<exists>c. find_key rc_id k (codes s) = Some c \<and> rc_usedCount c < rc_maxUses c
    \<and> (\<forall>u\<in>set (usages s). \<not> (cu_codeId u = k \<and> cu_userId u = v))
    \<and> (b \<noteq> None \<longrightarrow> (\<forall>u\<in>set (usages s). \<not> (cu_userId u = v \<and> cu_batchId u = b)))
    \<and> s' = s\<lparr>codes := update_key rc_id k (\<lambda>c. c\<lparr>rc_usedCount := rc_usedCount c + 1\<rparr>) (codes s),
        usages := usages s @ [\<lparr>cu_id = usage_seq s, cu_codeId = k, cu_userId = v, cu_instanceId = i, cu_batchId = b\<rparr>],
        usage_seq := usage_seq s + 1\<rparr>"
proof -
  let ?P = "\<lambda>c. rc_id c = k \<and> rc_usedCount c < rc_maxUses c"
  let ?f = "\<lambda>c. c\<lparr>rc_usedCount := rc_usedCount c + 1\<rparr>"
  have A: "\<forall>u\<in>set (usages s). \<not> (cu_codeId u = k \<and> cu_userId u = v)" "count_where ?P (codes s) \<noteq> 0"
    "b \<noteq> None \<longrightarrow> (\<forall>u\<in>set (usages s). \<not> (cu_userId u = v \<and> cu_batchId u = b))"
    "s' = s\<lparr>codes := update_where ?P ?f (codes s),
        usages := usages s @ [\<lparr>cu_id = usage_seq s, cu_codeId = k, cu_userId = v, cu_instanceId = i, cu_batchId = b\<rparr>],
        usage_seq := usage_seq s + 1\<rparr>"
    using assms(1) by (auto simp: use_attempt_def insert_usage_def Let_def find_where_None
        split: if_splits sum.splits)
  then obtain c where c: "c \<in> set (codes s)" "?P c" by (auto simp: count_where_0)
  then have f: "find_key rc_id k (codes s) = Some c" using find_key_distinct [OF assms(2) c(1)] by simp
  have "update_where ?P ?f (codes s) = update_key rc_id k ?f (codes s)"
    unfolding update_key_def update_where_def
    by (rule map_cong [OF refl]) (use c f find_key_distinct [OF assms(2)] in fastforce)
  with A f c show ?thesis by auto
qed


lemma use_loop_ok:
  "use_loop n i locked dbs k v j b = Inr (u, s') \<Longrightarrow> \<exists>m. locked m \<and> use_attempt True k v j b (dbs m) = Inr (Some (), s')"
proof (induction n arbitrary: i)
  case (Suc n)
  show ?case
  proof (cases "locked i")
    case True
    have none: "use_attempt True k v j b (dbs i) \<noteq> Inr (None, s2)" for s2
      by (auto simp: use_attempt_def insert_usage_def Let_def split: sum.split)
    have "use_attempt True k v j b (dbs i) = Inr (Some (), s')"
    proof (cases "use_attempt True k v j b (dbs i)")
      case (Inr q)
      then obtain r s2 where q: "q = (r, s2)" by fastforce
      with Inr none have "r \<noteq> None" by auto
      with Inr q Suc.prems True show ?thesis by (auto split: option.split_asm)
    qed (use Suc.prems True in simp)
    with True show ?thesis by blast
  next
    case False
    with Suc show ?thesis by (auto simp: use_attempt_def)
  qed
qed simp



lemma new_code_simps [simp]: "rc_id (new_code i d m b) = i" "rc_usedCount (new_code i d m b) = 0"
  by (simp_all add: new_code_def)






section \<open>Properties\<close>


definition code_order :: "int option \<Rightarrow> code_data" where
  "code_order m = \<lparr>cd_hostId = 1, cd_codeType = CT_c, cd_codeValue = 5, cd_maxUses = m, cd_expiresAt = None,
     cd_remark = None\<rparr>"

definition two_codes :: db where
  "two_codes = empty_db\<lparr>codes := [new_code 1 (code_order None) 1 None, new_code 2 (code_order None) 2 None]\<rparr>"

lemma two_codes_ok: "codes_ok two_codes"
  by (simp add: codes_ok_def two_codes_def empty_db_def usages_ok_def count_where_def)



text \<open>A redemption either fails and leaves the database alone, or it found a free use: it succeeds at an
  attempt that held the lock, the code had been used less often than its maximum, the user had used neither
  the code nor its batch, and then the counter is one higher, still within the maximum, and exactly this use
  is recorded. When no attempt gets the lock the answer is that the code is busy.\<close>

theorem redemption_within_maximum:
  assumes "\<And>m. distinct (map rc_id (codes (dbs m)))"
  shows "(\<forall>s'. useSystemRedeemCode locked dbs k v i b = Inr ((), s') \<longrightarrow>
     (\<exists>m c. locked m \<and> find_key rc_id k (codes (dbs m)) = Some c \<and> \<not> hasUserUsedCode k v (dbs m)
        \<and> (\<exists>c'. find_key rc_id k (codes s') = Some c' \<and> rc_usedCount c' = rc_usedCount c + 1
             \<and> rc_usedCount c' \<le> rc_maxUses c')
        \<and> hasUserUsedCode k v s' \<and> length (usages s') = Suc (length (usages (dbs m)))))
   \<and> ((\<forall>m. \<not> locked m) \<longrightarrow> useSystemRedeemCode locked dbs k v i b = Inl (Error ''REDEEM_CODE_BUSY''))"
proof (intro conjI allI impI)
  fix s' assume "useSystemRedeemCode locked dbs k v i b = Inr ((), s')"
  then obtain m where m: "locked m" "use_attempt True k v i b (dbs m) = Inr (Some (), s')"
    unfolding useSystemRedeemCode_def using use_loop_ok by blast
  show "\<exists>m c. locked m \<and> find_key rc_id k (codes (dbs m)) = Some c \<and> \<not> hasUserUsedCode k v (dbs m)
        \<and> (\<exists>c'. find_key rc_id k (codes s') = Some c' \<and> rc_usedCount c' = rc_usedCount c + 1
             \<and> rc_usedCount c' \<le> rc_maxUses c')
        \<and> hasUserUsedCode k v s' \<and> length (usages s') = Suc (length (usages (dbs m)))"
    using use_attempt_Some [OF m(2) assms] m(1)
    by (intro exI [of _ m]) (auto simp: hasUserUsedCode_def find_where_None find_key_update_key)
next
  assume l: "\<forall>m. \<not> locked m"
  have "use_loop n j locked dbs k v i b = Inl (Error ''REDEEM_CODE_BUSY'')" for n j
    using l by (induction n arbitrary: j) (simp_all add: use_attempt_def)
  then show "useSystemRedeemCode locked dbs k v i b = Inl (Error ''REDEEM_CODE_BUSY'')"
    by (simp add: useSystemRedeemCode_def)
qed

theorem redemption_within_maximum_witness:
  "useSystemRedeemCode (\<lambda>_. False) (\<lambda>_. two_codes) 1 7 9 None = Inl (Error ''REDEEM_CODE_BUSY'')
   \<and> (\<exists>s'. useSystemRedeemCode (\<lambda>m. m = 1) (\<lambda>_. two_codes) 1 7 9 None = Inr ((), s') \<and> hasUserUsedCode 1 7 s')"
proof -
  have d: "distinct (map rc_id (codes two_codes))" by code_simp
  have "\<not> isl (useSystemRedeemCode (\<lambda>m. m = 1) (\<lambda>_. two_codes) 1 7 9 None)" by code_simp
  then obtain s' where "useSystemRedeemCode (\<lambda>m. m = 1) (\<lambda>_. two_codes) 1 7 9 None = Inr ((), s')"
    by (cases "useSystemRedeemCode (\<lambda>m. m = 1) (\<lambda>_. two_codes) 1 7 9 None") auto
  then show ?thesis
    using redemption_within_maximum [of "\<lambda>_. two_codes" "\<lambda>m. m = 1" 1 7 9 None]
      redemption_within_maximum [of "\<lambda>_. two_codes" "\<lambda>_. False" 1 7 9 None] d by blast
qed

text \<open>Releasing a redemption takes it back: after a successful redemption the release restores all
  codes and uses, so the user can redeem again.\<close>

theorem release_undoes_redemption:
  assumes "use_attempt True k v i b s = Inr (Some u, s')" "codes_ok s"
  shows "codes (releaseSystemRedeemCode k v i s') = codes s \<and> usages (releaseSystemRedeemCode k v i s') = usages s"
proof -
  have d: "distinct (map rc_id (codes s))" using assms(2) by (simp add: codes_ok_def)
  let ?u = "\<lparr>cu_id = usage_seq s, cu_codeId = k, cu_userId = v, cu_instanceId = i, cu_batchId = b\<rparr>"
  obtain c where c: "find_key rc_id k (codes s) = Some c"
    and n: "\<forall>u\<in>set (usages s). \<not> (cu_codeId u = k \<and> cu_userId u = v)"
    and s': "codes s' = update_key rc_id k (\<lambda>c. c\<lparr>rc_usedCount := rc_usedCount c + 1\<rparr>) (codes s)"
      "usages s' = usages s @ [?u]"
    using use_attempt_Some [OF assms(1) d] by auto
  have "find_where (\<lambda>u. cu_codeId u = k \<and> cu_userId u = v \<and> cu_instanceId u = i) (usages s) = None"
    using n by (auto simp: find_where_None)
  then have f: "find_where (\<lambda>u. cu_codeId u = k \<and> cu_userId u = v \<and> cu_instanceId u = i) (usages s') = Some ?u"
    by (simp add: s' find_where_append) (simp add: find_where_def)
  have ids: "\<forall>u\<in>set (usages s). cu_id u \<noteq> usage_seq s" using assms(2) by (auto simp: codes_ok_def)
  then have "delete_where (\<lambda>u. cu_id u = usage_seq s) (usages s') = usages s"
    by (simp add: s' delete_where_def filter_id_conv)
  moreover have "update_where (\<lambda>c. rc_id c = k \<and> rc_usedCount c > 0) (\<lambda>c. c\<lparr>rc_usedCount := rc_usedCount c - 1\<rparr>) (codes s')
    = codes s"
    unfolding s' update_where_def update_key_def map_map comp_def
    by (rule map_idI) (use assms(2) in \<open>auto simp: codes_ok_def\<close>)
  ultimately show ?thesis by (simp add: releaseSystemRedeemCode_def f)
qed

theorem release_undoes_redemption_witness:
  "\<exists>s'. use_attempt True 1 7 9 None two_codes = Inr (Some (), s')
     \<and> codes (releaseSystemRedeemCode 1 7 9 s') = codes two_codes"
proof -
  have "case use_attempt True 1 7 9 None two_codes of Inl e \<Rightarrow> False | Inr (r, s1) \<Rightarrow> r = Some ()" by code_simp
  then obtain s1 where r1: "use_attempt True 1 7 9 None two_codes = Inr (Some (), s1)" by (auto split: sum.split_asm)
  from release_undoes_redemption [OF r1 two_codes_ok] r1 show ?thesis by blast
qed

end
