(* ===== verification/Badges.thy ===== *)
theory Badges
  imports Points
begin

text \<open>
  Buying badges with points: the transactional part of \<open>server/src/db/badges.ts\<close>. The rows of the
  badge table are listed in display order; random numbers in [0, 1) and the conflicts the database
  reports are arguments. Only the owner, the badge and the source of an ownership are kept.
\<close>

section \<open>Operations\<close>

definition BADGE_RANDOM_DRAW_COST :: int where
  "BADGE_RANDOM_DRAW_COST = 500"

definition BADGE_SELECT_COST :: int where
  "BADGE_SELECT_COST = 1500"

definition active_badges :: "db \<Rightarrow> badge list" where
  "active_badges s = filter (\<lambda>b. bg_isActive b \<and> bg_seriesActive b) (badges s)"

definition selectRandomBadgeOrThrow :: "rat \<Rightarrow> db \<Rightarrow> badge outcome" where
  "selectRandomBadgeOrThrow random s =
     (let catalog = active_badges s in
      if length catalog = 0 then Inl (Error ''NO_BADGES_AVAILABLE'') else Inr (pick random catalog))"

definition createBadgeOwnership :: "int \<Rightarrow> string \<Rightarrow> string \<Rightarrow> db \<Rightarrow> badge_ownership \<times> db" where
  "createBadgeOwnership userId badgeId source s =
     (let o1 = \<lparr>bo_userId = userId, bo_badgeId = badgeId, bo_source = source\<rparr> in
      (o1, s\<lparr>badge_ownerships := badge_ownerships s @ [o1]\<rparr>))"

definition spend_row :: "int \<Rightarrow> user_points \<Rightarrow> user_points" where
  "spend_row amount p = p\<lparr>up_points := up_points p - amount, up_totalSpent := up_totalSpent p + amount\<rparr>"

text \<open>The result is whether the points sufficed, and the points held then.\<close>

definition spendBadgePoints :: "int \<Rightarrow> int \<Rightarrow> points_log_type \<Rightarrow> remark \<Rightarrow> db \<Rightarrow> (bool \<times> int) \<times> db" where
  "spendBadgePoints userId amount logType remark s =
     (let (_, s1) = ensure_points userId s;
          covered = (\<lambda>p. up_userId p = userId \<and> amount \<le> up_points p);
          count = count_where covered (points_accounts s1);
          s2 = s1\<lparr>points_accounts := update_where covered (spend_row amount) (points_accounts s1)\<rparr> in
      if count = 0
      then ((False, case find_key up_userId userId (points_accounts s2) of None \<Rightarrow> 0 | Some p \<Rightarrow> up_points p), s2)
      else
        let pointsAfter = (case find_key up_userId userId (points_accounts s2) of None \<Rightarrow> 0 | Some p \<Rightarrow> up_points p);
            pointsBefore = pointsAfter + amount in
        ((True, pointsAfter),
         add_points_log userId logType (- amount) pointsBefore pointsAfter None (Some remark) s2))"

definition badge_retries :: nat where
  "badge_retries = 5"

definition runBadgeTransaction ::
    "(nat \<Rightarrow> exn option) \<Rightarrow> (db \<Rightarrow> ('a \<times> db) outcome) \<Rightarrow> db \<Rightarrow> ('a \<times> db) outcome" where
  "runBadgeTransaction conflict handler s = retry_loop (badge_retries - 1) conflict handler 1 s"

record draw_result =
  dr_success :: bool
  dr_points :: int
  dr_ownerships :: "badge_ownership list"

definition random_draw_tx :: "rat \<Rightarrow> int \<Rightarrow> db \<Rightarrow> (draw_result \<times> db) outcome" where
  "random_draw_tx random userId s =
     (case selectRandomBadgeOrThrow random s of
        Inl e \<Rightarrow> Inl e
      | Inr selected \<Rightarrow>
          (let ((success, points), s1) = spendBadgePoints userId BADGE_RANDOM_DRAW_COST PL_badge_draw_spend
                 (R_badge_draw (bg_fullLabel selected)) s in
           if \<not> success then Inr (\<lparr>dr_success = False, dr_points = points, dr_ownerships = []\<rparr>, s1)
           else
             let (o1, s2) = createBadgeOwnership userId (bg_id selected) ''draw'' s1 in
             Inr (\<lparr>dr_success = True, dr_points = points, dr_ownerships = [o1]\<rparr>, s2)))"

definition performRandomBadgeDraw where
  "performRandomBadgeDraw conflict random userId s = runBadgeTransaction conflict (random_draw_tx random userId) s"

text \<open>The loop of a multiple draw, one random number per draw.\<close>

fun draw_loop :: "rat list \<Rightarrow> int \<Rightarrow> db \<Rightarrow> (badge_ownership list \<times> db) outcome" where
  "draw_loop [] userId s = Inr ([], s)"
| "draw_loop (r # rs) userId s =
     (case selectRandomBadgeOrThrow r s of
        Inl e \<Rightarrow> Inl e
      | Inr selected \<Rightarrow>
          (let (o1, s1) = createBadgeOwnership userId (bg_id selected) ''draw'' s in
           case draw_loop rs userId s1 of
             Inl e \<Rightarrow> Inl e
           | Inr (os, s2) \<Rightarrow> Inr (o1 # os, s2)))"

definition multi_draw_tx :: "rat list \<Rightarrow> int \<Rightarrow> int \<Rightarrow> db \<Rightarrow> (draw_result \<times> db) outcome" where
  "multi_draw_tx randoms userId drawCount s =
     (let totalCost = BADGE_RANDOM_DRAW_COST * drawCount;
          ((success, points), s1) = spendBadgePoints userId totalCost PL_badge_draw_spend (R_badge_multi drawCount) s in
      if \<not> success then Inr (\<lparr>dr_success = False, dr_points = points, dr_ownerships = []\<rparr>, s1)
      else case draw_loop (take (nat drawCount) randoms) userId s1 of
        Inl e \<Rightarrow> Inl e
      | Inr (os, s2) \<Rightarrow> Inr (\<lparr>dr_success = True, dr_points = points, dr_ownerships = os\<rparr>, s2))"

definition performRandomBadgeMultiDraw where
  "performRandomBadgeMultiDraw conflict randoms userId drawCount s =
     (if drawCount \<le> 0 then Inr (\<lparr>dr_success = False, dr_points = 0, dr_ownerships = []\<rparr>, s)
      else runBadgeTransaction conflict (multi_draw_tx randoms userId drawCount) s)"

definition select_tx :: "int \<Rightarrow> string \<Rightarrow> db \<Rightarrow> (draw_result \<times> db) outcome" where
  "select_tx userId badgeId s =
     (case find_key bg_id badgeId (active_badges s) of
        None \<Rightarrow> Inl (Error ''BADGE_NOT_FOUND'')
      | Some badge \<Rightarrow>
          (let ((success, points), s1) = spendBadgePoints userId BADGE_SELECT_COST PL_badge_select_spend
                 (R_badge_select (bg_fullLabel badge)) s in
           if \<not> success then Inr (\<lparr>dr_success = False, dr_points = points, dr_ownerships = []\<rparr>, s1)
           else
             let (o1, s2) = createBadgeOwnership userId (bg_id badge) ''select'' s1 in
             Inr (\<lparr>dr_success = True, dr_points = points, dr_ownerships = [o1]\<rparr>, s2)))"

definition performSelectBadge where
  "performSelectBadge conflict userId badgeId s = runBadgeTransaction conflict (select_tx userId badgeId) s"

section \<open>Lemmas\<close>

lemma badge_run_Inr: "runBadgeTransaction conflict handler s = Inr r \<Longrightarrow> handler s = Inr r"
  unfolding runBadgeTransaction_def by (rule retry_loop_Inr)

lemma spend_row_simps [simp]:
  "up_userId (spend_row n p) = up_userId p" "up_points (spend_row n p) = up_points p - n"
  by (simp_all add: spend_row_def)

text \<open>Paying: covered, and then one logged change of the account; or nothing but a new empty account.\<close>

lemma spend_cases:
  assumes "spendBadgePoints k n ty m s = ((ok, pts), s')" "points_inv s"
  shows "points_logged s s'" and "points_inv s'" and "badges s' = badges s"
    and "badge_ownerships s' = badge_ownerships s"
    and "ok \<longleftrightarrow> n \<le> points_of s k" and "pts = points_of s' k"
    and "points_of s' j = points_of s j - (if ok \<and> j = k then n else 0)"
proof -
  obtain p s1 where e: "ensure_points k s = (p, s1)" by (cases "ensure_points k s")
  have inv1: "points_inv s1" using ensure_pointsE(8) [OF e] assms(2) by blast
  then have d: "distinct (map up_userId (points_accounts s1))" by (simp add: points_inv_def points_wf_def)
  have f: "find_key up_userId k (points_accounts s1) = Some p" by (rule ensure_pointsE(1) [OF e])
  have frame: "badges s1 = badges s" "badge_ownerships s1 = badge_ownerships s"
    using e by (auto simp: ensure_points_def split: option.splits)
  let ?P = "\<lambda>p. up_userId p = k \<and> n \<le> up_points p"
  let ?s2 = "s1\<lparr>points_accounts := update_where ?P (spend_row n) (points_accounts s1)\<rparr>"
  have c: "count_where ?P (points_accounts s1) = (if n \<le> up_points p then 1 else 0)"
    by (simp add: count_key [OF d] f)
  have only: "r = p" if "r \<in> set (points_accounts s1)" "up_userId r = k" for r
    using find_key_distinct [OF d that(1)] f that(2) by simp
  have "points_logged s s' \<and> points_inv s' \<and> badges s' = badges s \<and> badge_ownerships s' = badge_ownerships s
    \<and> (ok \<longleftrightarrow> n \<le> points_of s k) \<and> pts = points_of s' k
    \<and> (\<forall>j. points_of s' j = points_of s j - (if ok \<and> j = k then n else 0))"
  proof (cases "n \<le> up_points p")
    case True
    have "update_where ?P (spend_row n) (points_accounts s1) = update_key up_userId k (spend_row n) (points_accounts s1)"
      unfolding update_where_def update_key_def using True only by (intro map_cong refl) auto
    then have s2: "?s2 = update_points k (spend_row n) s1" by (simp add: update_points_def)
    have "find_key up_userId k (points_accounts (update_points k (spend_row n) s1)) = Some (spend_row n p)"
      using f by (simp add: find_key_update_key)
    then have r: "ok" "pts = up_points p - n"
      and s': "s' = add_points_log k ty (- n) (up_points p) (up_points p - n) None (Some m) (update_points k (spend_row n) s1)"
      using assms(1) True by (auto simp: spendBadgePoints_def e Let_def c s2)
    have "points_logged s s' \<and> (points_inv s \<longrightarrow> points_inv s')"
      by (rule ensure_then_post [OF e, where f = "spend_row n"]) (simp_all add: s' spend_row_def books_ok_def)
    moreover have "badges s' = badges s" "badge_ownerships s' = badge_ownerships s"
      by (simp_all add: s' add_points_log_def update_points_def frame)
    moreover have "points_of s' j = points_of s j - (if j = k then n else 0)" for j
      using f by (simp add: s' points_of_update ensure_pointsE(3,4) [OF e])
    ultimately show ?thesis using r True assms(2) ensure_pointsE(3) [OF e] by simp
  next
    case False
    then have "update_where ?P (spend_row n) (points_accounts s1) = points_accounts s1"
      by (intro update_where_id) (use only in auto)
    then have "?s2 = s1" by simp
    then have r: "\<not> ok" "pts = up_points p" "s' = s1"
      using assms(1) False by (simp_all add: spendBadgePoints_def e Let_def c f)
    then show ?thesis
      using False inv1 frame ensure_logged [OF e] ensure_pointsE(3,4) [OF e] by simp
  qed
  then show "points_logged s s'" "points_inv s'" "badges s' = badges s" "badge_ownerships s' = badge_ownerships s"
    "ok \<longleftrightarrow> n \<le> points_of s k" "pts = points_of s' k"
    "points_of s' j = points_of s j - (if ok \<and> j = k then n else 0)"
    by blast+
qed

definition belongs :: "int \<Rightarrow> db \<Rightarrow> badge_ownership \<Rightarrow> bool" where
  "belongs k s w \<longleftrightarrow> bo_userId w = k \<and> bo_badgeId w \<in> bg_id ` set (active_badges s)"

lemma ownership_points [simp]:
  "points_of (s\<lparr>badge_ownerships := ws\<rparr>) j = points_of s j" "points_inv (s\<lparr>badge_ownerships := ws\<rparr>) = points_inv s"
  by (simp_all add: points_of_def points_inv_def points_wf_def)

lemma select_mem:
  "selectRandomBadgeOrThrow r s = Inr b \<Longrightarrow> 0 \<le> r \<Longrightarrow> r < 1 \<Longrightarrow> b \<in> set (active_badges s)"
  using pick_mem [of r "active_badges s"] by (auto simp: selectRandomBadgeOrThrow_def Let_def split: if_splits)

lemma draw_loop_Inr:
  "draw_loop rs k s = Inr (ws, s') \<Longrightarrow> \<forall>r\<in>set rs. 0 \<le> r \<and> r < 1 \<Longrightarrow>
   s' = s\<lparr>badge_ownerships := badge_ownerships s @ ws\<rparr> \<and> length ws = length rs \<and> (\<forall>w\<in>set ws. belongs k s w)"
proof (induction rs arbitrary: s ws s')
  case (Cons r rs)
  then obtain b where b: "selectRandomBadgeOrThrow r s = Inr b" by (auto split: sum.splits)
  let ?w = "\<lparr>bo_userId = k, bo_badgeId = bg_id b, bo_source = ''draw''\<rparr>"
  let ?s = "s\<lparr>badge_ownerships := badge_ownerships s @ [?w]\<rparr>"
  obtain vs where v: "draw_loop rs k ?s = Inr (vs, s')" "ws = ?w # vs"
    using Cons.prems(1) b by (auto simp: createBadgeOwnership_def Let_def split: sum.splits)
  have "s' = ?s\<lparr>badge_ownerships := badge_ownerships ?s @ vs\<rparr> \<and> length vs = length rs \<and> (\<forall>w\<in>set vs. belongs k ?s w)"
    using Cons.prems(2) by (intro Cons.IH [OF v(1)]) simp
  moreover have "belongs k s ?w" using select_mem [OF b] Cons.prems(2) by (simp add: belongs_def)
  ultimately show ?case using v(2) by (auto simp: belongs_def active_badges_def)
qed simp

lemma logged_ownerships: "points_logged s s' \<Longrightarrow> points_logged s (s'\<lparr>badge_ownerships := ws\<rparr>)"
  using points_logged_frame [of "s'\<lparr>badge_ownerships := ws\<rparr>" s'] points_logged_trans by simp

section \<open>Properties\<close>

text \<open>Badges are paid for: a multiple draw that succeeds takes exactly its price, which the user held,
  and gives as many badges as were drawn, each from the active catalogue and owned by the user; one the
  points do not cover gives nothing and takes nothing; no other user's points change, and every change is
  in the points log.\<close>

theorem badge_draws_paid:
  assumes "performRandomBadgeMultiDraw conflict rs k n s = Inr (r, s')" "points_inv s" "0 < n"
    and "length rs = nat n" "\<forall>x\<in>set rs. 0 \<le> x \<and> x < 1"
  shows "points_logged s s' \<and> points_inv s'
    \<and> (dr_success r \<longleftrightarrow> BADGE_RANDOM_DRAW_COST * n \<le> points_of s k)
    \<and> dr_points r = points_of s' k
    \<and> points_of s' k = points_of s k - (if dr_success r then BADGE_RANDOM_DRAW_COST * n else 0)
    \<and> badge_ownerships s' = badge_ownerships s @ dr_ownerships r
    \<and> length (dr_ownerships r) = (if dr_success r then nat n else 0)
    \<and> (\<forall>w\<in>set (dr_ownerships r). belongs k s w)"
proof -
  have tx: "multi_draw_tx rs k n s = Inr (r, s')"
    using assms(1,3) by (auto simp: performRandomBadgeMultiDraw_def dest: badge_run_Inr)
  obtain ok pts s1 where sp: "spendBadgePoints k (BADGE_RANDOM_DRAW_COST * n) PL_badge_draw_spend (R_badge_multi n) s
      = ((ok, pts), s1)" by (metis surj_pair)
  note S = spend_cases [OF sp assms(2)]
  have take: "take (nat n) rs = rs" using assms(4) by simp
  show ?thesis
  proof (cases ok)
    case False
    then have "r = \<lparr>dr_success = False, dr_points = pts, dr_ownerships = []\<rparr>" "s' = s1"
      using tx by (simp_all add: multi_draw_tx_def sp)
    then show ?thesis using S False by auto
  next
    case True
    then obtain ws where l: "draw_loop rs k s1 = Inr (ws, s')"
      and r: "r = \<lparr>dr_success = True, dr_points = pts, dr_ownerships = ws\<rparr>"
      using tx by (auto simp: multi_draw_tx_def sp take split: sum.splits)
    have L: "s' = s1\<lparr>badge_ownerships := badge_ownerships s1 @ ws\<rparr>" "length ws = length rs" "\<forall>w\<in>set ws. belongs k s1 w"
      using draw_loop_Inr [OF l assms(5)] by auto
    have "\<forall>w\<in>set ws. belongs k s w" using L(3) S(3) by (simp add: belongs_def active_badges_def)
    moreover have "points_logged s s'" unfolding L(1) by (rule logged_ownerships) (rule S(1))
    moreover have "points_inv s'" using S(2) by (simp add: L(1))
    moreover have "points_of s' k = points_of s k - BADGE_RANDOM_DRAW_COST * n" using S(7) [of k] True by (simp add: L(1))
    moreover have "pts = points_of s' k" using S(6) by (simp add: L(1))
    moreover have "badge_ownerships s' = badge_ownerships s @ ws" using S(4) by (simp add: L(1))
    ultimately show ?thesis using S(5) True r L(2) assms(4) by simp
  qed
qed

text \<open>A user with points, and two active badges.\<close>

definition badge_db :: "int \<Rightarrow> db" where
  "badge_db n = empty_db\<lparr>
     points_accounts := [\<lparr>up_userId = 1, up_points = n, up_totalEarned = n, up_totalSpent = 0,
       up_lastConvertedAt = None, up_convertedConsume = 0\<rparr>],
     badges := [\<lparr>bg_id = ''a'', bg_fullLabel = ''A'', bg_isActive = True, bg_seriesActive = True\<rparr>,
       \<lparr>bg_id = ''b'', bg_fullLabel = ''B'', bg_isActive = True, bg_seriesActive = True\<rparr>]\<rparr>"

lemma badge_db_inv: "points_inv (badge_db n)"
  by (simp add: points_inv_def points_wf_def badge_db_def books_ok_def)

theorem badge_draws_paid_witness:
  "\<exists>r s'. performRandomBadgeMultiDraw (\<lambda>_. None) [0, 1 / 2] 1 2 (badge_db 1200) = Inr (r, s')
     \<and> dr_success r \<and> points_of s' 1 = 200 \<and> length (dr_ownerships r) = 2"
proof -
  have "\<not> isl (performRandomBadgeMultiDraw (\<lambda>_. None) [0, 1 / 2] 1 2 (badge_db 1200))" by code_simp
  then obtain r s' where run: "performRandomBadgeMultiDraw (\<lambda>_. None) [0, 1 / 2] 1 2 (badge_db 1200) = Inr (r, s')"
    by (cases "performRandomBadgeMultiDraw (\<lambda>_. None) [0, 1 / 2] 1 2 (badge_db 1200)") auto
  have "points_of (badge_db 1200) 1 = 1200" by code_simp
  with badge_draws_paid [OF run badge_db_inv] run show ?thesis by (simp add: BADGE_RANDOM_DRAW_COST_def)
qed

end
