(* ===== verification/Lottery.thy ===== *)
theory Lottery
  imports Badges ResourcePool
begin

text \<open>
  Drawing prizes: \<open>server/src/db/lottery.ts\<close>. A draw is one transaction (repeatable read); the clock and
  the random numbers (\<open>random\<close> for the prize, in [0, 100), \<open>badgeRandom\<close> for a badge, in [0, 1)) are
  arguments. The transaction is the composition of its numbered steps.
\<close>

section \<open>Choosing a prize\<close>

definition in_stock :: "prize \<Rightarrow> bool" where
  "in_stock p \<longleftrightarrow> (case pz_remain p of None \<Rightarrow> True | Some n \<Rightarrow> n > 0)"

definition nothing_prize :: "prize list \<Rightarrow> prize option" where
  "nothing_prize ps = find_where (\<lambda>p. pz_type p = PZ_nothing) ps"

text \<open>The loop over all prizes, sold out ones included, with the cumulated probability.\<close>

fun select_loop :: "rat \<Rightarrow> rat \<Rightarrow> prize option \<Rightarrow> prize list \<Rightarrow> prize option" where
  "select_loop random cumulative nothing [] = nothing"
| "select_loop random cumulative nothing (p # ps) =
     (let c = cumulative + pz_probability p in
      if random < c
      then (if in_stock p then Some p
            else if nothing \<noteq> None then nothing
            else select_loop random c nothing ps)
      else select_loop random c nothing ps)"

definition weightedRandomSelect :: "rat \<Rightarrow> prize list \<Rightarrow> prize outcome" where
  "weightedRandomSelect random ps =
     (let nothing = nothing_prize ps;
          hasAvailable = (\<exists>p\<in>set ps. in_stock p) in
      if \<not> hasAvailable then Inl (Error ''NO_AVAILABLE_PRIZES'')
      else case select_loop random 0 nothing ps of
        Some p \<Rightarrow> Inr p
      | None \<Rightarrow> Inl (Failure M_prize_setup))"

section \<open>The steps of a draw\<close>

text \<open>Step 1: is the lottery open? Its row and its prizes, or the message of the refusal.\<close>

definition open_lottery :: "int \<Rightarrow> int \<Rightarrow> db \<Rightarrow> message + lottery \<times> prize list" where
  "open_lottery now lotteryId s =
     (case find_key lo_id lotteryId (lotteries s) of
        None \<Rightarrow> Inl M_lottery_missing
      | Some lottery \<Rightarrow>
          let ps = filter (\<lambda>p. pz_lotteryId p = lotteryId) (prizes s) in
          if \<not> lo_isActive lottery then Inl M_lottery_closed
          else if (case lo_startAt lottery of None \<Rightarrow> False | Some t \<Rightarrow> t > now) then Inl M_lottery_not_started
          else if (case lo_endAt lottery of None \<Rightarrow> False | Some t \<Rightarrow> t < now) then Inl M_lottery_ended
          else if length ps = 0 then Inl M_lottery_empty
          else Inr (lottery, ps))"

text \<open>Step 3: the points are taken.\<close>

definition charge :: "int \<Rightarrow> int \<Rightarrow> db \<Rightarrow> db" where
  "charge userId cost s = update_points userId
     (\<lambda>p. p\<lparr>up_points := up_points p - cost, up_totalSpent := up_totalSpent p + cost\<rparr>) s"

text \<open>Step 5: the stock of the chosen prize is lowered if some is left; if not, the consolation prize is
  given. \<open>None\<close> when there is none either.\<close>

definition take_stock :: "prize \<Rightarrow> prize list \<Rightarrow> db \<Rightarrow> prize option \<times> db" where
  "take_stock p ps s =
     (if pz_remain p = None then (Some p, s)
      else
        let left = (\<lambda>q. pz_id q = pz_id p \<and> (case pz_remain q of None \<Rightarrow> False | Some n \<Rightarrow> n > 0));
            count = count_where left (prizes s);
            s1 = s\<lparr>prizes := update_where left (\<lambda>q. q\<lparr>pz_remain := map_option (\<lambda>n. n - 1) (pz_remain q)\<rparr>) (prizes s)\<rparr> in
        if count = 0 then (nothing_prize ps, s1) else (Some p, s1))"

text \<open>Step 6: the prize is handed out. The result is the status and the name for the record and the badge.\<close>

definition resource_of :: "prize_type \<Rightarrow> code_type" where
  "resource_of t = (case t of PZ_cpu \<Rightarrow> CT_c | PZ_memory \<Rightarrow> CT_r | PZ_disk \<Rightarrow> CT_d | _ \<Rightarrow> CT_t)"

definition payout ::
    "rat \<Rightarrow> int \<Rightarrow> prize \<Rightarrow> db \<Rightarrow> ((record_status \<times> string \<times> badge_ownership option) \<times> db) outcome" where
  "payout badgeRandom userId p s =
     (if pz_type p = PZ_balance then
        let balanceAmount = of_int (pz_value p) / 100 in
        (case find_key u_id userId (users s) of
           None \<Rightarrow> Inr ((LR_delivered, pz_name p, None), s)
         | Some user \<Rightarrow>
             let balanceBefore = u_balance user;
                 balanceAfter = balanceBefore + balanceAmount;
                 s1 = put_balance userId balanceAfter s;
                 s2 = add_log (mk_log userId BL_gift balanceAmount balanceBefore balanceAfter None None None
                        (Some (R_draw_win (pz_name p)))) s1 in
             Inr ((LR_delivered, pz_name p, None), s2))
      else if pz_type p = PZ_points then
        Inr ((LR_delivered, pz_name p, None),
          update_points userId (\<lambda>a. a\<lparr>up_points := up_points a + pz_value p,
            up_totalEarned := up_totalEarned a + pz_value p\<rparr>) s)
      else if pz_type p = PZ_badge then
        (case selectRandomBadgeOrThrow badgeRandom s of
           Inl e \<Rightarrow> Inl e
         | Inr selectedBadge \<Rightarrow>
             let (o1, s1) = createBadgeOwnership userId (bg_id selectedBadge) ''lottery'' s in
             Inr ((LR_delivered, bg_fullLabel selectedBadge, Some o1), s1))
      else if pz_type p = PZ_instance then Inr ((LR_pending, pz_name p, None), s)
      else if pz_type p \<in> {PZ_cpu, PZ_memory, PZ_disk, PZ_traffic} then
        let resourceType = resource_of (pz_type p);
            field = the (RESOURCE_FIELD_MAP resourceType);
            s1 = credit_pool userId field (pz_value p) s;
            s2 = add_pool_log userId PA_lottery resourceType (pz_value p) None (Some (R_draw_win (pz_name p))) s1 in
        Inr ((LR_delivered, pz_name p, None), s2)
      else Inr ((LR_delivered, pz_name p, None), s))"

text \<open>Steps 7 and 8: the record and the entries of the points log.\<close>

definition add_record :: "lottery_record \<Rightarrow> db \<Rightarrow> db" where
  "add_record r s = s\<lparr>lottery_records := lottery_records s @ [r], record_seq := record_seq s + 1\<rparr>"

definition createLotteryRecord ::
    "int \<Rightarrow> int \<Rightarrow> int \<Rightarrow> prize_type \<Rightarrow> int \<Rightarrow> string \<Rightarrow> record_status \<Rightarrow> int \<Rightarrow> int option \<Rightarrow> db \<Rightarrow> lottery_record \<times> db" where
  "createLotteryRecord lotteryId prizeId userId prizeType prizeValue prizeName status pointsSpent deliveredAt s =
     (let r = \<lparr>lr_id = record_seq s, lr_lotteryId = lotteryId, lr_prizeId = prizeId, lr_userId = userId,
            lr_prizeType = prizeType, lr_prizeValue = prizeValue, lr_prizeName = prizeName, lr_status = status,
            lr_pointsSpent = pointsSpent, lr_deliveredAt = deliveredAt, lr_deliveredBy = None, lr_ticketId = None\<rparr> in
      (r, add_record r s))"

definition log_points_of_draw :: "int \<Rightarrow> lottery \<Rightarrow> prize \<Rightarrow> int \<Rightarrow> int \<Rightarrow> db \<Rightarrow> db" where
  "log_points_of_draw userId lottery p before recordId s =
     (let cost = lo_costPoints lottery;
          s1 = add_points_log userId PL_lottery_spend (- cost) before (before - cost) (Some recordId)
                 (Some (R_draw_spent (lo_name lottery))) s in
      if pz_type p = PZ_points
      then add_points_log userId PL_lottery_win (pz_value p) (before - cost) (before - cost + pz_value p)
             (Some recordId) (Some (R_draw_win (pz_name p))) s1
      else s1)"

record draw =
  dw_success :: bool
  dw_record :: "lottery_record option"
  dw_prize :: "prize option"
  dw_currentPoints :: "int option"
  dw_message :: "message option"

definition refused :: "message \<Rightarrow> draw" where
  "refused m = \<lparr>dw_success = False, dw_record = None, dw_prize = None, dw_currentPoints = None, dw_message = Some m\<rparr>"

text \<open>From the prize in hand to the end of the transaction.\<close>

definition finish_draw ::
    "int \<Rightarrow> rat \<Rightarrow> int \<Rightarrow> lottery \<Rightarrow> user_points \<Rightarrow> prize \<Rightarrow> db \<Rightarrow> (draw \<times> db) outcome" where
  "finish_draw now badgeRandom userId lottery userPoints p s =
     (case payout badgeRandom userId p s of
        Inl e \<Rightarrow> Inl e
      | Inr ((status, resolvedPrizeName, badge), s1) \<Rightarrow>
          let currentPoints = up_points userPoints - lo_costPoints lottery
                + (if pz_type p = PZ_points then pz_value p else 0);
              resolvedPrizeValue = (if pz_type p = PZ_badge then 0 else pz_value p);
              (r, s2) = createLotteryRecord (lo_id lottery) (pz_id p) userId (pz_type p) resolvedPrizeValue
                resolvedPrizeName status (lo_costPoints lottery)
                (if status = LR_delivered then Some now else None) s1;
              s3 = log_points_of_draw userId lottery p (up_points userPoints) (lr_id r) s2 in
          Inr (\<lparr>dw_success = True, dw_record = Some r,
                 dw_prize = Some (p\<lparr>pz_name := resolvedPrizeName, pz_value := resolvedPrizeValue\<rparr>),
                 dw_currentPoints = Some currentPoints, dw_message = None\<rparr>, s3))"

definition performDraw :: "int \<Rightarrow> rat \<Rightarrow> rat \<Rightarrow> int \<Rightarrow> int \<Rightarrow> db \<Rightarrow> (draw \<times> db) outcome" where
  "performDraw now random badgeRandom userId lotteryId s =
     (case open_lottery now lotteryId s of
        Inl m \<Rightarrow> Inr (refused m, s)
      | Inr (lottery, ps) \<Rightarrow>
          (let (userPoints, s1) = ensure_points userId s in
           if up_points userPoints < lo_costPoints lottery then Inr (refused M_points_too_low, s1)
           else
             let s2 = charge userId (lo_costPoints lottery) s1 in
             case weightedRandomSelect random ps of
               Inl e \<Rightarrow> Inl e
             | Inr selectedPrize \<Rightarrow>
                 (let prize = the (find_key pz_id (pz_id selectedPrize) ps) in
                  case take_stock prize ps s2 of
                    (None, s3) \<Rightarrow> Inr (refused M_lottery_out_of_stock, s3)
                  | (Some p, s3) \<Rightarrow> finish_draw now badgeRandom userId lottery userPoints p s3)))"

definition updateLotteryRecordStatus ::
    "int \<Rightarrow> int \<Rightarrow> record_status \<Rightarrow> int option \<Rightarrow> int option \<Rightarrow> db \<Rightarrow> (unit \<times> db) outcome" where
  "updateLotteryRecordStatus now k status deliveredBy ticketId s =
     (if find_key lr_id k (lottery_records s) = None then Inl RecordNotFound
      else Inr ((), s\<lparr>lottery_records := update_key lr_id k (\<lambda>r. r\<lparr>lr_status := status,
        lr_deliveredAt := (if status = LR_delivered \<or> status = LR_claimed then Some now else lr_deliveredAt r),
        lr_deliveredBy := (if deliveredBy = None then lr_deliveredBy r else deliveredBy),
        lr_ticketId := (if ticketId = None then lr_ticketId r else ticketId)\<rparr>) (lottery_records s)\<rparr>))"

section \<open>Lemmas on the choice\<close>

definition chances :: "prize list \<Rightarrow> rat" where
  "chances ps = (\<Sum>p\<leftarrow>ps. pz_probability p)"

lemma chances_simps [simp]: "chances [] = 0" "chances (p # ps) = pz_probability p + chances ps"
  "chances (xs @ ys) = chances xs + chances ys"
  by (simp_all add: chances_def)

lemma chances_nonneg: "\<forall>p\<in>set ps. 0 \<le> pz_probability p \<Longrightarrow> 0 \<le> chances ps"
  by (induction ps) auto

lemma select_loop_Some:
  "select_loop r c n ps = Some p \<Longrightarrow> (p \<in> set ps \<and> in_stock p) \<or> n = Some p"
  by (induction r c n ps rule: select_loop.induct) (auto simp: Let_def split: if_splits)

lemma select_loop_skip:
  "\<forall>p\<in>set xs. 0 \<le> pz_probability p \<Longrightarrow> c + chances xs \<le> r \<Longrightarrow>
   select_loop r c n (xs @ ys) = select_loop r (c + chances xs) n ys"
proof (induction xs arbitrary: c)
  case (Cons x xs)
  then have "0 \<le> chances xs" by (auto intro: chances_nonneg)
  then have "\<not> r < c + pz_probability x" using Cons.prems(2) by simp
  with Cons show ?case by (simp add: Let_def add.assoc)
qed simp

lemma nothing_prize_SomeD: "nothing_prize ps = Some n \<Longrightarrow> n \<in> set ps \<and> pz_type n = PZ_nothing"
  by (auto simp: nothing_prize_def dest: find_where_SomeD)

lemma select_Inr:
  assumes "weightedRandomSelect r ps = Inr p"
  shows "p \<in> set ps \<and> (in_stock p \<or> pz_type p = PZ_nothing)"
proof -
  have "select_loop r 0 (nothing_prize ps) ps = Some p"
    using assms by (auto simp: weightedRandomSelect_def Let_def split: if_splits option.splits)
  then show ?thesis using select_loop_Some nothing_prize_SomeD by blast
qed

lemma select_loop_only:
  assumes "n \<noteq> p" "p \<notin> set vs" shows "select_loop r c (Some n) vs \<noteq> Some p"
  using select_loop_Some [of r c "Some n" vs p] assms by auto

lemma select_loop_exact:
  "p \<notin> set ws \<Longrightarrow> p \<notin> set vs \<Longrightarrow> n \<noteq> p \<Longrightarrow> c \<le> r \<Longrightarrow> \<forall>q\<in>set ws. 0 \<le> pz_probability q \<Longrightarrow>
   select_loop r c (Some n) (ws @ p # vs) = Some p \<Longrightarrow>
   in_stock p \<and> c + chances ws \<le> r \<and> r < c + chances ws + pz_probability p"
proof (induction ws arbitrary: c)
  case Nil
  have "select_loop r d (Some n) vs \<noteq> Some p" for d using Nil.prems by (intro select_loop_only) auto
  with Nil.prems show ?case by (auto simp: Let_def split: if_splits)
next
  case (Cons x ws)
  have "x \<noteq> p" using Cons.prems(1) by auto
  with Cons.prems have "\<not> r < c + pz_probability x" by (auto simp: Let_def split: if_splits)
  with Cons.prems have s: "select_loop r (c + pz_probability x) (Some n) (ws @ p # vs) = Some p"
    and le: "c + pz_probability x \<le> r" by (simp_all add: Let_def)
  show ?case using Cons.IH [OF _ Cons.prems(2,3) le _ s] Cons.prems(1,5) by (simp add: add.assoc)
qed

section \<open>Lemmas on the steps\<close>

text \<open>What the later steps leave alone.\<close>

lemma draw_frames [simp]:
  "prizes (add_log e s) = prizes s" "lottery_records (add_log e s) = lottery_records s"
  "prizes (put_balance k b s) = prizes s" "lottery_records (put_balance k b s) = lottery_records s"
  "prizes (update_points k f s) = prizes s" "lottery_records (update_points k f s) = lottery_records s"
  "prizes (add_points_log k ty a b' c r m s) = prizes s"
  "lottery_records (add_points_log k ty a b' c r m s) = lottery_records s"
  "prizes (credit_pool k fl n s) = prizes s" "lottery_records (credit_pool k fl n s) = lottery_records s"
  "prizes (add_pool_log k pa ct n io m s) = prizes s" "lottery_records (add_pool_log k pa ct n io m s) = lottery_records s"
  "users (credit_pool k fl n s) = users s" "users (add_pool_log k pa ct n io m s) = users s"
  "balance_logs (credit_pool k fl n s) = balance_logs s" "balance_logs (add_pool_log k pa ct n io m s) = balance_logs s"
  "points_accounts (credit_pool k fl n s) = points_accounts s"
  "points_accounts (add_pool_log k pa ct n io m s) = points_accounts s"
  "points_logs (credit_pool k fl n s) = points_logs s" "points_logs (add_pool_log k pa ct n io m s) = points_logs s"
  by (simp_all add: add_log_def put_balance_def update_points_def add_points_log_def credit_pool_def add_pool_log_def)

lemma ensure_prizes:
  "ensure_points k s = (p, s1) \<Longrightarrow> prizes s1 = prizes s \<and> lottery_records s1 = lottery_records s"
  by (auto simp: ensure_points_def split: option.splits)

lemma payout_frame:
  assumes "payout br k p s = Inr (x, s1)"
  shows "prizes s1 = prizes s \<and> lottery_records s1 = lottery_records s \<and> points_logs s1 = points_logs s
    \<and> points_accounts s1 = (if pz_type p = PZ_points
        then update_key up_userId k (\<lambda>a. a\<lparr>up_points := up_points a + pz_value p,
          up_totalEarned := up_totalEarned a + pz_value p\<rparr>) (points_accounts s)
        else points_accounts s)"
  using assms
  by (cases "pz_type p")
     (auto simp: payout_def Let_def createBadgeOwnership_def split: option.split_asm sum.split_asm)


lemma take_stock_frame:
  assumes "take_stock p ps s = (q, s1)"
  shows "users s1 = users s" "balance_logs s1 = balance_logs s" "points_accounts s1 = points_accounts s"
    "points_logs s1 = points_logs s" "lottery_records s1 = lottery_records s"
  using assms by (auto simp: take_stock_def Let_def split: if_splits)

text \<open>A guarded update of one row of a table with a key.\<close>

lemma update_row_once:
  assumes "distinct (map key t)" "p \<in> set t"
  shows "update_where (\<lambda>q. key q = key p \<and> P q) f t = (if P p then update_key key (key p) (\<lambda>_. f p) t else t)"
  using assms
proof (induction t)
  case (Cons r t)
  show ?case
  proof (cases "key r = key p")
    case True
    with Cons.prems have "r = p" and "key p \<notin> key ` set t" by (auto simp: image_iff)
    moreover from this(2) have "update_where (\<lambda>q. key q = key p \<and> P q) f t = t"
      by (intro update_where_id) (metis imageI)
    ultimately show ?thesis by (simp add: update_key_notin)
  next
    case False
    with Cons show ?thesis by auto
  qed
qed simp

text \<open>Of the prizes of the lottery, one that was chosen is still there.\<close>

lemma take_stock_cases:
  assumes "take_stock p ps s = (q, s1)" "distinct (map pz_id (prizes s))" "p \<in> set (prizes s)"
    and "in_stock p \<or> pz_type p = PZ_nothing" "p \<in> set ps"
  obtains (unlimited) "q = Some p" "pz_remain p = None" "s1 = s"
    | (taken) n where "q = Some p" "pz_remain p = Some n" "0 < n"
        "prizes s1 = update_key pz_id (pz_id p) (\<lambda>_. p\<lparr>pz_remain := Some (n - 1)\<rparr>) (prizes s)"
    | (consolation) n where "q = Some n" "n \<in> set ps" "pz_type n = PZ_nothing" "prizes s1 = prizes s"
proof (cases "pz_remain p")
  case None
  with assms(1) that(1) show ?thesis by (simp add: take_stock_def)
next
  case (Some n)
  let ?P = "\<lambda>q. case pz_remain q of None \<Rightarrow> False | Some n \<Rightarrow> n > 0"
  let ?t = "update_where (\<lambda>q. pz_id q = pz_id p \<and> ?P q) (\<lambda>q. q\<lparr>pz_remain := map_option (\<lambda>n. n - 1) (pz_remain q)\<rparr>) (prizes s)"
  have c: "count_where (\<lambda>q. pz_id q = pz_id p \<and> ?P q) (prizes s) = (if 0 < n then 1 else 0)"
    by (simp add: count_key [OF assms(2)] find_key_distinct [OF assms(2,3)] Some)
  have t: "?t = (if 0 < n then update_key pz_id (pz_id p) (\<lambda>_. p\<lparr>pz_remain := Some (n - 1)\<rparr>) (prizes s) else prizes s)"
    by (simp add: update_row_once [OF assms(2,3)] Some)
  have ts: "take_stock p ps s = (if 0 < n then Some p else nothing_prize ps, s\<lparr>prizes := ?t\<rparr>)"
    by (simp add: take_stock_def Let_def c Some)
  show ?thesis
  proof (cases "0 < n")
    case True
    then show ?thesis using assms(1) ts t by (intro that(2) [OF _ Some True]) auto
  next
    case False
    then have "nothing_prize ps \<noteq> None"
      using assms(4,5) Some by (auto simp: in_stock_def nothing_prize_def find_where_None)
    then obtain m where m: "nothing_prize ps = Some m" by blast
    then show ?thesis
      using assms(1) ts t False nothing_prize_SomeD [OF m] by (intro that(3) [of m]) auto
  qed
qed

lemma open_lottery_Inr:
  assumes "open_lottery now l s = Inr (lot, ps)"
  shows "find_key lo_id l (lotteries s) = Some lot \<and> lo_id lot = l \<and> lo_isActive lot
    \<and> ps = filter (\<lambda>p. pz_lotteryId p = l) (prizes s)"
  using assms by (auto simp: open_lottery_def Let_def split: option.splits if_splits dest: find_key_SomeD)

text \<open>A draw that went through: its steps.\<close>

lemma performDrawE:
  assumes "performDraw now random br k l s = Inr (d, s')" "dw_success d"
  obtains lot ps a s1 p q s3 x s4 r where
    "open_lottery now l s = Inr (lot, ps)" "ensure_points k s = (a, s1)" "lo_costPoints lot \<le> up_points a"
    "weightedRandomSelect random ps = Inr p"
    "take_stock (the (find_key pz_id (pz_id p) ps)) ps (charge k (lo_costPoints lot) s1) = (Some q, s3)"
    "payout br k q s3 = Inr (x, s4)"
    "r = \<lparr>lr_id = record_seq s4, lr_lotteryId = l, lr_prizeId = pz_id q, lr_userId = k,
       lr_prizeType = pz_type q, lr_prizeValue = (if pz_type q = PZ_badge then 0 else pz_value q),
       lr_prizeName = fst (snd x), lr_status = fst x, lr_pointsSpent = lo_costPoints lot,
       lr_deliveredAt = (if fst x = LR_delivered then Some now else None), lr_deliveredBy = None, lr_ticketId = None\<rparr>"
    "s' = log_points_of_draw k lot q (up_points a) (lr_id r) (add_record r s4)"
    "dw_record d = Some r"
    "dw_currentPoints d = Some (up_points a - lo_costPoints lot + (if pz_type q = PZ_points then pz_value q else 0))"
proof -
  obtain lot ps where o: "open_lottery now l s = Inr (lot, ps)"
    using assms by (cases "open_lottery now l s") (auto simp: performDraw_def refused_def)
  have l: "lo_id lot = l" using o by (auto simp: open_lottery_def Let_def split: option.splits if_splits dest: find_key_SomeD)
  obtain a s1 where e: "ensure_points k s = (a, s1)" by (metis surj_pair)
  have c: "lo_costPoints lot \<le> up_points a"
    using assms o e by (auto simp: performDraw_def refused_def split: if_splits)
  obtain p where p: "weightedRandomSelect random ps = Inr p"
    using assms(1) o e c by (cases "weightedRandomSelect random ps") (auto simp: performDraw_def Let_def)
  obtain q' s3 where t: "take_stock (the (find_key pz_id (pz_id p) ps)) ps (charge k (lo_costPoints lot) s1) = (q', s3)"
    by (metis surj_pair)
  obtain q where q: "q' = Some q"
    using assms o e c p t by (cases q') (auto simp: performDraw_def Let_def refused_def)
  have f: "finish_draw now br k lot a q s3 = Inr (d, s')"
    using assms o e c p t q by (simp add: performDraw_def Let_def)
  obtain x s4 where y: "payout br k q s3 = Inr (x, s4)"
    using f by (cases "payout br k q s3") (auto simp: finish_draw_def)
  obtain st nm bd where x: "x = (st, nm, bd)" by (cases x)
  show thesis
    using f by (intro that [OF o e c p t [unfolded q] y refl])
      (auto simp: finish_draw_def y x Let_def createLotteryRecord_def l)
qed

text \<open>The prize in hand is one of the lottery's.\<close>

lemma chosen_prize:
  assumes "open_lottery now l s = Inr (lot, ps)" "weightedRandomSelect random ps = Inr p"
    and "distinct (map pz_id (prizes s))"
  shows "the (find_key pz_id (pz_id p) ps) = p" "p \<in> set (prizes s)" "p \<in> set ps"
    "in_stock p \<or> pz_type p = PZ_nothing"
proof -
  have ps: "ps = filter (\<lambda>p. pz_lotteryId p = l) (prizes s)" using open_lottery_Inr [OF assms(1)] by blast
  show m: "p \<in> set ps" "in_stock p \<or> pz_type p = PZ_nothing" using select_Inr [OF assms(2)] by auto
  then show "p \<in> set (prizes s)" by (simp add: ps)
  have "distinct (map pz_id ps)" using assms(3) by (simp add: ps distinct_map_filter)
  then show "the (find_key pz_id (pz_id p) ps) = p" using m by (simp add: find_key_distinct)
qed

section \<open>Properties\<close>

text \<open>The odds are the ones configured: with a consolation prize in the list and probabilities that are
  not negative, another prize that is in stock is drawn exactly by the random numbers of its own interval,
  whose length is its probability in percent, whether or not other prizes are sold out; a sold out prize
  is never drawn.\<close>

theorem prize_odds:
  assumes "nothing_prize (xs @ p # ys) = Some n" "distinct (xs @ p # ys)" "pz_type p \<noteq> PZ_nothing"
    and "\<forall>q\<in>set (xs @ p # ys). 0 \<le> pz_probability q" "0 \<le> random"
  shows "weightedRandomSelect random (xs @ p # ys) = Inr p \<longleftrightarrow>
    in_stock p \<and> chances xs \<le> random \<and> random < chances xs + pz_probability p"
proof
  have np: "n \<noteq> p" using nothing_prize_SomeD [OF assms(1)] assms(3) by auto
  { assume w: "weightedRandomSelect random (xs @ p # ys) = Inr p"
    have "select_loop random 0 (Some n) (xs @ p # ys) = Some p"
      using w assms(1) by (auto simp: weightedRandomSelect_def Let_def split: if_splits option.splits)
    from select_loop_exact [OF _ _ np assms(5) _ this] assms(2,4)
    show "in_stock p \<and> chances xs \<le> random \<and> random < chances xs + pz_probability p" by simp }
  { assume a: "in_stock p \<and> chances xs \<le> random \<and> random < chances xs + pz_probability p"
    have "select_loop random 0 (Some n) (xs @ p # ys) = Some p"
      using a assms(4) select_loop_skip [of xs 0 random "Some n" "p # ys"] by (simp add: Let_def)
    then show "weightedRandomSelect random (xs @ p # ys) = Inr p"
      using a assms(1) by (simp add: weightedRandomSelect_def Let_def) }
qed

text \<open>Two prizes and a consolation.\<close>

definition prize_row :: "int \<Rightarrow> prize_type \<Rightarrow> int \<Rightarrow> rat \<Rightarrow> int option \<Rightarrow> prize" where
  "prize_row k ty v c stock = \<lparr>pz_id = k, pz_lotteryId = 1, pz_name = ''p'', pz_type = ty, pz_value = v,
     pz_probability = c, pz_total = stock, pz_remain = stock, pz_instanceDesc = None\<rparr>"

theorem prize_odds_witness:
  "weightedRandomSelect 15 [prize_row 1 PZ_points 50 10 (Some 0), prize_row 2 PZ_balance 100 20 (Some 2),
     prize_row 3 PZ_nothing 0 70 None] = Inr (prize_row 2 PZ_balance 100 20 (Some 2))"
proof -
  let ?xs = "[prize_row 1 PZ_points 50 10 (Some 0)]" and ?p = "prize_row 2 PZ_balance 100 20 (Some 2)"
  let ?ys = "[prize_row 3 PZ_nothing 0 70 None]"
  have "nothing_prize (?xs @ ?p # ?ys) = Some (prize_row 3 PZ_nothing 0 70 None)"
    by (simp add: nothing_prize_def find_where_def prize_row_def)
  from prize_odds [OF this, of 15] show ?thesis by (simp add: prize_row_def in_stock_def)
qed

text \<open>A draw that was refused.\<close>

lemma performDraw_refused:
  assumes "performDraw now random br k l s = Inr (d, s')" "\<not> dw_success d" "distinct (map pz_id (prizes s))"
  shows "s' = s \<or> (\<exists>a. ensure_points k s = (a, s'))"
proof (cases "open_lottery now l s")
  case (Inl m)
  then show ?thesis using assms(1) by (simp add: performDraw_def)
next
  case (Inr x)
  then obtain lot ps where o: "open_lottery now l s = Inr (lot, ps)" by (metis surj_pair)
  obtain a s1 where e: "ensure_points k s = (a, s1)" by (metis surj_pair)
  show ?thesis
  proof (cases "up_points a < lo_costPoints lot")
    case True
    then show ?thesis using assms(1) o e by (simp add: performDraw_def)
  next
    case False
    then obtain p where p: "weightedRandomSelect random ps = Inr p"
      using assms(1) o e by (cases "weightedRandomSelect random ps") (auto simp: performDraw_def Let_def)
    note P = chosen_prize [OF o p assms(3)]
    obtain q s3 where t: "take_stock p ps (charge k (lo_costPoints lot) s1) = (q, s3)" by (metis surj_pair)
    have same: "prizes (charge k (lo_costPoints lot) s1) = prizes s"
      using ensure_prizes [OF e] by (simp add: charge_def)
    have "q \<noteq> None"
      by (rule take_stock_cases [OF t, unfolded same, OF assms(3) P(2,4,3)]) auto
    then obtain z where "q = Some z" by auto
    then have f: "finish_draw now br k lot a z s3 = Inr (d, s')"
      using assms(1) o e False p t P(1) by (simp add: performDraw_def Let_def)
    then have "dw_success d"
      by (auto simp: finish_draw_def Let_def createLotteryRecord_def split: sum.split_asm)
    with assms(2) show ?thesis by simp
  qed
qed



text \<open>A lottery with one balance prize left, and a user with points.\<close>

definition lottery_db :: "int \<Rightarrow> db" where
  "lottery_db n = (two_users 10 5)\<lparr>
     points_accounts := [\<lparr>up_userId = 1, up_points = n, up_totalEarned = n, up_totalSpent = 0,
       up_lastConvertedAt = None, up_convertedConsume = 0\<rparr>],
     lotteries := [\<lparr>lo_id = 1, lo_name = ''l'', lo_costPoints = 100, lo_isActive = True, lo_startAt = None,
       lo_endAt = None\<rparr>],
     prizes := [prize_row 1 PZ_points 50 10 (Some 0), prize_row 2 PZ_balance 100 20 (Some 1),
       prize_row 3 PZ_nothing 0 70 None]\<rparr>"




section \<open>Stock\<close>

text \<open>
  Of a prize with a limited quantity, what is left and what the records say was given add up to the quantity.
  The consolation prize is given without regard to its stock.
\<close>

definition given :: "db \<Rightarrow> int \<Rightarrow> nat" where
  "given s k = count_where (\<lambda>r. lr_prizeId r = k) (lottery_records s)"

definition stock_row_ok :: "db \<Rightarrow> prize \<Rightarrow> bool" where
  "stock_row_ok s p \<longleftrightarrow> (case (pz_total p, pz_remain p) of
     (Some t, Some n) \<Rightarrow> pz_type p = PZ_nothing \<or> (0 \<le> n \<and> n + int (given s (pz_id p)) = t)
   | (None, None) \<Rightarrow> True
   | _ \<Rightarrow> False)"

definition stock_ok :: "db \<Rightarrow> bool" where
  "stock_ok s \<longleftrightarrow> distinct (map pz_id (prizes s)) \<and> (\<forall>p\<in>set (prizes s). stock_row_ok s p)"

inductive lottery_step :: "db \<Rightarrow> db \<Rightarrow> bool" where
  draw_step: "performDraw now random br k l s = Inr (d, s') \<Longrightarrow> lottery_step s s'"
| status_step: "updateLotteryRecordStatus now k st by tk s = Inr (u, s') \<Longrightarrow> lottery_step s s'"

lemma given_map: "given s k = length (filter (\<lambda>i. i = k) (map lr_prizeId (lottery_records s)))"
  by (simp add: given_def count_where_def filter_map comp_def)

lemma given_append: "lottery_records s' = lottery_records s @ [r] \<Longrightarrow>
    given s' k = given s k + (if lr_prizeId r = k then 1 else 0)"
  by (simp add: given_def count_where_def)

lemma stock_row_frame:
  "given s' (pz_id p) = given s (pz_id p) \<Longrightarrow> stock_row_ok s' p = stock_row_ok s p"
  by (simp add: stock_row_ok_def split: option.split)

lemma stock_frame: "prizes s' = prizes s \<Longrightarrow> (\<And>k. given s' k = given s k) \<Longrightarrow> stock_ok s' = stock_ok s"
  using stock_row_frame [of s' _ s] by (auto simp: stock_ok_def)

lemma stock_after_draw:
  assumes t: "take_stock p ps s0 = (Some q, s3)" and s0: "prizes s0 = prizes s" and "stock_ok s"
    and p: "p \<in> set (prizes s)" "in_stock p \<or> pz_type p = PZ_nothing" "p \<in> set ps" and ps: "set ps \<subseteq> set (prizes s)"
    and s': "prizes s' = prizes s3" and G: "\<And>j. given s' j = given s j + (if pz_id q = j then 1 else 0)"
  shows "stock_ok s'"
proof -
  have dist: "distinct (map pz_id (prizes s))" and rows: "\<forall>p\<in>set (prizes s). stock_row_ok s p"
    using assms(3) by (auto simp: stock_ok_def)
  have same: "z = y" if "z \<in> set (prizes s)" "y \<in> set (prizes s)" "pz_id z = pz_id y" for z y
    using dist that by (simp add: distinct_map inj_on_def)
  have keep: "stock_row_ok s' z" if "z \<in> set (prizes s)" "pz_id z \<noteq> pz_id q" for z
    using bspec [OF rows that(1)] stock_row_frame [of s' z s] G [of "pz_id z"] that(2) by simp
  have unchanged: "stock_ok s'" if "prizes s3 = prizes s" "q \<in> set (prizes s)" "stock_row_ok s' q"
    using that dist keep same [OF _ that(2)] by (auto simp: stock_ok_def s')
  have d0: "distinct (map pz_id (prizes s0))" "p \<in> set (prizes s0)" using dist p(1) s0 by simp_all
  from t d0 p(2,3) show ?thesis
  proof (cases rule: take_stock_cases)
    case unlimited
    then have "stock_row_ok s' q" using bspec [OF rows p(1)] by (auto simp: stock_row_ok_def split: option.splits)
    then show ?thesis using unlimited p(1) s0 by (intro unchanged) auto
  next
    case (taken n)
    have "stock_row_ok s' (p\<lparr>pz_remain := Some (n - 1)\<rparr>)"
      using bspec [OF rows p(1)] taken(1-3) G [of "pz_id p"] by (auto simp: stock_row_ok_def split: option.splits)
    moreover have "stock_row_ok s' z" if "z \<in> set (prizes s)" "pz_id z \<noteq> pz_id p" for z
      using keep [OF that(1)] that(2) taken(1) by simp
    ultimately have "\<forall>z\<in>set (prizes s3). stock_row_ok s' z"
      unfolding taken(4) s0 by (auto elim!: set_update_keyE)
    moreover have "map pz_id (prizes s3) = map pz_id (prizes s)"
      unfolding taken(4) s0 update_key_def update_where_def by auto
    ultimately show ?thesis using dist by (simp add: stock_ok_def s')
  next
    case (consolation n)
    then have n: "q \<in> set (prizes s)" "pz_type q = PZ_nothing" using ps by auto
    then have "stock_row_ok s' q" using bspec [OF rows n(1)] by (auto simp: stock_row_ok_def split: option.splits)
    then show ?thesis using consolation(4) n(1) s0 by (intro unchanged) auto
  qed
qed

lemma draw_stock:
  assumes "performDraw now random br k l s = Inr (d, s')" "stock_ok s"
  shows "stock_ok s'"
proof (cases "dw_success d")
  case False
  have "prizes s' = prizes s \<and> lottery_records s' = lottery_records s"
    using performDraw_refused [OF assms(1) False] assms(2) ensure_prizes by (auto simp: stock_ok_def)
  then show ?thesis using stock_frame [of s' s] assms(2) by (simp add: given_def)
next
  case True
  have dist: "distinct (map pz_id (prizes s))" using assms(2) by (simp add: stock_ok_def)
  show ?thesis
  proof (rule performDrawE [OF assms(1) True])
    fix lot ps a s1 p q s3 x s4 r
    assume o: "open_lottery now l s = Inr (lot, ps)" and e: "ensure_points k s = (a, s1)"
      and w: "weightedRandomSelect random ps = Inr p"
      and t: "take_stock (the (find_key pz_id (pz_id p) ps)) ps (charge k (lo_costPoints lot) s1) = (Some q, s3)"
      and y: "payout br k q s3 = Inr (x, s4)"
      and r: "r = \<lparr>lr_id = record_seq s4, lr_lotteryId = l, lr_prizeId = pz_id q, lr_userId = k,
       lr_prizeType = pz_type q, lr_prizeValue = (if pz_type q = PZ_badge then 0 else pz_value q),
       lr_prizeName = fst (snd x), lr_status = fst x, lr_pointsSpent = lo_costPoints lot,
       lr_deliveredAt = (if fst x = LR_delivered then Some now else None), lr_deliveredBy = None, lr_ticketId = None\<rparr>"
      and s': "s' = log_points_of_draw k lot q (up_points a) (lr_id r) (add_record r s4)"
    note P = chosen_prize [OF o w dist]
    have s0: "prizes (charge k (lo_costPoints lot) s1) = prizes s" using ensure_prizes [OF e] by (simp add: charge_def)
    have same: "prizes s' = prizes s3"
      using payout_frame [OF y] by (simp add: s' log_points_of_draw_def Let_def add_record_def)
    have rec: "lottery_records s' = lottery_records s @ [r]"
      using payout_frame [OF y] take_stock_frame(5) [OF t] ensure_prizes [OF e]
      by (simp add: s' log_points_of_draw_def Let_def add_record_def charge_def)
    have "lr_prizeId r = pz_id q" by (simp add: r)
    then have G: "given s' j = given s j + (if pz_id q = j then 1 else 0)" for j
      using given_append [OF rec, of j] by simp
    have "set ps \<subseteq> set (prizes s)" using open_lottery_Inr [OF o] by auto
    from stock_after_draw [OF t [unfolded P(1)] s0 assms(2) P(2,4,3) this same G] show "stock_ok s'" .
  qed
qed

lemma lottery_step_ok: "lottery_step s s' \<Longrightarrow> stock_ok s \<Longrightarrow> stock_ok s'"
proof (induction rule: lottery_step.induct)
  case (draw_step now random br k l s d s')
  then show ?case by (rule draw_stock)
next
  case (status_step now k st by' tk s u s')
  then have s': "s' = s\<lparr>lottery_records := update_key lr_id k (\<lambda>r. r\<lparr>lr_status := st,
        lr_deliveredAt := (if st = LR_delivered \<or> st = LR_claimed then Some now else lr_deliveredAt r),
        lr_deliveredBy := (if by' = None then lr_deliveredBy r else by'),
        lr_ticketId := (if tk = None then lr_ticketId r else tk)\<rparr>) (lottery_records s)\<rparr>"
    by (auto simp: updateLotteryRecordStatus_def split: if_splits)
  have "map lr_prizeId (lottery_records s') = map lr_prizeId (lottery_records s)"
    unfolding s' by (simp add: map_update_key)
  then have "given s' j = given s j" for j by (simp add: given_map)
  moreover have "prizes s' = prizes s" by (simp add: s')
  ultimately show ?case using status_step.prems stock_frame [of s' s] by simp
qed

interpretation lottery_runs: invariant_system lottery_step stock_ok
  by unfold_locales (rule lottery_step_ok)

text \<open>C28: No prize is given more often than its quantity: after any run of draws and status changes, for every
  prize other than the consolation one with a limited quantity, what is left is not negative, and what is
  left and the records of the prize add up to the quantity.\<close>

theorem prizes_never_oversold:
  assumes "lottery_step\<^sup>*\<^sup>* s s'" "stock_ok s"
    and "p \<in> set (prizes s')" "pz_type p \<noteq> PZ_nothing" "pz_total p = Some t"
  shows "\<exists>n. pz_remain p = Some n \<and> 0 \<le> n \<and> n + int (given s' (pz_id p)) = t"
proof -
  have "stock_row_ok s' p" using lottery_runs.inv_run [OF assms(1,2)] assms(3) by (simp add: stock_ok_def)
  then show ?thesis using assms(4,5) by (auto simp: stock_row_ok_def split: option.splits)
qed

text \<open>Two draws of the same random number: the second finds the prize gone.\<close>

theorem prizes_never_oversold_witness:
  "\<exists>s'. lottery_step\<^sup>*\<^sup>* ((lottery_db 250)\<lparr>prizes := [prize_row 2 PZ_balance 100 20 (Some 1), prize_row 3 PZ_nothing 0 80 None]\<rparr>) s'
     \<and> prizes s' = [(prize_row 2 PZ_balance 100 20 (Some 1))\<lparr>pz_remain := Some 0\<rparr>, prize_row 3 PZ_nothing 0 80 None]
     \<and> length (lottery_records s') = 2 \<and> given s' 2 = 1"
proof -
  let ?s = "(lottery_db 250)\<lparr>prizes := [prize_row 2 PZ_balance 100 20 (Some 1), prize_row 3 PZ_nothing 0 80 None]\<rparr>"
  let ?d = "performDraw 0 15 0 1 1"
  let ?ps = "[(prize_row 2 PZ_balance 100 20 (Some 1))\<lparr>pz_remain := Some 0\<rparr>, prize_row 3 PZ_nothing 0 80 None]"
  have c: "(case ?d ?s of Inl e \<Rightarrow> False | Inr (d, s1) \<Rightarrow>
      (case ?d s1 of Inl e \<Rightarrow> False | Inr (d, s2) \<Rightarrow> prizes s2 = ?ps \<and> length (lottery_records s2) = 2))"
    by code_simp
  then obtain d1 s1 where d1: "?d ?s = Inr (d1, s1)"
    by (cases "?d ?s") auto
  from c obtain d2 s2 where d2: "?d s1 = Inr (d2, s2)" and s2: "prizes s2 = ?ps" "length (lottery_records s2) = 2"
    unfolding d1 by (cases "?d s1") auto
  note d = d1 d2
  have run: "lottery_step\<^sup>*\<^sup>* ?s s2"
    using draw_step [OF d(1)] draw_step [OF d(2)] by (meson converse_rtranclp_into_rtranclp rtranclp.rtrancl_refl)
  have "stock_ok ?s"
    by (simp add: stock_ok_def stock_row_ok_def given_def count_where_def lottery_db_def prize_row_def two_users_def empty_db_def)
  from prizes_never_oversold [OF run this, of "?ps ! 0" 1] have "given s2 2 = 1"
    by (simp add: s2 prize_row_def)
  then show ?thesis using run s2 by blast
qed

end
