(* ===== verification/Friendships.thy ===== *)
theory Friendships
  imports Database
begin

text \<open>
  Friend requests and friendships: \<open>server/src/db/friendships.ts\<close>. Rows are inserted in the order of their
  creation, so \<open>createdAt desc\<close> is the reverse of the table; the row that \<open>findFirst\<close> picks is the oldest.
  The foreign keys of the table guarantee the users of a row.
\<close>

section \<open>Operations\<close>

text \<open>The rows of two users, in either direction, and of one user.\<close>

definition between :: "int \<Rightarrow> int \<Rightarrow> friendship \<Rightarrow> bool" where
  "between a b r \<longleftrightarrow> (fr_userId r = a \<and> fr_friendId r = b) \<or> (fr_userId r = b \<and> fr_friendId r = a)"

definition involves :: "int \<Rightarrow> friendship \<Rightarrow> bool" where
  "involves a r \<longleftrightarrow> fr_userId r = a \<or> fr_friendId r = a"

text \<open>\<open>remark || null\<close>.\<close>

definition text_or_null :: "string option \<Rightarrow> string option" where
  "text_or_null t = (if t = Some [] then None else t)"

text \<open>\<open>friendship.create\<close> with the unique index on the pair of columns, and \<open>friendship.update\<close> of a row read
  before in the same call.\<close>

definition create_friendship :: "int \<Rightarrow> int \<Rightarrow> string option \<Rightarrow> db \<Rightarrow> (friendship \<times> db) outcome" where
  "create_friendship userId friendId remark s =
     (if \<exists>r\<in>set (friendships s). fr_userId r = userId \<and> fr_friendId r = friendId then Inl UniqueViolation
      else
        let r = \<lparr>fr_id = friendship_seq s, fr_userId = userId, fr_friendId = friendId, fr_status = FS_pending,
                 fr_remark = text_or_null remark, fr_acceptedAt = None, fr_rejectedAt = None\<rparr> in
        Inr (r, s\<lparr>friendships := friendships s @ [r], friendship_seq := friendship_seq s + 1\<rparr>))"

definition update_friendship :: "friendship \<Rightarrow> (friendship \<Rightarrow> friendship) \<Rightarrow> db \<Rightarrow> friendship \<times> db" where
  "update_friendship r f s = (f r, s\<lparr>friendships := update_key fr_id (fr_id r) f (friendships s)\<rparr>)"

text \<open>The request with its id, if the user is the one who may act on it and it is pending.\<close>

definition pending_request ::
    "(friendship \<Rightarrow> int) \<Rightarrow> int \<Rightarrow> int \<Rightarrow> db \<Rightarrow> friendship outcome" where
  "pending_request actor requestId userId s =
     (case find_key fr_id requestId (friendships s) of
        None \<Rightarrow> Inl (Error ''REQUEST_NOT_FOUND'')
      | Some request \<Rightarrow>
          if actor request \<noteq> userId then Inl (Error ''FORBIDDEN'')
          else if fr_status request \<noteq> FS_pending then Inl (Error ''REQUEST_NOT_PENDING'')
          else Inr request)"

definition acceptFriendRequest :: "int \<Rightarrow> int \<Rightarrow> int \<Rightarrow> db \<Rightarrow> (friendship \<times> db) outcome" where
  "acceptFriendRequest now requestId userId s =
     (case pending_request fr_friendId requestId userId s of
        Inl e \<Rightarrow> Inl e
      | Inr request \<Rightarrow> Inr (update_friendship request
          (\<lambda>r. r\<lparr>fr_status := FS_accepted, fr_acceptedAt := Some now\<rparr>) s))"

definition rejectFriendRequest :: "int \<Rightarrow> int \<Rightarrow> int \<Rightarrow> db \<Rightarrow> (friendship \<times> db) outcome" where
  "rejectFriendRequest now requestId userId s =
     (case pending_request fr_friendId requestId userId s of
        Inl e \<Rightarrow> Inl e
      | Inr request \<Rightarrow> Inr (update_friendship request
          (\<lambda>r. r\<lparr>fr_status := FS_rejected, fr_rejectedAt := Some now\<rparr>) s))"

definition cancelFriendRequest :: "int \<Rightarrow> int \<Rightarrow> db \<Rightarrow> (friendship \<times> db) outcome" where
  "cancelFriendRequest requestId userId s =
     (case pending_request fr_userId requestId userId s of
        Inl e \<Rightarrow> Inl e
      | Inr request \<Rightarrow> Inr (request, s\<lparr>friendships := delete_where (\<lambda>r. fr_id r = requestId) (friendships s)\<rparr>))"

definition sendFriendRequest :: "int \<Rightarrow> int \<Rightarrow> int \<Rightarrow> string option \<Rightarrow> db \<Rightarrow> (friendship \<times> db) outcome" where
  "sendFriendRequest now userId friendId remark s =
     (case find_where (between userId friendId) (friendships s) of
        None \<Rightarrow> create_friendship userId friendId remark s
      | Some existing \<Rightarrow>
          if fr_status existing = FS_accepted then Inl (Error ''ALREADY_FRIENDS'')
          else if fr_status existing = FS_pending
          then (if fr_userId existing = friendId \<and> fr_friendId existing = userId
                then acceptFriendRequest now (fr_id existing) userId s
                else Inl (Error ''REQUEST_PENDING''))
          else if fr_status existing = FS_rejected
          then Inr (update_friendship existing (\<lambda>r. r\<lparr>fr_status := FS_pending,
                 fr_remark := text_or_null remark, fr_rejectedAt := None\<rparr>) s)
          else create_friendship userId friendId remark s)"

definition removeFriend :: "int \<Rightarrow> int \<Rightarrow> db \<Rightarrow> (friendship \<times> db) outcome" where
  "removeFriend friendshipId userId s =
     (case find_key fr_id friendshipId (friendships s) of
        None \<Rightarrow> Inl (Error ''FRIENDSHIP_NOT_FOUND'')
      | Some friendship \<Rightarrow>
          if fr_userId friendship \<noteq> userId \<and> fr_friendId friendship \<noteq> userId then Inl (Error ''FORBIDDEN'')
          else Inr (update_friendship friendship (\<lambda>r. r\<lparr>fr_status := FS_removed\<rparr>) s))"

section \<open>Queries\<close>

definition areFriends :: "int \<Rightarrow> int \<Rightarrow> db \<Rightarrow> bool" where
  "areFriends a b s \<longleftrightarrow>
     find_where (\<lambda>r. fr_status r = FS_accepted \<and> between a b r) (friendships s) \<noteq> None"

text \<open>The other party of a row, as \<open>f.userId === userId ? f.friendId : f.userId\<close>.\<close>

definition other_party :: "int \<Rightarrow> friendship \<Rightarrow> int" where
  "other_party userId r = (if fr_userId r = userId then fr_friendId r else fr_userId r)"

definition accepted_rows :: "int \<Rightarrow> db \<Rightarrow> friendship list" where
  "accepted_rows userId s = filter (\<lambda>r. fr_status r = FS_accepted \<and> involves userId r) (friendships s)"


definition getPendingFriendRequests :: "int \<Rightarrow> db \<Rightarrow> friendship list" where
  "getPendingFriendRequests userId s =
     rev (filter (\<lambda>r. fr_friendId r = userId \<and> fr_status r = FS_pending) (friendships s))"

definition getSentFriendRequests :: "int \<Rightarrow> db \<Rightarrow> friendship list" where
  "getSentFriendRequests userId s =
     rev (filter (\<lambda>r. fr_userId r = userId \<and> fr_status r = FS_pending) (friendships s))"

record friend_info =
  fi_id :: int
  fi_friendshipId :: int
  fi_username :: string
  fi_email :: "string option"
  fi_status :: friendship_status
  fi_acceptedAt :: "int option"
  fi_initiatedByMe :: bool
  fi_hostCount :: nat
  fi_instanceCount :: nat

definition accepted_desc :: "friendship list \<Rightarrow> friendship list" where
  "accepted_desc rs = filter (\<lambda>r. fr_acceptedAt r = None) rs @
     sort_key (\<lambda>r. - the (fr_acceptedAt r)) (filter (\<lambda>r. fr_acceptedAt r \<noteq> None) rs)"

definition getFriendList :: "int \<Rightarrow> db \<Rightarrow> friend_info list" where
  "getFriendList userId s =
     map (\<lambda>r. let friendUser = the (find_key u_id (other_party userId r) (users s)) in
        \<lparr>fi_id = u_id friendUser, fi_friendshipId = fr_id r, fi_username = u_username friendUser,
         fi_email = u_email friendUser, fi_status = fr_status r, fi_acceptedAt = fr_acceptedAt r,
         fi_initiatedByMe = (fr_userId r = userId),
         fi_hostCount = count_where (\<lambda>h. h_userId h = u_id friendUser) (hosts s),
         fi_instanceCount = count_where (\<lambda>i. i_userId i = u_id friendUser \<and> i_status i \<noteq> IS_deleted) (instances s)\<rparr>)
       (accepted_desc (accepted_rows userId s))"

definition getRequestHistory :: "int \<Rightarrow> friendship_status option \<Rightarrow> db \<Rightarrow> friendship list" where
  "getRequestHistory userId status s =
     rev (filter (\<lambda>r. (case status of None \<Rightarrow> fr_status r \<noteq> FS_pending | Some st \<Rightarrow> fr_status r = st)
        \<and> involves userId r) (friendships s))"

text \<open>Finding the user to ask: names are compared without regard to case, the asker is left out.\<close>

definition searchUserByUsername :: "(string \<Rightarrow> string) \<Rightarrow> string \<Rightarrow> int \<Rightarrow> db \<Rightarrow> user option" where
  "searchUserByUsername lower username excludeUserId s =
     find_where (\<lambda>u. lower (u_username u) = lower username \<and> u_id u \<noteq> excludeUserId \<and> u_status u = U_active) (users s)"

section \<open>Steps\<close>

text \<open>A request goes to another user: the search for the recipient leaves the sender out.\<close>

inductive friend_step :: "db \<Rightarrow> db \<Rightarrow> bool" where
  send: "sendFriendRequest now a b m s = Inr (r, s') \<Longrightarrow> a \<noteq> b \<Longrightarrow> friend_step s s'"
| accept: "acceptFriendRequest now k a s = Inr (r, s') \<Longrightarrow> friend_step s s'"
| reject: "rejectFriendRequest now k a s = Inr (r, s') \<Longrightarrow> friend_step s s'"
| cancel: "cancelFriendRequest k a s = Inr (r, s') \<Longrightarrow> friend_step s s'"
| remove: "removeFriend k a s = Inr (r, s') \<Longrightarrow> friend_step s s'"

section \<open>The invariant\<close>

text \<open>
  Of two users there is at most one row per direction, and at most one that is not removed.
\<close>

definition same_pair :: "friendship \<Rightarrow> friendship \<Rightarrow> bool" where
  "same_pair r q \<longleftrightarrow> between (fr_userId r) (fr_friendId r) q"

definition friendships_ok :: "db \<Rightarrow> bool" where
  "friendships_ok s \<longleftrightarrow>
     distinct (map fr_id (friendships s))
   \<and> (\<forall>r\<in>set (friendships s). fr_id r < friendship_seq s \<and> fr_userId r \<noteq> fr_friendId r
        \<and> (fr_status r = FS_accepted \<longrightarrow> fr_acceptedAt r \<noteq> None))
   \<and> distinct (map (\<lambda>r. (fr_userId r, fr_friendId r)) (friendships s))
   \<and> (\<forall>r\<in>set (friendships s). \<forall>q\<in>set (friendships s).
        same_pair r q \<longrightarrow> fr_status r \<noteq> FS_removed \<longrightarrow> fr_status q \<noteq> FS_removed \<longrightarrow> r = q)"


lemma friend_row:
  assumes "friendships_ok s" "find_key fr_id k (friendships s) = Some r"
  shows "r \<in> set (friendships s)" "fr_id r = k"
  using find_key_SomeD [OF assms(2)] by auto

lemma row_by_id:
  "friendships_ok s \<Longrightarrow> r \<in> set (friendships s) \<Longrightarrow> q \<in> set (friendships s) \<Longrightarrow> fr_id r = fr_id q \<Longrightarrow> r = q"
  by (simp add: friendships_ok_def distinct_map inj_on_def)

text \<open>Changing the state of a row that is not removed, or to removed, keeps the invariant.\<close>

lemma update_friendship_ok:
  assumes ok: "friendships_ok s" and r: "r \<in> set (friendships s)"
    and f: "\<And>q. fr_id (f q) = fr_id q" "\<And>q. fr_userId (f q) = fr_userId q" "\<And>q. fr_friendId (f q) = fr_friendId q"
    and live: "fr_status (f r) \<noteq> FS_removed \<longrightarrow> fr_status r \<noteq> FS_removed"
    and acc: "fr_status (f r) = FS_accepted \<longrightarrow> fr_acceptedAt (f r) \<noteq> None"
  shows "friendships_ok (snd (update_friendship r f s))"
proof -
  let ?t = "update_key fr_id (fr_id r) f (friendships s)"
  have row: "\<exists>q\<in>set (friendships s). fr_id q = fr_id z \<and> fr_userId q = fr_userId z \<and> fr_friendId q = fr_friendId z
      \<and> (fr_status z \<noteq> FS_removed \<longrightarrow> fr_status q \<noteq> FS_removed)
      \<and> (fr_status z = FS_accepted \<longrightarrow> fr_acceptedAt z \<noteq> None) \<and> z = (if q = r then f q else q)"
    if "z \<in> set ?t" for z
  proof -
    from that obtain q where q: "q \<in> set (friendships s)" "z = (if fr_id q = fr_id r then f q else q)"
      by (rule set_update_keyE)
    then have "fr_id q = fr_id r \<longleftrightarrow> q = r" using row_by_id [OF ok q(1) r] by auto
    moreover have "fr_status q = FS_accepted \<longrightarrow> fr_acceptedAt q \<noteq> None" using ok q(1) by (auto simp: friendships_ok_def)
    ultimately show ?thesis using q f live acc by (intro bexI [of _ q]) auto
  qed
  have "distinct (map fr_id ?t)" "distinct (map (\<lambda>r. (fr_userId r, fr_friendId r)) ?t)"
    using ok f by (simp_all add: friendships_ok_def map_update_key)
  moreover have "\<forall>z\<in>set ?t. fr_id z < friendship_seq s \<and> fr_userId z \<noteq> fr_friendId z
      \<and> (fr_status z = FS_accepted \<longrightarrow> fr_acceptedAt z \<noteq> None)"
    using ok row unfolding friendships_ok_def by metis
  moreover have "y = z" if yz: "y \<in> set ?t" "z \<in> set ?t" "same_pair y z" "fr_status y \<noteq> FS_removed" "fr_status z \<noteq> FS_removed" for y z
  proof -
    obtain q where q: "q \<in> set (friendships s)" "fr_userId q = fr_userId y" "fr_friendId q = fr_friendId y"
      "fr_status q \<noteq> FS_removed" "y = (if q = r then f q else q)" using row [OF yz(1)] yz(4) by blast
    obtain w where w: "w \<in> set (friendships s)" "fr_userId w = fr_userId z" "fr_friendId w = fr_friendId z"
      "fr_status w \<noteq> FS_removed" "z = (if w = r then f w else w)" using row [OF yz(2)] yz(5) by blast
    have "same_pair q w" using yz(3) q(2,3) w(2,3) by (simp add: same_pair_def between_def)
    then have "q = w" using ok q(1,4) w(1,4) unfolding friendships_ok_def by blast
    then show ?thesis using q(5) w(5) by simp
  qed
  ultimately show ?thesis by (auto simp: friendships_ok_def update_friendship_def)
qed

text \<open>A new row is only made when the oldest row of the two, if any, is removed; the unique index then leaves
  no other row of the two.\<close>

lemma create_friendship_ok:
  assumes "create_friendship a b m s = Inr (r, s')" "friendships_ok s" "a \<noteq> b"
    and old: "\<And>q. find_where (between a b) (friendships s) = Some q \<Longrightarrow> fr_status q = FS_removed"
  shows "friendships_ok s'"
proof -
  have new: "\<forall>q\<in>set (friendships s). \<not> (fr_userId q = a \<and> fr_friendId q = b)"
    and r: "fr_id r = friendship_seq s" "fr_userId r = a" "fr_friendId r = b" "fr_status r = FS_pending"
    and s': "friendships s' = friendships s @ [r]" "friendship_seq s' = friendship_seq s + 1"
    using assms(1) by (auto simp: create_friendship_def Let_def split: if_splits)
  have gone: "fr_status q = FS_removed" if q: "q \<in> set (friendships s)" "between a b q" for q
  proof -
    obtain p where p: "find_where (between a b) (friendships s) = Some p"
      using q by (cases "find_where (between a b) (friendships s)") (auto simp: find_where_None)
    have "p \<in> set (friendships s)" "between a b p" using find_where_SomeD [OF p] by auto
    then have "fr_userId p = fr_userId q \<and> fr_friendId p = fr_friendId q"
      using new q by (auto simp: between_def)
    then have "p = q" using assms(2) q(1) \<open>p \<in> _\<close> by (simp add: friendships_ok_def distinct_map inj_on_def)
    then show ?thesis using old [OF p] by simp
  qed
  have sp: "fr_status q = FS_removed" if "q \<in> set (friendships s)" "same_pair r q \<or> same_pair q r" for q
    using gone [OF that(1)] that(2) r by (auto simp: same_pair_def between_def)
  have "fr_id q \<noteq> friendship_seq s" if "q \<in> set (friendships s)" for q
    using assms(2) that by (auto simp: friendships_ok_def)
  moreover have "distinct (map (\<lambda>r. (fr_userId r, fr_friendId r)) (friendships s'))"
    using assms(2) new r by (auto simp: friendships_ok_def s')
  ultimately show ?thesis
    using assms(2,3) sp r unfolding friendships_ok_def s' by (auto simp: image_iff)
qed

lemma delete_friendship_ok:
  "friendships_ok s \<Longrightarrow> friendships_ok (s\<lparr>friendships := delete_where P (friendships s)\<rparr>)"
  by (auto simp: friendships_ok_def delete_where_def distinct_map_filter)

lemma pending_requestE:
  assumes "pending_request actor k a s = Inr r"
  shows "find_key fr_id k (friendships s) = Some r \<and> actor r = a \<and> fr_status r = FS_pending"
  using assms by (auto simp: pending_request_def split: option.splits if_splits)

lemma accept_ok:
  assumes "acceptFriendRequest now k a s = Inr (r, s')" "friendships_ok s"
  shows "friendships_ok s'"
proof -
  obtain q where q: "pending_request fr_friendId k a s = Inr q"
    using assms(1) by (auto simp: acceptFriendRequest_def split: sum.splits)
  note p = pending_requestE [OF q]
  have "friendships_ok (snd (update_friendship q (\<lambda>r. r\<lparr>fr_status := FS_accepted, fr_acceptedAt := Some now\<rparr>) s))"
    using p friend_row(1) [OF assms(2)] by (intro update_friendship_ok assms(2)) auto
  then show ?thesis using assms(1) q by (auto simp: acceptFriendRequest_def)
qed

lemma friend_step_ok: "friend_step s s' \<Longrightarrow> friendships_ok s \<Longrightarrow> friendships_ok s'"
proof (induction rule: friend_step.induct)
  case (accept now k a s r s')
  then show ?case by (rule accept_ok)
next
  case (reject now k a s r s')
  then obtain q where q: "pending_request fr_friendId k a s = Inr q"
    by (auto simp: rejectFriendRequest_def split: sum.splits)
  have "friendships_ok (snd (update_friendship q (\<lambda>r. r\<lparr>fr_status := FS_rejected, fr_rejectedAt := Some now\<rparr>) s))"
    using pending_requestE [OF q] friend_row(1) [OF reject.prems] by (intro update_friendship_ok reject.prems) auto
  then show ?case using reject.hyps q by (auto simp: rejectFriendRequest_def)
next
  case (cancel k a s r s')
  then show ?case by (auto simp: cancelFriendRequest_def delete_friendship_ok split: sum.splits)
next
  case (remove k a s r s')
  then obtain q where q: "find_key fr_id k (friendships s) = Some q"
    by (auto simp: removeFriend_def split: option.splits)
  have "friendships_ok (snd (update_friendship q (\<lambda>r. r\<lparr>fr_status := FS_removed\<rparr>) s))"
    using friend_row(1) [OF remove.prems q] by (intro update_friendship_ok remove.prems) auto
  then show ?case using remove.hyps q by (auto simp: removeFriend_def split: if_splits)
next
  case (send now a b m s r s')
  show ?case
  proof (cases "find_where (between a b) (friendships s)")
    case None
    then have "create_friendship a b m s = Inr (r, s')" using send.hyps(1) by (simp add: sendFriendRequest_def)
    then show ?thesis using send.prems send.hyps(2) by (rule create_friendship_ok) (use None in simp)
  next
    case (Some q)
    have q: "q \<in> set (friendships s)" using find_where_SomeD [OF Some] by simp
    show ?thesis
    proof (cases "fr_status q")
      case FS_pending
      then have "acceptFriendRequest now (fr_id q) a s = Inr (r, s')"
        using send.hyps Some by (auto simp: sendFriendRequest_def split: if_splits)
      then show ?thesis using send.prems by (rule accept_ok)
    next
      case FS_accepted
      then show ?thesis using send.hyps Some by (simp add: sendFriendRequest_def)
    next
      case FS_rejected
      have "friendships_ok (snd (update_friendship q (\<lambda>r. r\<lparr>fr_status := FS_pending,
          fr_remark := text_or_null m, fr_rejectedAt := None\<rparr>) s))"
        using q FS_rejected by (intro update_friendship_ok send.prems) auto
      then show ?thesis using send.hyps Some FS_rejected by (auto simp: sendFriendRequest_def)
    next
      case FS_removed
      then have "create_friendship a b m s = Inr (r, s')" using send.hyps(1) Some by (simp add: sendFriendRequest_def)
      then show ?thesis using send.prems send.hyps(2) by (rule create_friendship_ok) (use Some FS_removed in simp)
    qed
  qed
qed


section \<open>Properties\<close>

lemma areFriends_iff: "areFriends a b s \<longleftrightarrow> (\<exists>r\<in>set (friendships s). fr_status r = FS_accepted \<and> between a b r)"
  by (auto simp: areFriends_def find_where_None)




text \<open>Users 1 and 2: a request, its acceptance, and a removal.\<close>

lemma friendships_ok_empty: "friendships_ok empty_db"
  by (simp add: friendships_ok_def empty_db_def)


text \<open>Friendship after one row has changed.\<close>

lemma areFriends_update:
  assumes ok: "friendships_ok s" and r: "r \<in> set (friendships s)"
    and f: "\<And>q. fr_userId (f q) = fr_userId q" "\<And>q. fr_friendId (f q) = fr_friendId q"
    and s': "friendships s' = update_key fr_id (fr_id r) f (friendships s)"
  shows "areFriends a b s' \<longleftrightarrow>
    (\<exists>q\<in>set (friendships s). q \<noteq> r \<and> fr_status q = FS_accepted \<and> between a b q)
    \<or> (fr_status (f r) = FS_accepted \<and> between a b r)"
proof -
  have "set (friendships s') = (\<lambda>q. if q = r then f q else q) ` set (friendships s)"
    unfolding s' update_key_def set_update_where using row_by_id [OF ok _ r] by (intro image_cong refl) auto
  then show ?thesis using r f by (auto simp: areFriends_iff between_def)
qed

text \<open>A row that is alive is the only accepted one its users can have.\<close>

lemma accepted_unique:
  assumes "friendships_ok s" "r \<in> set (friendships s)" "fr_status r \<noteq> FS_removed" "between a b r"
    and "q \<in> set (friendships s)" "fr_status q = FS_accepted" "between a b q"
  shows "q = r"
proof -
  have "same_pair q r" using assms(4,7) by (auto simp: same_pair_def between_def)
  then show ?thesis using assms unfolding friendships_ok_def by auto
qed

lemma accept_effect:
  assumes "acceptFriendRequest now k u s = Inr (r, s')" "friendships_ok s"
  obtains q where "q \<in> set (friendships s)" "fr_id q = k" "fr_friendId q = u" "fr_userId r = fr_userId q"
    "fr_friendId r = fr_friendId q" "fr_status q = FS_pending"
    "\<And>a b. areFriends a b s' \<longleftrightarrow> areFriends a b s \<or> between a b q"
proof -
  obtain q where q: "pending_request fr_friendId k u s = Inr q"
    using assms(1) by (auto simp: acceptFriendRequest_def split: sum.splits)
  note P = pending_requestE [OF q]
  have m: "q \<in> set (friendships s)" "fr_id q = k" using P friend_row [OF assms(2)] by blast+
  let ?f = "\<lambda>r. r\<lparr>fr_status := FS_accepted, fr_acceptedAt := Some now\<rparr>"
  have r: "r = ?f q" and s': "friendships s' = update_key fr_id (fr_id q) ?f (friendships s)"
    using assms(1) q by (auto simp: acceptFriendRequest_def update_friendship_def)
  have "areFriends a b s' \<longleftrightarrow> areFriends a b s \<or> between a b q" for a b
    using areFriends_update [OF assms(2) m(1) _ _ s', of a b] P unfolding areFriends_iff [of _ _ s] by auto
  then show thesis using m P r by (intro that) auto
qed

lemma remove_effect:
  assumes "removeFriend k u s = Inr (r, s')" "friendships_ok s"
  shows "\<exists>q\<in>set (friendships s). fr_id q = k \<and> involves u q
      \<and> (\<forall>a b. areFriends a b s' \<longleftrightarrow> areFriends a b s \<and> \<not> (fr_status q = FS_accepted \<and> between a b q))"
proof -
  obtain q where q: "find_key fr_id k (friendships s) = Some q" and u: "involves u q"
    using assms(1) by (auto simp: removeFriend_def involves_def split: option.splits if_splits)
  note m = friend_row [OF assms(2) q]
  let ?f = "\<lambda>r. r\<lparr>fr_status := FS_removed\<rparr>"
  have r: "r = ?f q" and s': "friendships s' = update_key fr_id (fr_id q) ?f (friendships s)"
    using assms(1) q by (auto simp: removeFriend_def update_friendship_def split: if_splits)
  have other: "z \<noteq> q" if "z \<in> set (friendships s)" "fr_status z = FS_accepted" "between a b z"
      "\<not> (fr_status q = FS_accepted \<and> between a b q)" for a b z
    using that by auto
  have "areFriends a b s' \<longleftrightarrow> areFriends a b s \<and> \<not> (fr_status q = FS_accepted \<and> between a b q)" for a b
    using areFriends_update [OF assms(2) m(1) _ _ s', of a b] other [of _ a b] accepted_unique [OF assms(2) m(1), of a b]
    unfolding areFriends_iff [of _ _ s] by auto
  then show ?thesis using m u by blast
qed

lemma send_effect:
  assumes "sendFriendRequest now u v m s = Inr (r, s')" "friendships_ok s" "areFriends a b s'" "\<not> areFriends a b s"
  shows "\<exists>q\<in>set (friendships s). fr_userId q = v \<and> fr_friendId q = u \<and> fr_status q = FS_pending \<and> between a b q"
proof -
  have same: "areFriends a b s' = areFriends a b s" if "create_friendship u v m s = Inr (r, s')"
    using that by (auto simp: create_friendship_def areFriends_iff Let_def split: if_splits)
  show ?thesis
  proof (cases "find_where (between u v) (friendships s)")
    case None
    then show ?thesis using assms(1,3,4) same by (simp add: sendFriendRequest_def)
  next
    case (Some q)
    have q: "q \<in> set (friendships s)" using find_where_SomeD [OF Some] by simp
    show ?thesis
    proof (cases "fr_status q")
      case FS_pending
      then have v: "fr_userId q = v" "fr_friendId q = u" and acc: "acceptFriendRequest now (fr_id q) u s = Inr (r, s')"
        using assms(1) Some by (auto simp: sendFriendRequest_def split: if_splits)
      obtain w where w: "w \<in> set (friendships s)" "fr_id w = fr_id q"
        and eff: "\<And>a b. areFriends a b s' \<longleftrightarrow> areFriends a b s \<or> between a b w"
        by (rule accept_effect [OF acc assms(2)]) blast
      have "w = q" using row_by_id [OF assms(2) w(1) q w(2)] .
      then show ?thesis using eff assms(3,4) q v FS_pending by blast
    next
      case FS_rejected
      then have "friendships s' = update_key fr_id (fr_id q) (\<lambda>r. r\<lparr>fr_status := FS_pending,
          fr_remark := text_or_null m, fr_rejectedAt := None\<rparr>) (friendships s)"
        using assms(1) Some by (auto simp: sendFriendRequest_def update_friendship_def)
      from areFriends_update [OF assms(2) q _ _ this, of a b] assms(3,4) FS_rejected show ?thesis by (auto simp: areFriends_iff)
    qed (use assms(1,3,4) Some same in \<open>simp_all add: sendFriendRequest_def\<close>)
  qed
qed

text \<open>A friendship needs the other side and ends at either side's word: whoever accepts a request is the one it
  is addressed to, it was pending, and then exactly its two users have become friends; whoever removes a row is
  one of its users, and then exactly its two users are no friends; a sent request makes friends only when it
  crosses a pending one from the other user.\<close>

theorem friendship_needs_both:
  assumes "friendships_ok s"
  shows "(acceptFriendRequest now k u s = Inr (r, s') \<longrightarrow>
            (\<exists>q\<in>set (friendships s). fr_id q = k \<and> fr_friendId q = u \<and> fr_status q = FS_pending \<and> same_pair q r)
          \<and> fr_friendId r = u
          \<and> (\<forall>a b. areFriends a b s' \<longleftrightarrow> areFriends a b s \<or> between a b r))
    \<and> (removeFriend k u s = Inr (r, s') \<longrightarrow>
          (\<exists>q\<in>set (friendships s). fr_id q = k \<and> involves u q
            \<and> (\<forall>a b. areFriends a b s' \<longleftrightarrow> areFriends a b s \<and> \<not> (fr_status q = FS_accepted \<and> between a b q))))
    \<and> (sendFriendRequest now u v m s = Inr (r, s') \<longrightarrow> areFriends a b s' \<longrightarrow> \<not> areFriends a b s \<longrightarrow>
          (\<exists>q\<in>set (friendships s). fr_userId q = v \<and> fr_friendId q = u \<and> fr_status q = FS_pending \<and> between a b q))"
proof (intro conjI impI)
  assume a: "acceptFriendRequest now k u s = Inr (r, s')"
  note E = accept_effect [OF a assms]
  show "\<exists>q\<in>set (friendships s). fr_id q = k \<and> fr_friendId q = u \<and> fr_status q = FS_pending \<and> same_pair q r"
    by (rule E) (auto simp: same_pair_def between_def)
  show "fr_friendId r = u" by (rule E) auto
  show "\<forall>a b. areFriends a b s' \<longleftrightarrow> areFriends a b s \<or> between a b r" by (rule E) (auto simp: between_def)
next
  assume "removeFriend k u s = Inr (r, s')"
  from remove_effect [OF this assms]
  show "\<exists>q\<in>set (friendships s). fr_id q = k \<and> involves u q
      \<and> (\<forall>a b. areFriends a b s' \<longleftrightarrow> areFriends a b s \<and> \<not> (fr_status q = FS_accepted \<and> between a b q))" .
next
  assume "sendFriendRequest now u v m s = Inr (r, s')" "areFriends a b s'" "\<not> areFriends a b s"
  with send_effect [OF _ assms]
  show "\<exists>q\<in>set (friendships s). fr_userId q = v \<and> fr_friendId q = u \<and> fr_status q = FS_pending \<and> between a b q"
    by blast
qed

text \<open>A request from 1 to 2 is answered, and the friendship is removed again.\<close>

theorem friendship_needs_both_witness:
  "\<exists>r s1 q s2 s3. sendFriendRequest 10 1 2 None empty_db = Inr (r, s1)
     \<and> acceptFriendRequest 20 (fr_id r) 2 s1 = Inr (q, s2) \<and> areFriends 1 2 s2
     \<and> removeFriend (fr_id r) 1 s2 = Inr s3 \<and> \<not> areFriends 1 2 (snd s3)"
proof -
  have c: "(case sendFriendRequest 10 1 2 None empty_db of Inl e \<Rightarrow> False | Inr (r, s1) \<Rightarrow>
      (case acceptFriendRequest 20 (fr_id r) 2 s1 of Inl e \<Rightarrow> False | Inr (q, s2) \<Rightarrow>
        fr_userId q = 1 \<and> fr_friendId q = 2 \<and> fr_id q = fr_id r
        \<and> (\<forall>x\<in>set (friendships s2). fr_status x = FS_accepted \<and> between 1 2 x) \<and> \<not> isl (removeFriend (fr_id r) 1 s2)))"
    by code_simp
  then obtain r s1 where 1: "sendFriendRequest 10 1 2 None empty_db = Inr (r, s1)"
    by (cases "sendFriendRequest 10 1 2 None empty_db") auto
  from c obtain q s2 where 2: "acceptFriendRequest 20 (fr_id r) 2 s1 = Inr (q, s2)" "fr_userId q = 1" "fr_friendId q = 2"
    "\<forall>x\<in>set (friendships s2). fr_status x = FS_accepted \<and> between 1 2 x" "\<not> isl (removeFriend (fr_id r) 1 s2)"
    unfolding 1 by (cases "acceptFriendRequest 20 (fr_id r) 2 s1") auto
  from 2(5) obtain t s3 where 3: "removeFriend (fr_id r) 1 s2 = Inr (t, s3)"
    by (cases "removeFriend (fr_id r) 1 s2") auto
  have ok1: "friendships_ok s1"
    using friend_step_ok [OF friend_step.send [OF 1] friendships_ok_empty] by simp
  have "areFriends 1 2 s2"
    using friendship_needs_both [OF ok1, of 20 "fr_id r" 2 q s2] 2(1,2,3) by (auto simp: between_def)
  moreover have "\<not> areFriends 1 2 s3"
    using friendship_needs_both [OF friend_step_ok [OF friend_step.accept [OF 2(1)] ok1], of _ "fr_id r" 1 t s3] 2(4) 3 by blast
  ultimately show ?thesis using 1 2(1) 3 by auto
qed

text \<open>Two dead ends of repeated requests. When 2 rejected 1's request and later asks 1 back, the row keeps its
  old direction: the request lands with 2 itself, who can accept it, while 1 who was asked may not. And after a
  friendship has been removed the same user cannot ask again: the new row violates the unique index.\<close>

theorem repeated_requests_dead_ends:
  "(case sendFriendRequest 10 1 2 None empty_db of Inl e \<Rightarrow> False | Inr (r, s1) \<Rightarrow>
     (case rejectFriendRequest 20 (fr_id r) 2 s1 of Inl e \<Rightarrow> False | Inr (_, s2) \<Rightarrow>
       (case sendFriendRequest 30 2 1 None s2 of Inl e \<Rightarrow> False | Inr (q, s3) \<Rightarrow>
          getPendingFriendRequests 2 s3 = [q] \<and> getPendingFriendRequests 1 s3 = []
          \<and> acceptFriendRequest 40 (fr_id q) 1 s3 = Inl (Error ''FORBIDDEN'')
          \<and> (case acceptFriendRequest 40 (fr_id q) 2 s3 of Inl e \<Rightarrow> False | Inr (_, s4) \<Rightarrow> areFriends 1 2 s4)))
     \<and> (case acceptFriendRequest 20 (fr_id r) 2 s1 of Inl e \<Rightarrow> False | Inr (_, s2) \<Rightarrow>
       (case removeFriend (fr_id r) 2 s2 of Inl e \<Rightarrow> False | Inr (_, s3) \<Rightarrow>
          sendFriendRequest 30 1 2 None s3 = Inl UniqueViolation)))"
  by code_simp

end
