(* ===== verification/InstanceTasks.thy ===== *)
theory InstanceTasks
  imports Database
begin

text \<open>
  The queue of operations on instances and the leases of the workers that execute them:
  \<open>server/src/db/instance-tasks.ts\<close>, \<open>server/src/workers/instance-task-lease.ts\<close>, the claims and the
  clean-up of \<open>server/src/workers/instanceTaskWorker.ts\<close> and the recovery of a stuck task in
  \<open>server/src/routes/instances.ts\<close>. The database keeps at most one active task per instance by a partial unique
  index. The clock, the execution token a claim draws, the advisory locks and whether the host runs a
  restore or an upload are arguments.
\<close>

section \<open>The queue\<close>

definition active_status :: "task_status \<Rightarrow> bool" where
  "active_status st \<longleftrightarrow> st = TK_pending \<or> st = TK_processing"

record task_data =
  td_instanceId :: int
  td_hostId :: int
  td_userId :: int
  td_taskType :: task_type
  td_imageAlias :: "string option"
  td_sshKeyId :: "int option"
  td_customInitCommandIds :: "int list option"
  td_targetName :: "string option"
  td_targetHostId :: "int option"
  td_snapshotName :: "string option"

text \<open>\<open>x || null\<close> for texts and for numbers.\<close>

definition string_or_null :: "string option \<Rightarrow> string option" where
  "string_or_null x = (if x = Some [] then None else x)"

definition number_or_null :: "int option \<Rightarrow> int option" where
  "number_or_null x = (if x = Some 0 then None else x)"

definition new_task :: "int \<Rightarrow> task_data \<Rightarrow> db \<Rightarrow> task" where
  "new_task now data s =
     \<lparr>tk_id = task_seq s, tk_instanceId = td_instanceId data, tk_hostId = td_hostId data, tk_userId = td_userId data,
      tk_type = td_taskType data, tk_status = TK_pending, tk_progress = None,
      tk_imageAlias = string_or_null (td_imageAlias data), tk_sshKeyId = number_or_null (td_sshKeyId data),
      tk_initCommandIds = td_customInitCommandIds data, tk_targetName = string_or_null (td_targetName data),
      tk_targetHostId = number_or_null (td_targetHostId data), tk_snapshotName = string_or_null (td_snapshotName data),
      tk_newInstanceId = None, tk_error = None, tk_token = None, tk_leaseExpiresAt = None, tk_createdAt = now,
      tk_startedAt = None, tk_finishedAt = None\<rparr>"

definition newest_first :: "task list \<Rightarrow> task list" where
  "newest_first ts = rev (sort_key tk_createdAt ts)"

definition getActiveTaskForInstance :: "int \<Rightarrow> db \<Rightarrow> task option" where
  "getActiveTaskForInstance instanceId s =
     (case newest_first (filter (\<lambda>t. tk_instanceId t = instanceId \<and> active_status (tk_status t)) (tasks s)) of
        [] \<Rightarrow> None
      | t # _ \<Rightarrow> Some t)"

text \<open>What a creation throws: the conflict with the active task it carries, or the database's error.\<close>

datatype create_error = Task_conflict task | Thrown exn

text \<open>The insertion, and the query after a violated index, which may see a later database.\<close>

definition createInstanceTask :: "int \<Rightarrow> task_data \<Rightarrow> db \<Rightarrow> db \<Rightarrow> create_error + (task \<times> db)" where
  "createInstanceTask now data s later =
     (if \<exists>t\<in>set (tasks s). tk_instanceId t = td_instanceId data \<and> active_status (tk_status t)
      then (case getActiveTaskForInstance (td_instanceId data) later of
              Some active \<Rightarrow> Inl (Task_conflict active)
            | None \<Rightarrow> Inl (Thrown UniqueViolation))
      else Inr (new_task now data s, s\<lparr>tasks := tasks s @ [new_task now data s], task_seq := task_seq s + 1\<rparr>))"

definition getInstanceTaskById :: "int \<Rightarrow> db \<Rightarrow> task option" where
  "getInstanceTaskById taskId s = find_key tk_id taskId (tasks s)"

definition getUserInstanceTasks ::
    "int \<Rightarrow> nat \<Rightarrow> nat \<Rightarrow> task_status list \<Rightarrow> db \<Rightarrow> task list \<times> nat" where
  "getUserInstanceTasks userId page pageSize status s =
     (let P = (\<lambda>t. tk_userId t = userId \<and> (status = [] \<or> tk_status t \<in> set status)) in
      (take pageSize (drop ((page - 1) * pageSize) (newest_first (filter P (tasks s)))), count_where P (tasks s)))"

record status_updates =
  su_progress :: "string option"
  su_error :: "message option"
  su_startedAt :: "int option"
  su_finishedAt :: "int option"
  su_newInstanceId :: "int option"

definition apply_updates :: "status_updates \<Rightarrow> task \<Rightarrow> task" where
  "apply_updates u t = t\<lparr>
     tk_progress := (case su_progress u of None \<Rightarrow> tk_progress t | x \<Rightarrow> x),
     tk_error := (case su_error u of None \<Rightarrow> tk_error t | x \<Rightarrow> x),
     tk_startedAt := (case su_startedAt u of None \<Rightarrow> tk_startedAt t | x \<Rightarrow> x),
     tk_finishedAt := (case su_finishedAt u of None \<Rightarrow> tk_finishedAt t | x \<Rightarrow> x),
     tk_newInstanceId := (case su_newInstanceId u of None \<Rightarrow> tk_newInstanceId t | x \<Rightarrow> x)\<rparr>"

definition updateInstanceTaskStatus ::
    "int \<Rightarrow> task_status \<Rightarrow> status_updates \<Rightarrow> db \<Rightarrow> (unit \<times> db) outcome" where
  "updateInstanceTaskStatus taskId status u s =
     (if find_key tk_id taskId (tasks s) = None then Inl RecordNotFound
      else Inr ((), s\<lparr>tasks := update_key tk_id taskId (\<lambda>t. apply_updates u (t\<lparr>tk_status := status\<rparr>)) (tasks s)\<rparr>))"

definition updateInstanceTaskProgress :: "int \<Rightarrow> string \<Rightarrow> db \<Rightarrow> (unit \<times> db) outcome" where
  "updateInstanceTaskProgress taskId progress s =
     (if find_key tk_id taskId (tasks s) = None then Inl RecordNotFound
      else Inr ((), s\<lparr>tasks := update_key tk_id taskId (\<lambda>t. t\<lparr>tk_progress := Some progress\<rparr>) (tasks s)\<rparr>))"

definition getTaskQueuePosition :: "int \<Rightarrow> int \<Rightarrow> db \<Rightarrow> nat" where
  "getTaskQueuePosition taskId hostId s =
     (case find_key tk_id taskId (tasks s) of
        None \<Rightarrow> 0
      | Some task \<Rightarrow> count_where (\<lambda>t. tk_hostId t = hostId \<and> tk_status t = TK_pending
          \<and> tk_createdAt t \<le> tk_createdAt task) (tasks s))"

definition seven_days_ms :: int where
  "seven_days_ms = 7 * 24 * 60 * 60 * 1000"

definition old_task :: "int \<Rightarrow> task \<Rightarrow> bool" where
  "old_task now t \<longleftrightarrow> (tk_status t = TK_completed \<or> tk_status t = TK_failed)
     \<and> (case tk_finishedAt t of None \<Rightarrow> False | Some f \<Rightarrow> f < now - seven_days_ms)"

definition cleanupOldTasks :: "int \<Rightarrow> db \<Rightarrow> nat \<times> db" where
  "cleanupOldTasks now s =
     (count_where (old_task now) (tasks s), s\<lparr>tasks := delete_where (old_task now) (tasks s)\<rparr>)"

text \<open>Cancelling reads the task and then writes it, in two statements.\<close>

definition cancel_read :: "int \<Rightarrow> db \<Rightarrow> bool" where
  "cancel_read taskId s =
     (case find_key tk_id taskId (tasks s) of None \<Rightarrow> False | Some t \<Rightarrow> tk_status t = TK_pending)"

definition cancel_write :: "int \<Rightarrow> int \<Rightarrow> db \<Rightarrow> (task \<times> db) outcome" where
  "cancel_write now taskId s =
     (let f = (\<lambda>t. t\<lparr>tk_status := TK_failed, tk_error := Some M_cancelled_by_user, tk_finishedAt := Some now\<rparr>) in
      case find_key tk_id taskId (tasks s) of
        None \<Rightarrow> Inl RecordNotFound
      | Some t \<Rightarrow> Inr (f t, s\<lparr>tasks := update_key tk_id taskId f (tasks s)\<rparr>))"

definition cancelInstanceTask :: "int \<Rightarrow> int \<Rightarrow> db \<Rightarrow> (task option \<times> db) outcome" where
  "cancelInstanceTask now taskId s =
     (if \<not> cancel_read taskId s then Inr (None, s)
      else case cancel_write now taskId s of Inl e \<Rightarrow> Inl e | Inr (t, s1) \<Rightarrow> Inr (Some t, s1))"

section \<open>Leases\<close>

definition INSTANCE_TASK_LEASE_MS :: int where
  "INSTANCE_TASK_LEASE_MS = 2 * 60 * 1000"

definition INSTANCE_TASK_HEARTBEAT_MS :: int where
  "INSTANCE_TASK_HEARTBEAT_MS = 30 * 1000"

definition INSTANCE_TASK_ORPHANED_PROGRESS :: string where
  "INSTANCE_TASK_ORPHANED_PROGRESS = ''orphaned''"

definition activeExecutionWhere :: "int \<Rightarrow> string \<Rightarrow> int \<Rightarrow> task \<Rightarrow> bool" where
  "activeExecutionWhere taskId executionToken now t \<longleftrightarrow>
     tk_id t = taskId \<and> tk_status t = TK_processing \<and> tk_token t = Some executionToken
     \<and> (case tk_leaseExpiresAt t of None \<Rightarrow> False | Some l \<Rightarrow> l > now)"

definition canRecoverInstanceTask :: "task \<Rightarrow> int \<Rightarrow> bool \<Rightarrow> bool" where
  "canRecoverInstanceTask task now force =
     (if tk_status task = TK_processing
      then force \<and> (case tk_leaseExpiresAt task of None \<Rightarrow> True | Some l \<Rightarrow> l \<le> now)
      else force \<or> now - tk_createdAt task \<ge> 15 * 60 * 1000)"

definition hasActiveInstanceTaskLease :: "int \<Rightarrow> string \<Rightarrow> int \<Rightarrow> db \<Rightarrow> bool" where
  "hasActiveInstanceTaskLease taskId executionToken now s \<longleftrightarrow>
     count_where (activeExecutionWhere taskId executionToken now) (tasks s) = 1"

text \<open>An update of the execution's row, if the lease is still held; the result tells whether it was.\<close>

definition updateInstanceTaskExecutionData ::
    "int \<Rightarrow> string \<Rightarrow> (task \<Rightarrow> task) \<Rightarrow> int \<Rightarrow> db \<Rightarrow> bool \<times> db" where
  "updateInstanceTaskExecutionData taskId executionToken data now s =
     (let P = activeExecutionWhere taskId executionToken now in
      (count_where P (tasks s) = 1, s\<lparr>tasks := update_where P data (tasks s)\<rparr>))"

definition renewInstanceTaskLease :: "int \<Rightarrow> string \<Rightarrow> int \<Rightarrow> db \<Rightarrow> bool \<times> db" where
  "renewInstanceTaskLease taskId executionToken now s =
     (let P = activeExecutionWhere taskId executionToken now in
      (count_where P (tasks s) = 1,
       s\<lparr>tasks := update_where P (\<lambda>t. t\<lparr>tk_leaseExpiresAt := Some (now + INSTANCE_TASK_LEASE_MS)\<rparr>) (tasks s)\<rparr>))"

definition updateInstanceTaskExecutionProgress :: "int \<Rightarrow> string \<Rightarrow> string \<Rightarrow> int \<Rightarrow> db \<Rightarrow> bool \<times> db" where
  "updateInstanceTaskExecutionProgress taskId executionToken progress now s =
     updateInstanceTaskExecutionData taskId executionToken (\<lambda>t. t\<lparr>tk_progress := Some progress\<rparr>) now s"

definition finishInstanceTaskExecution ::
    "int \<Rightarrow> string \<Rightarrow> task_status \<Rightarrow> status_updates \<Rightarrow> int \<Rightarrow> db \<Rightarrow> bool \<times> db" where
  "finishInstanceTaskExecution taskId executionToken status updates now s =
     (let P = activeExecutionWhere taskId executionToken now in
      (count_where P (tasks s) = 1,
       s\<lparr>tasks := update_where P (\<lambda>t. (apply_updates updates (t\<lparr>tk_status := status\<rparr>))
           \<lparr>tk_leaseExpiresAt := None, tk_token := None\<rparr>) (tasks s)\<rparr>))"

section \<open>The worker\<close>

definition HEAVY_TASK_TYPES :: "task_type set" where
  "HEAVY_TASK_TYPES = {TT_rebuild, TT_clone, TT_recreate, TT_change_host}"

definition LIGHT_TASK_NAMES :: "task_type set" where
  "LIGHT_TASK_NAMES = {TT_start, TT_stop, TT_restart}"

text \<open>A lapsed lease quarantines the task; at the start of the server also a missing one does.\<close>

definition not_orphaned :: "task \<Rightarrow> bool" where
  "not_orphaned t \<longleftrightarrow> tk_progress t \<noteq> Some INSTANCE_TASK_ORPHANED_PROGRESS"

definition lease_lapsed :: "int \<Rightarrow> task \<Rightarrow> bool" where
  "lease_lapsed now t \<longleftrightarrow> (case tk_leaseExpiresAt t of None \<Rightarrow> False | Some l \<Rightarrow> l \<le> now)"

definition quarantine :: "task \<Rightarrow> task" where
  "quarantine t = t\<lparr>tk_progress := Some INSTANCE_TASK_ORPHANED_PROGRESS, tk_error := Some M_lease_expired\<rparr>"

definition cleanupStaleTasks :: "int \<Rightarrow> db \<Rightarrow> db" where
  "cleanupStaleTasks now s = s\<lparr>tasks := update_where
     (\<lambda>t. tk_status t = TK_processing \<and> not_orphaned t \<and> (tk_leaseExpiresAt t = None \<or> lease_lapsed now t)) quarantine (tasks s)\<rparr>"

definition cleanupTimeoutTasks :: "int \<Rightarrow> db \<Rightarrow> db" where
  "cleanupTimeoutTasks now s = s\<lparr>tasks := update_where
     (\<lambda>t. tk_status t = TK_processing \<and> not_orphaned t \<and> lease_lapsed now t) quarantine (tasks s)\<rparr>"

text \<open>A worker that lost its lease marks its own execution.\<close>

definition quarantine_own :: "int \<Rightarrow> string \<Rightarrow> db \<Rightarrow> db" where
  "quarantine_own taskId executionToken s = s\<lparr>tasks := update_where
     (\<lambda>t. tk_id t = taskId \<and> tk_status t = TK_processing \<and> tk_token t = Some executionToken)
     (\<lambda>t. t\<lparr>tk_progress := Some INSTANCE_TASK_ORPHANED_PROGRESS, tk_error := Some M_lease_revoked\<rparr>) (tasks s)\<rparr>"

text \<open>The end of a claim: the locked task becomes this execution's, unless its instance is busy or gone.\<close>

definition begin_execution :: "int \<Rightarrow> string \<Rightarrow> bool \<Rightarrow> task \<Rightarrow> db \<Rightarrow> task option \<times> db" where
  "begin_execution now executionToken instanceLocked t s =
     (if \<not> instanceLocked then (None, s)
      else case find_key i_id (tk_instanceId t) (instances s) of
        None \<Rightarrow> (None, s)
      | Some instance \<Rightarrow>
          if i_status instance = IS_deleted then (None, s)
          else
            let f = (\<lambda>t. t\<lparr>tk_status := TK_processing, tk_startedAt := Some now, tk_token := Some executionToken,
                       tk_leaseExpiresAt := Some (now + INSTANCE_TASK_LEASE_MS)\<rparr>) in
            (Some (f t), s\<lparr>tasks := update_key tk_id (tk_id t) f (tasks s)\<rparr>))"

definition claimLightTask ::
    "int \<Rightarrow> string \<Rightarrow> bool \<Rightarrow> bool \<Rightarrow> bool \<Rightarrow> bool \<Rightarrow> int \<Rightarrow> int \<Rightarrow> db \<Rightarrow> task option \<times> db" where
  "claimLightTask now executionToken locked instanceLocked restoring uploading hostId taskId s =
     (if \<not> locked then (None, s)
      else if \<exists>t\<in>set (tasks s). tk_hostId t = hostId \<and> tk_status t = TK_processing \<and> tk_type t \<in> HEAVY_TASK_TYPES
      then (None, s)
      else if restoring then (None, s)
      else if uploading then (None, s)
      else case find_key tk_id taskId (tasks s) of
        None \<Rightarrow> (None, s)
      | Some t \<Rightarrow>
          if tk_status t \<noteq> TK_pending then (None, s)
          else begin_execution now executionToken instanceLocked t s)"

definition claimNextTask ::
    "int \<Rightarrow> string \<Rightarrow> bool \<Rightarrow> bool \<Rightarrow> bool \<Rightarrow> bool \<Rightarrow> int \<Rightarrow> db \<Rightarrow> task option \<times> db" where
  "claimNextTask now executionToken locked instanceLocked restoring uploading hostId s =
     (if \<not> locked then (None, s)
      else if \<exists>t\<in>set (tasks s). tk_hostId t = hostId \<and> tk_status t = TK_processing then (None, s)
      else if restoring then (None, s)
      else if uploading then (None, s)
      else case sort_key tk_createdAt (filter (\<lambda>t. tk_hostId t = hostId \<and> tk_status t = TK_pending) (tasks s)) of
        [] \<Rightarrow> (None, s)
      | t # _ \<Rightarrow> begin_execution now executionToken instanceLocked t s)"

section \<open>Recovering a stuck task\<close>

datatype recovery = Not_active | Lease_active | Quarantined | Not_stale | State_changed | Recovered

text \<open>The task was read before, by the same request; \<open>force\<close> counts only for an administrator.\<close>

definition recoverTask :: "int \<Rightarrow> bool \<Rightarrow> bool \<Rightarrow> task \<Rightarrow> db \<Rightarrow> recovery \<times> db" where
  "recoverTask now isAdmin forceAsked task s =
     (let force = (isAdmin \<and> forceAsked) in
      if \<not> active_status (tk_status task) then (Not_active, s)
      else if \<not> canRecoverInstanceTask task now force
      then ((if tk_status task = TK_processing
             then (case tk_leaseExpiresAt task of None \<Rightarrow> Quarantined | Some l \<Rightarrow> if l > now then Lease_active else Quarantined)
             else Not_stale), s)
      else
        let P = (\<lambda>t. tk_id t = tk_id task \<and>
              (if tk_status task = TK_processing
               then tk_status t = TK_processing \<and> tk_token t = tk_token task
                 \<and> (if tk_leaseExpiresAt task \<noteq> None then lease_lapsed now t else tk_leaseExpiresAt t = None)
               else tk_status t = TK_pending));
            count = count_where P (tasks s);
            s1 = s\<lparr>tasks := update_where P (\<lambda>t. t\<lparr>tk_status := TK_failed, tk_progress := Some ''recovered'',
              tk_error := Some (M_recovered isAdmin), tk_finishedAt := Some now, tk_token := None,
              tk_leaseExpiresAt := None\<rparr>) (tasks s)\<rparr> in
        ((if count \<noteq> 1 then State_changed else Recovered), s1))"

section \<open>Steps\<close>

text \<open>
  The world of the workers: the clock, the execution tokens drawn so far and the database. A claim draws a
  token that was not drawn before (\<open>crypto.randomUUID\<close>). Any request and any worker may act at any moment;
  in particular the write of a cancellation may come long after the read that found the task pending. The
  data a worker writes under its lease leaves the columns of the lease alone.
\<close>

record world =
  w_now :: int
  w_issued :: "string list"
  w_db :: db

definition plain_data :: "(task \<Rightarrow> task) \<Rightarrow> bool" where
  "plain_data f \<longleftrightarrow> (\<forall>t. tk_id (f t) = tk_id t \<and> tk_status (f t) = tk_status t \<and> tk_token (f t) = tk_token t
     \<and> tk_leaseExpiresAt (f t) = tk_leaseExpiresAt t \<and> tk_instanceId (f t) = tk_instanceId t
     \<and> tk_hostId (f t) = tk_hostId t \<and> tk_type (f t) = tk_type t)"

inductive task_step :: "world \<Rightarrow> world \<Rightarrow> bool" where
  tick: "w_now w \<le> n \<Longrightarrow> task_step w (w\<lparr>w_now := n\<rparr>)"
| create: "createInstanceTask (w_now w) data (w_db w) later = Inr (t, s') \<Longrightarrow> task_step w (w\<lparr>w_db := s'\<rparr>)"
| cancel: "cancel_write (w_now w) k (w_db w) = Inr (t, s') \<Longrightarrow> task_step w (w\<lparr>w_db := s'\<rparr>)"
| cleanup: "cleanupOldTasks (w_now w) (w_db w) = (n, s') \<Longrightarrow> task_step w (w\<lparr>w_db := s'\<rparr>)"
| progress: "updateInstanceTaskProgress k txt (w_db w) = Inr (u, s') \<Longrightarrow> task_step w (w\<lparr>w_db := s'\<rparr>)"
| renew: "renewInstanceTaskLease k e (w_now w) (w_db w) = (b, s') \<Longrightarrow> task_step w (w\<lparr>w_db := s'\<rparr>)"
| store: "updateInstanceTaskExecutionData k e f (w_now w) (w_db w) = (b, s') \<Longrightarrow> plain_data f \<Longrightarrow>
    task_step w (w\<lparr>w_db := s'\<rparr>)"
| finish: "finishInstanceTaskExecution k e st u (w_now w) (w_db w) = (b, s') \<Longrightarrow> st = TK_completed \<or> st = TK_failed \<Longrightarrow>
    task_step w (w\<lparr>w_db := s'\<rparr>)"
| stale: "task_step w (w\<lparr>w_db := cleanupStaleTasks (w_now w) (w_db w)\<rparr>)"
| timeout: "task_step w (w\<lparr>w_db := cleanupTimeoutTasks (w_now w) (w_db w)\<rparr>)"
| own: "task_step w (w\<lparr>w_db := quarantine_own k e (w_db w)\<rparr>)"
| recover: "recoverTask (w_now w) admin force t (w_db w) = (r, s') \<Longrightarrow> task_step w (w\<lparr>w_db := s'\<rparr>)"
| light: "claimLightTask (w_now w) e locked il ra ua h k (w_db w) = (t, s') \<Longrightarrow> e \<notin> set (w_issued w) \<Longrightarrow>
    (\<forall>x\<in>set (tasks (w_db w)). tk_id x = k \<longrightarrow> tk_hostId x = h \<and> tk_type x \<in> LIGHT_TASK_NAMES) \<Longrightarrow>
    task_step w (w\<lparr>w_db := s', w_issued := e # w_issued w\<rparr>)"
| heavy: "claimNextTask (w_now w) e locked il ra ua h (w_db w) = (t, s') \<Longrightarrow> e \<notin> set (w_issued w) \<Longrightarrow>
    task_step w (w\<lparr>w_db := s', w_issued := e # w_issued w\<rparr>)"

text \<open>
  What is kept: task ids are unique and below the sequence; an instance has at most one active task; a pending
  task holds no token and every token held was drawn; where a heavy task is processed on a host, no other
  task is.
\<close>

definition one_active :: "task list \<Rightarrow> bool" where
  "one_active ts \<longleftrightarrow> (\<forall>t\<in>set ts. \<forall>q\<in>set ts.
     tk_instanceId t = tk_instanceId q \<longrightarrow> active_status (tk_status t) \<longrightarrow> active_status (tk_status q) \<longrightarrow> t = q)"

definition heavy_alone :: "task list \<Rightarrow> bool" where
  "heavy_alone ts \<longleftrightarrow> (\<forall>t\<in>set ts. \<forall>q\<in>set ts. tk_hostId t = tk_hostId q \<longrightarrow> tk_status t = TK_processing \<longrightarrow>
     tk_status q = TK_processing \<longrightarrow> tk_type t \<in> HEAVY_TASK_TYPES \<longrightarrow> t = q)"

definition tasks_ok :: "world \<Rightarrow> bool" where
  "tasks_ok w \<longleftrightarrow> distinct (map tk_id (tasks (w_db w)))
     \<and> (\<forall>t\<in>set (tasks (w_db w)). tk_id t < task_seq (w_db w)
          \<and> (tk_status t = TK_pending \<longrightarrow> tk_token t = None)
          \<and> (\<forall>e. tk_token t = Some e \<longrightarrow> e \<in> set (w_issued w)))
     \<and> one_active (tasks (w_db w)) \<and> heavy_alone (tasks (w_db w))"

definition in_force :: "int \<Rightarrow> task \<Rightarrow> bool" where
  "in_force now t \<longleftrightarrow> (case tk_leaseExpiresAt t of None \<Rightarrow> False | Some l \<Rightarrow> l > now)"

text \<open>
  Every step but the creation and the claims rewrites or removes rows one by one. \<open>tamed now t t'\<close>: a row that
  becomes \<open>t'\<close> keeps its identity, does not become active or start processing, gets no token, and its lease
  is in force only if it was before.
\<close>

definition tamed :: "int \<Rightarrow> task \<Rightarrow> task \<Rightarrow> bool" where
  "tamed now t t' \<longleftrightarrow> (in_force now t' \<longrightarrow> in_force now t) \<and> tk_id t' = tk_id t \<and> tk_instanceId t' = tk_instanceId t \<and> tk_hostId t' = tk_hostId t \<and> tk_type t' = tk_type t
     \<and> (tk_token t' = tk_token t \<or> tk_token t' = None)
     \<and> (tk_status t' = tk_status t \<or> tk_status t' = TK_completed \<or> tk_status t' = TK_failed)"

definition shrinks :: "int \<Rightarrow> task list \<Rightarrow> task list \<Rightarrow> bool" where
  "shrinks now ts ts' \<longleftrightarrow> distinct (map tk_id ts') \<and> (\<forall>t'\<in>set ts'. \<exists>t\<in>set ts. tamed now t t')"

lemma tamed_refl [simp]: "tamed now t t"
  by (simp add: tamed_def)

lemma shrinks_map:
  assumes "distinct (map tk_id ts)" "\<And>t. P t \<Longrightarrow> tamed now t (f t)"
  shows "shrinks now ts (update_where P f ts)"
proof -
  have "map tk_id (update_where P f ts) = map tk_id ts"
    using assms(2) by (intro map_update_where) (simp add: tamed_def)
  then show ?thesis using assms by (auto simp: shrinks_def elim!: set_update_whereE intro!: bexI split: if_splits)
qed

lemma shrinks_delete: "distinct (map tk_id ts) \<Longrightarrow> shrinks now ts (delete_where P ts)"
  by (auto simp: shrinks_def delete_where_def distinct_map_filter intro!: bexI)

lemma tamed_keys:
  "tamed now x t \<Longrightarrow> tk_id t = tk_id x \<and> tk_instanceId t = tk_instanceId x \<and> tk_hostId t = tk_hostId x \<and> tk_type t = tk_type x"
  by (simp add: tamed_def)

lemma tamed_status:
  assumes "tamed now x t"
  shows "active_status (tk_status t) \<Longrightarrow> active_status (tk_status x)"
    and "tk_status t = TK_processing \<Longrightarrow> tk_status x = TK_processing"
    and "tk_status t = TK_pending \<Longrightarrow> tk_status x = TK_pending"
    and "tk_token t = Some e \<Longrightarrow> tk_token x = Some e"
  using assms by (auto simp: tamed_def active_status_def)

lemma shrinks_one_active:
  assumes "one_active ts" "shrinks now ts ts'" shows "one_active ts'"
  unfolding one_active_def
proof (intro ballI impI)
  fix t q assume a: "t \<in> set ts'" "q \<in> set ts'" "tk_instanceId t = tk_instanceId q"
    "active_status (tk_status t)" "active_status (tk_status q)"
  obtain x where x: "x \<in> set ts" "tamed now x t" using assms(2) a(1) unfolding shrinks_def by blast
  obtain y where y: "y \<in> set ts" "tamed now y q" using assms(2) a(2) unfolding shrinks_def by blast
  have "tk_instanceId x = tk_instanceId y" using tamed_keys [OF x(2)] tamed_keys [OF y(2)] a(3) by simp
  then have "x = y"
    using assms(1) x(1) y(1) tamed_status(1) [OF x(2) a(4)] tamed_status(1) [OF y(2) a(5)] unfolding one_active_def by blast
  then have "tk_id t = tk_id q" using tamed_keys [OF x(2)] tamed_keys [OF y(2)] by simp
  then show "t = q" using assms(2) a(1,2) by (simp add: shrinks_def distinct_map inj_on_def)
qed

lemma shrinks_heavy_alone:
  assumes "heavy_alone ts" "shrinks now ts ts'" shows "heavy_alone ts'"
  unfolding heavy_alone_def
proof (intro ballI impI)
  fix t q assume a: "t \<in> set ts'" "q \<in> set ts'" "tk_hostId t = tk_hostId q"
    "tk_status t = TK_processing" "tk_status q = TK_processing" "tk_type t \<in> HEAVY_TASK_TYPES"
  obtain x where x: "x \<in> set ts" "tamed now x t" using assms(2) a(1) unfolding shrinks_def by blast
  obtain y where y: "y \<in> set ts" "tamed now y q" using assms(2) a(2) unfolding shrinks_def by blast
  have "tk_hostId x = tk_hostId y" "tk_type x \<in> HEAVY_TASK_TYPES"
    using tamed_keys [OF x(2)] tamed_keys [OF y(2)] a(3,6) by simp_all
  then have "x = y"
    using assms(1) x(1) y(1) tamed_status(2) [OF x(2) a(4)] tamed_status(2) [OF y(2) a(5)] unfolding heavy_alone_def by blast
  then have "tk_id t = tk_id q" using tamed_keys [OF x(2)] tamed_keys [OF y(2)] by simp
  then show "t = q" using assms(2) a(1,2) by (simp add: shrinks_def distinct_map inj_on_def)
qed

lemma shrinks_ok:
  assumes "tasks_ok w" "shrinks now (tasks (w_db w)) (tasks s')" "task_seq s' = task_seq (w_db w)"
  shows "tasks_ok (w\<lparr>w_db := s'\<rparr>)"
proof -
  have "tk_id t < task_seq s' \<and> (tk_status t = TK_pending \<longrightarrow> tk_token t = None)
      \<and> (\<forall>e. tk_token t = Some e \<longrightarrow> e \<in> set (w_issued w))" if "t \<in> set (tasks s')" for t
  proof -
    obtain x where x: "x \<in> set (tasks (w_db w))" "tamed now x t" using assms(2) \<open>t \<in> _\<close> unfolding shrinks_def by blast
    have "tk_token t = None" if "tk_token x = None" using x(2) that by (auto simp: tamed_def)
    then show ?thesis
      using assms(1,3) x(1) tamed_keys [OF x(2)] tamed_status [OF x(2)] unfolding tasks_ok_def by metis
  qed
  then show ?thesis
    using assms shrinks_one_active [OF _ assms(2)] shrinks_heavy_alone [OF _ assms(2)]
    by (simp add: tasks_ok_def shrinks_def)
qed

lemma update_key_where: "update_key key k f t = update_where (\<lambda>r. key r = k) f t"
  by (simp add: update_key_def)

text \<open>What a claim writes into the row of the task.\<close>

definition started :: "int \<Rightarrow> string \<Rightarrow> task \<Rightarrow> task" where
  "started now e t = t\<lparr>tk_status := TK_processing, tk_startedAt := Some now, tk_token := Some e,
     tk_leaseExpiresAt := Some (now + INSTANCE_TASK_LEASE_MS)\<rparr>"

lemma started_simps [simp]:
  "tk_id (started now e t) = tk_id t" "tk_instanceId (started now e t) = tk_instanceId t"
  "tk_hostId (started now e t) = tk_hostId t" "tk_type (started now e t) = tk_type t"
  "tk_status (started now e t) = TK_processing" "tk_token (started now e t) = Some e"
  by (simp_all add: started_def)

lemma begin_cases:
  assumes "begin_execution now e il t s = (r, s')"
  shows "s' = s \<or> (s' = s\<lparr>tasks := update_key tk_id (tk_id t) (started now e) (tasks s)\<rparr> \<and> r = Some (started now e t))"
proof -
  have "(\<lambda>t. t\<lparr>tk_status := TK_processing, tk_startedAt := Some now, tk_token := Some e,
      tk_leaseExpiresAt := Some (now + INSTANCE_TASK_LEASE_MS)\<rparr>) = started now e"
    by (simp add: started_def fun_eq_iff)
  then show ?thesis
    using assms by (auto simp: begin_execution_def Let_def started_def split: if_splits option.splits)
qed

text \<open>The four kinds of steps.\<close>

definition free_for :: "task \<Rightarrow> task list \<Rightarrow> bool" where
  "free_for t ts \<longleftrightarrow> (\<forall>q\<in>set ts. tk_hostId q = tk_hostId t \<longrightarrow> tk_status q = TK_processing \<longrightarrow>
     tk_type t \<notin> HEAVY_TASK_TYPES \<and> tk_type q \<notin> HEAVY_TASK_TYPES)"

lemma light_cases:
  assumes "claimLightTask now e locked il ra ua h k s = (r, s')"
    and "\<forall>x\<in>set (tasks s). tk_id x = k \<longrightarrow> tk_hostId x = h \<and> tk_type x \<in> LIGHT_TASK_NAMES"
  shows "s' = s \<or> (\<exists>t\<in>set (tasks s). tk_status t = TK_pending \<and> free_for t (tasks s)
    \<and> s' = s\<lparr>tasks := update_key tk_id (tk_id t) (started now e) (tasks s)\<rparr>)"
proof (cases "s' = s")
  case False
  then obtain t where t: "find_key tk_id k (tasks s) = Some t" "tk_status t = TK_pending"
    and none: "\<not> (\<exists>t\<in>set (tasks s). tk_hostId t = h \<and> tk_status t = TK_processing \<and> tk_type t \<in> HEAVY_TASK_TYPES)"
    and b: "begin_execution now e il t s = (r, s')"
    using assms(1) by (auto simp: claimLightTask_def split: if_splits option.splits)
  have m: "t \<in> set (tasks s)" "tk_id t = k" using find_key_SomeD [OF t(1)] by auto
  then have "tk_hostId t = h" "tk_type t \<notin> HEAVY_TASK_TYPES"
    using assms(2) by (auto simp: LIGHT_TASK_NAMES_def HEAVY_TASK_TYPES_def)
  then have "free_for t (tasks s)" using none by (auto simp: free_for_def)
  then show ?thesis using begin_cases [OF b] m t by blast
qed simp

lemma heavy_cases:
  assumes "claimNextTask now e locked il ra ua h s = (r, s')"
  shows "s' = s \<or> (\<exists>t\<in>set (tasks s). tk_status t = TK_pending \<and> free_for t (tasks s)
    \<and> s' = s\<lparr>tasks := update_key tk_id (tk_id t) (started now e) (tasks s)\<rparr>)"
proof (cases "s' = s")
  case False
  let ?ts = "sort_key tk_createdAt (filter (\<lambda>t. tk_hostId t = h \<and> tk_status t = TK_pending) (tasks s))"
  obtain t qs where t: "?ts = t # qs"
    and none: "\<not> (\<exists>t\<in>set (tasks s). tk_hostId t = h \<and> tk_status t = TK_processing)"
    and b: "begin_execution now e il t s = (r, s')"
    using assms False by (auto simp: claimNextTask_def split: if_splits list.splits)
  have "t \<in> set ?ts" using t by simp
  then have m: "t \<in> set (tasks s)" "tk_hostId t = h" "tk_status t = TK_pending" by simp_all
  then have "free_for t (tasks s)" using none by (auto simp: free_for_def)
  then show ?thesis using begin_cases [OF b] m False by blast
qed simp

lemma step_cases:
  assumes "task_step w w'" "distinct (map tk_id (tasks (w_db w)))"
  obtains (time) n where "w_now w \<le> n" "w' = w\<lparr>w_now := n\<rparr>"
    | (shrink) s' where "w' = w\<lparr>w_db := s'\<rparr>" "shrinks (w_now w) (tasks (w_db w)) (tasks s')" "task_seq s' = task_seq (w_db w)"
    | (added) s' t where "w' = w\<lparr>w_db := s'\<rparr>" "tasks s' = tasks (w_db w) @ [t]" "task_seq s' = task_seq (w_db w) + 1"
        "tk_id t = task_seq (w_db w)" "tk_status t = TK_pending" "tk_token t = None"
        "\<forall>q\<in>set (tasks (w_db w)). tk_instanceId q = tk_instanceId t \<longrightarrow> \<not> active_status (tk_status q)"
    | (claimed) s' e where "w' = w\<lparr>w_db := s', w_issued := e # w_issued w\<rparr>" "e \<notin> set (w_issued w)"
        "s' = w_db w \<or> (\<exists>t\<in>set (tasks (w_db w)). tk_status t = TK_pending \<and> free_for t (tasks (w_db w))
          \<and> s' = (w_db w)\<lparr>tasks := update_key tk_id (tk_id t) (started (w_now w) e) (tasks (w_db w))\<rparr>)"
  using assms(1)
proof (cases rule: task_step.cases)
  case (tick n)
  then show ?thesis by (intro time)
next
  case (create data later t s')
  then show ?thesis
    by (intro added [of s' t]) (auto simp: createInstanceTask_def new_task_def split: if_splits option.splits)
next
  case (cancel k t s')
  then show ?thesis
    by (intro shrink [of s']) (auto simp: cancel_write_def Let_def update_key_where tamed_def in_force_def
        intro!: shrinks_map assms(2) split: option.splits)
next
  case (cleanup n s')
  then show ?thesis by (intro shrink [of s']) (auto simp: cleanupOldTasks_def intro!: shrinks_delete assms(2))
next
  case (progress k m u s')
  then show ?thesis
    by (intro shrink [of s']) (auto simp: updateInstanceTaskProgress_def update_key_where tamed_def in_force_def
        intro!: shrinks_map assms(2) split: if_splits)
next
  case (renew k e b s')
  then show ?thesis
    by (intro shrink [of s']) (auto simp: renewInstanceTaskLease_def Let_def tamed_def in_force_def activeExecutionWhere_def
        intro!: shrinks_map assms(2))
next
  case (store k e f b s')
  then show ?thesis
    by (intro shrink [of s']) (auto simp: updateInstanceTaskExecutionData_def Let_def tamed_def in_force_def plain_data_def
        intro!: shrinks_map assms(2))
next
  case (finish k e st u b s')
  then show ?thesis
    by (intro shrink [of s']) (auto simp: finishInstanceTaskExecution_def Let_def tamed_def in_force_def apply_updates_def
        intro!: shrinks_map assms(2))
next
  case stale
  then show ?thesis
    by (intro shrink [of "cleanupStaleTasks (w_now w) (w_db w)"]) (auto simp: cleanupStaleTasks_def quarantine_def tamed_def in_force_def intro!: shrinks_map assms(2))
next
  case timeout
  then show ?thesis
    by (intro shrink [of "cleanupTimeoutTasks (w_now w) (w_db w)"]) (auto simp: cleanupTimeoutTasks_def quarantine_def tamed_def in_force_def intro!: shrinks_map assms(2))
next
  case (own k e)
  then show ?thesis
    by (intro shrink [of "quarantine_own k e (w_db w)"]) (auto simp: quarantine_own_def tamed_def in_force_def intro!: shrinks_map assms(2))
next
  case (recover admin force t r s')
  have "shrinks (w_now w) (tasks (w_db w)) (tasks (w_db w))"
    using shrinks_map [OF assms(2), of "\<lambda>_. False" "w_now w" id] by (simp add: update_where_def)
  with recover show ?thesis
    by (intro shrink [of s']) (auto simp: recoverTask_def Let_def tamed_def in_force_def
        intro!: shrinks_map assms(2) split: if_splits)
next
  case (light e locked il ra ua h k t s')
  then show ?thesis using light_cases [OF light(2,4)] by (intro claimed) auto
next
  case (heavy e locked il ra ua h t s')
  then show ?thesis using heavy_cases [OF heavy(2)] by (intro claimed) auto
qed

lemma claimed_rows:
  assumes "distinct (map tk_id ts)" "t \<in> set ts" "z \<in> set (update_key tk_id (tk_id t) (started now e) ts)"
  obtains "z = started now e t" | "z \<in> set ts" "z \<noteq> t" "tk_id z \<noteq> tk_id t"
proof -
  from assms(3) obtain q where q: "q \<in> set ts" "z = (if tk_id q = tk_id t then started now e q else q)"
    by (rule set_update_keyE)
  show thesis
  proof (cases "tk_id q = tk_id t")
    case True
    then have "q = t" using assms(1,2) q(1) by (simp add: distinct_map inj_on_def)
    then show ?thesis using q(2) that(1) by simp
  next
    case False
    then show ?thesis using q that(2) by auto
  qed
qed

lemma claimed_ok:
  assumes ok: "tasks_ok w" and t: "t \<in> set (tasks (w_db w))" "tk_status t = TK_pending" "free_for t (tasks (w_db w))"
  shows "tasks_ok (w\<lparr>w_db := (w_db w)\<lparr>tasks := update_key tk_id (tk_id t) (started now e) (tasks (w_db w))\<rparr>,
    w_issued := e # w_issued w\<rparr>)"
proof -
  let ?ts = "tasks (w_db w)"
  let ?us = "update_key tk_id (tk_id t) (started now e) ?ts"
  have d: "distinct (map tk_id ?ts)" and rows: "\<forall>t\<in>set ?ts. tk_id t < task_seq (w_db w)
      \<and> (tk_status t = TK_pending \<longrightarrow> tk_token t = None) \<and> (\<forall>e. tk_token t = Some e \<longrightarrow> e \<in> set (w_issued w))"
    and oa: "one_active ?ts" and ha: "heavy_alone ?ts" using ok by (auto simp: tasks_ok_def)
  note R = claimed_rows [OF d t(1)]
  have only: "q = t" if "q \<in> set ?ts" "tk_instanceId q = tk_instanceId t" "active_status (tk_status q)" for q
    using oa that t(1,2) unfolding one_active_def active_status_def by blast
  have "distinct (map tk_id ?us)" using d by (simp add: map_update_key)
  moreover have "one_active ?us" unfolding one_active_def
  proof (intro ballI impI)
    fix y z assume a: "y \<in> set ?us" "z \<in> set ?us" "tk_instanceId y = tk_instanceId z"
      "active_status (tk_status y)" "active_status (tk_status z)"
    show "y = z"
      by (rule R [OF a(1)]; rule R [OF a(2)]) (use a(3-5) only oa in \<open>auto simp: one_active_def\<close>)
  qed
  moreover have "heavy_alone ?us" unfolding heavy_alone_def
  proof (intro ballI impI)
    fix y z assume a: "y \<in> set ?us" "z \<in> set ?us" "tk_hostId y = tk_hostId z"
      "tk_status y = TK_processing" "tk_status z = TK_processing" "tk_type y \<in> HEAVY_TASK_TYPES"
    show "y = z"
      by (rule R [OF a(1)]; rule R [OF a(2)]) (use a(3-6) t(3) ha in \<open>auto simp: free_for_def heavy_alone_def\<close>)
  qed
  moreover have "tk_id z < task_seq (w_db w) \<and> (tk_status z = TK_pending \<longrightarrow> tk_token z = None)
      \<and> (\<forall>x. tk_token z = Some x \<longrightarrow> x \<in> set (e # w_issued w))" if "z \<in> set ?us" for z
    by (rule R [OF that]) (use rows t(1) in auto)
  ultimately show ?thesis by (simp add: tasks_ok_def)
qed

lemma issued_ok: "tasks_ok w \<Longrightarrow> tasks_ok (w\<lparr>w_issued := e # w_issued w\<rparr>)"
  by (auto simp: tasks_ok_def)

lemma added_ok:
  assumes ok: "tasks_ok w" and s': "tasks s' = tasks (w_db w) @ [t]" "task_seq s' = task_seq (w_db w) + 1"
    and t: "tk_id t = task_seq (w_db w)" "tk_status t = TK_pending" "tk_token t = None"
      "\<forall>q\<in>set (tasks (w_db w)). tk_instanceId q = tk_instanceId t \<longrightarrow> \<not> active_status (tk_status q)"
  shows "tasks_ok (w\<lparr>w_db := s'\<rparr>)"
proof -
  have fresh: "tk_id q < tk_id t" if "q \<in> set (tasks (w_db w))" for q using ok that t(1) by (auto simp: tasks_ok_def)
  have "one_active (tasks s')"
    using ok t(4) unfolding tasks_ok_def one_active_def s' by (metis Un_iff empty_iff insert_iff list.set set_append)
  moreover have "heavy_alone (tasks s')" using ok t(2) by (auto simp: tasks_ok_def heavy_alone_def s')
  ultimately show ?thesis
    using ok t fresh by (force simp: tasks_ok_def s')
qed

lemma task_step_ok: "task_step w w' \<Longrightarrow> tasks_ok w \<Longrightarrow> tasks_ok w'"
proof -
  assume st: "task_step w w'" and ok: "tasks_ok w"
  then have d: "distinct (map tk_id (tasks (w_db w)))" by (simp add: tasks_ok_def)
  show "tasks_ok w'"
  proof (rule step_cases [OF st d])
    fix n assume "w' = w\<lparr>w_now := n\<rparr>"
    then show ?thesis using ok by (simp add: tasks_ok_def)
  next
    fix s' assume "w' = w\<lparr>w_db := s'\<rparr>" "shrinks (w_now w) (tasks (w_db w)) (tasks s')" "task_seq s' = task_seq (w_db w)"
    then show ?thesis using shrinks_ok [OF ok] by simp
  next
    fix s' t assume a: "w' = w\<lparr>w_db := s'\<rparr>" "tasks s' = tasks (w_db w) @ [t]" "task_seq s' = task_seq (w_db w) + 1"
        "tk_id t = task_seq (w_db w)" "tk_status t = TK_pending" "tk_token t = None"
        "\<forall>q\<in>set (tasks (w_db w)). tk_instanceId q = tk_instanceId t \<longrightarrow> \<not> active_status (tk_status q)"
    show ?thesis unfolding a(1) by (rule added_ok [OF ok a(2-7)])
  next
    fix s' e assume a: "w' = w\<lparr>w_db := s', w_issued := e # w_issued w\<rparr>"
        "s' = w_db w \<or> (\<exists>t\<in>set (tasks (w_db w)). tk_status t = TK_pending \<and> free_for t (tasks (w_db w))
          \<and> s' = (w_db w)\<lparr>tasks := update_key tk_id (tk_id t) (started (w_now w) e) (tasks (w_db w))\<rparr>)"
    from a(2) show ?thesis
    proof
      assume "s' = w_db w"
      then show ?thesis using a(1) issued_ok [OF ok] by simp
    next
      assume "\<exists>t\<in>set (tasks (w_db w)). tk_status t = TK_pending \<and> free_for t (tasks (w_db w))
          \<and> s' = (w_db w)\<lparr>tasks := update_key tk_id (tk_id t) (started (w_now w) e) (tasks (w_db w))\<rparr>"
      then show ?thesis using a(1) claimed_ok [OF ok] by auto
    qed
  qed
qed

interpretation task_runs: invariant_system task_step tasks_ok
  by unfold_locales (rule task_step_ok)

section \<open>Losing a lease\<close>

lemma active_iff:
  "activeExecutionWhere k e now t \<longleftrightarrow> tk_id t = k \<and> tk_status t = TK_processing \<and> tk_token t = Some e \<and> in_force now t"
  by (simp add: activeExecutionWhere_def in_force_def)

lemma lease_count:
  assumes "distinct (map tk_id ts)"
  shows "count_where (activeExecutionWhere k e now) ts = (if \<exists>t\<in>set ts. activeExecutionWhere k e now t then 1 else 0)"
proof -
  have P: "activeExecutionWhere k e now = (\<lambda>t. tk_id t = k \<and> activeExecutionWhere k e now t)"
    by (auto simp: activeExecutionWhere_def fun_eq_iff)
  have le: "count_where (activeExecutionWhere k e now) ts \<le> 1"
    by (subst P) (rule count_key_le_1 [OF assms])
  show ?thesis
  proof (cases "\<exists>t\<in>set ts. activeExecutionWhere k e now t")
    case True
    then have "count_where (activeExecutionWhere k e now) ts \<noteq> 0" by (auto simp: count_where_0)
    with le True show ?thesis by simp
  next
    case False
    then have "count_where (activeExecutionWhere k e now) ts = 0" by (auto simp: count_where_0)
    with False show ?thesis by simp
  qed
qed

definition lost :: "int \<Rightarrow> string \<Rightarrow> world \<Rightarrow> bool" where
  "lost k e w \<longleftrightarrow> tasks_ok w \<and> e \<in> set (w_issued w)
     \<and> (\<forall>t\<in>set (tasks (w_db w)). \<not> activeExecutionWhere k e (w_now w) t)"

lemma lost_step:
  assumes st: "task_step w w'" and l: "lost k e w"
  shows "lost k e w'"
proof -
  have ok: "tasks_ok w" and i: "e \<in> set (w_issued w)"
    and no: "\<forall>t\<in>set (tasks (w_db w)). \<not> activeExecutionWhere k e (w_now w) t" using l by (auto simp: lost_def)
  have d: "distinct (map tk_id (tasks (w_db w)))" using ok by (simp add: tasks_ok_def)
  have ok': "tasks_ok w'" using task_step_ok [OF st ok] .
  show ?thesis
  proof (rule step_cases [OF st d])
    fix n assume n: "w_now w \<le> n" "w' = w\<lparr>w_now := n\<rparr>"
    then have "in_force n t \<Longrightarrow> in_force (w_now w) t" for t by (auto simp: in_force_def split: option.splits)
    then show ?thesis using n no i ok' by (auto simp: lost_def active_iff)
  next
    fix s' assume a: "w' = w\<lparr>w_db := s'\<rparr>" "shrinks (w_now w) (tasks (w_db w)) (tasks s')"
    have "\<not> activeExecutionWhere k e (w_now w) t" if t: "t \<in> set (tasks s')" for t
    proof -
      obtain x where x: "x \<in> set (tasks (w_db w))" "tamed (w_now w) x t" using a(2) t unfolding shrinks_def by blast
      then have "activeExecutionWhere k e (w_now w) t \<Longrightarrow> activeExecutionWhere k e (w_now w) x"
        using tamed_keys [OF x(2)] tamed_status [OF x(2)] by (auto simp: active_iff tamed_def)
      then show ?thesis using no x(1) by blast
    qed
    then show ?thesis using a(1) i ok' by (auto simp: lost_def)
  next
    fix s' t assume a: "w' = w\<lparr>w_db := s'\<rparr>" "tasks s' = tasks (w_db w) @ [t]" "tk_token t = None"
    then show ?thesis using no i ok' by (auto simp: lost_def active_iff)
  next
    fix s' u assume a: "w' = w\<lparr>w_db := s', w_issued := u # w_issued w\<rparr>" "u \<notin> set (w_issued w)"
        "s' = w_db w \<or> (\<exists>t\<in>set (tasks (w_db w)). tk_status t = TK_pending \<and> free_for t (tasks (w_db w))
          \<and> s' = (w_db w)\<lparr>tasks := update_key tk_id (tk_id t) (started (w_now w) u) (tasks (w_db w))\<rparr>)"
    have "u \<noteq> e" using a(2) i by auto
    then have "\<not> activeExecutionWhere k e (w_now w) z" if "z \<in> set (tasks s')" for z
      using a(3) that no by (auto simp: active_iff elim!: set_update_keyE split: if_splits)
    then show ?thesis using a(1) i ok' by (auto simp: lost_def)
  qed
qed

interpretation lost_runs: invariant_system task_step "lost k e" for k e
  by unfold_locales (rule lost_step)

section \<open>Properties\<close>

text \<open>C14: A lost lease is never regained: once an execution does not hold the lease of its task, because it lapsed,
  the task was recovered, cancelled or ended, it will not hold it in any later state, whatever workers,
  requests and the clock do; its renewals, writes and its attempt to finish are refused and change nothing.\<close>

theorem lost_lease_stays_lost:
  assumes "task_step\<^sup>*\<^sup>* w w'" "tasks_ok w" "e \<in> set (w_issued w)"
    and "\<not> hasActiveInstanceTaskLease k e (w_now w) (w_db w)"
  shows "\<not> hasActiveInstanceTaskLease k e (w_now w') (w_db w')
    \<and> finishInstanceTaskExecution k e st u (w_now w') (w_db w') = (False, w_db w')
    \<and> renewInstanceTaskLease k e (w_now w') (w_db w') = (False, w_db w')
    \<and> updateInstanceTaskExecutionData k e f (w_now w') (w_db w') = (False, w_db w')"
proof -
  have "distinct (map tk_id (tasks (w_db w)))" using assms(2) by (simp add: tasks_ok_def)
  then have "lost k e w"
    using assms(2-4) by (auto simp: lost_def hasActiveInstanceTaskLease_def lease_count split: if_splits)
  then have "lost k e w'" using assms(1) lost_runs.inv_run by blast
  then have none: "\<forall>t\<in>set (tasks (w_db w')). \<not> activeExecutionWhere k e (w_now w') t" by (simp add: lost_def)
  then have "count_where (activeExecutionWhere k e (w_now w')) (tasks (w_db w')) = 0" by (simp add: count_where_0)
  moreover have "update_where (activeExecutionWhere k e (w_now w')) g (tasks (w_db w')) = tasks (w_db w')" for g
    using none by (rule update_where_id)
  ultimately show ?thesis
    by (simp add: hasActiveInstanceTaskLease_def finishInstanceTaskExecution_def renewInstanceTaskLease_def
        updateInstanceTaskExecutionData_def)
qed

text \<open>Task 1 of instance 7 on host 1, and what a worker does with it.\<close>

definition some_task :: "task_type \<Rightarrow> task_data" where
  "some_task ty = \<lparr>td_instanceId = 7, td_hostId = 1, td_userId = 1, td_taskType = ty, td_imageAlias = None, td_sshKeyId = None,
     td_customInitCommandIds = None, td_targetName = None, td_targetHostId = None, td_snapshotName = None\<rparr>"

definition task_instance :: instance_row where
  "task_instance = \<lparr>i_id = 7, i_incusId = ''c7'', i_name = ''c7'', i_userId = 1, i_hostId = 1, i_packagePlanId = None,
     i_billingMode = BM_package, i_status = IS_running, i_cleanupPending = False, i_portLimit = None, i_snapshotLimit = None,
     i_backupLimit = None, i_expiresAt = None, i_suspendedAt = None, i_suspendedBy = None, i_suspendReason = None,
     i_autoRenew = False, i_autoRenewAttempts = 0, i_lastAutoRenewAt = None, i_expiryNotifiedAt = None, i_version = 0,
     i_displayOrder = 0,
     i_packageId = None, i_billingPrice = None, i_billingCycle = None, i_cpu = 1, i_memory = 1, i_disk = 1,
     i_deletionPending = False, i_remoteDeleted = False, i_deletionMode = None, i_deletionValue = None, i_feeWaiver = False\<rparr>"

definition queued :: "task_type \<Rightarrow> db" where
  "queued ty = (case createInstanceTask 0 (some_task ty) (empty_db\<lparr>instances := [task_instance]\<rparr>) empty_db of
     Inl e \<Rightarrow> empty_db | Inr (t, s) \<Rightarrow> s)"

definition running :: "task_type \<Rightarrow> db" where
  "running ty = snd (claimNextTask 10 ''u'' True True False False 1 (queued ty))"

definition running_world :: "task_type \<Rightarrow> world" where
  "running_world ty = \<lparr>w_now = 10, w_issued = [''u''], w_db = running ty\<rparr>"

lemma running_world_ok: "tasks_ok (running_world TT_rebuild)"
proof -
  have "distinct (map tk_id (tasks (running TT_rebuild))) \<and> (\<forall>t\<in>set (tasks (running TT_rebuild)).
      tk_id t < task_seq (running TT_rebuild) \<and> tk_status t \<noteq> TK_pending \<and> tk_token t = Some ''u'')
      \<and> length (tasks (running TT_rebuild)) = 1"
    by code_simp
  then show ?thesis
    by (auto simp: tasks_ok_def running_world_def one_active_def heavy_alone_def length_Suc_conv)
qed

theorem lost_lease_stays_lost_witness:
  "\<exists>w. task_step\<^sup>*\<^sup>* ((running_world TT_rebuild)\<lparr>w_now := 120010\<rparr>) w \<and> w_now w = 200000
     \<and> finishInstanceTaskExecution 1 ''u'' TK_completed
         \<lparr>su_progress = None, su_error = None, su_startedAt = None, su_finishedAt = Some 5, su_newInstanceId = None\<rparr>
         (w_now w) (w_db w) = (False, w_db w)"
proof -
  let ?v = "(running_world TT_rebuild)\<lparr>w_now := 120010\<rparr>"
  let ?u = "\<lparr>su_progress = None, su_error = None, su_startedAt = None, su_finishedAt = Some 5, su_newInstanceId = None\<rparr>"
  have v: "tasks_ok ?v" using running_world_ok by (simp add: tasks_ok_def)
  have i: "''u'' \<in> set (w_issued ?v)" by (simp add: running_world_def)
  have "\<not> hasActiveInstanceTaskLease 1 ''u'' 120010 (running TT_rebuild)" by code_simp
  then have l: "\<not> hasActiveInstanceTaskLease 1 ''u'' (w_now ?v) (w_db ?v)" by (simp add: running_world_def)
  have st: "task_step ?v (?v\<lparr>w_now := 200000\<rparr>)" by (rule tick) simp
  from lost_lease_stays_lost [OF r_into_rtranclp [of task_step, OF st] v i l, of TK_completed ?u]
  show ?thesis using st by (intro exI [of _ "?v\<lparr>w_now := 200000\<rparr>"]) auto
qed

lemma count_le_1I:
  assumes "distinct ts" "\<And>t q. t \<in> set ts \<Longrightarrow> q \<in> set ts \<Longrightarrow> P t \<Longrightarrow> P q \<Longrightarrow> t = q"
  shows "count_where P ts \<le> 1"
proof -
  have "card (set (filter P ts)) \<le> 1"
    unfolding One_nat_def card_le_Suc0_iff_eq [OF finite_set] using assms(2) by auto
  then show ?thesis by (simp add: count_where_def flip: distinct_card [OF distinct_filter [OF assms(1)]])
qed

lemma filter_single:
  assumes "distinct ts" "t \<in> set ts" "P t" "\<And>q. q \<in> set ts \<Longrightarrow> P q \<Longrightarrow> q = t"
  shows "filter P ts = [t]"
proof -
  have "set (filter P ts) = {t}" using assms(2,3) by (auto dest: assms(4))
  moreover have "distinct (filter P ts)" using assms(1) by simp
  ultimately have "length (filter P ts) = 1" by (metis card_1_singleton_iff distinct_card One_nat_def)
  then obtain x where "filter P ts = [x]" by (auto simp: length_Suc_conv)
  with \<open>set (filter P ts) = {t}\<close> show ?thesis by simp
qed

text \<open>C13: Tasks exclude each other: after any run each instance has at most one active task, and asking for another
  one is answered with exactly that task; a host that processes a rebuild, clone, recreation or move
  processes no other task.\<close>

theorem tasks_exclusive:
  assumes "task_step\<^sup>*\<^sup>* w w'" "tasks_ok w"
  shows "count_where (\<lambda>t. tk_instanceId t = i \<and> active_status (tk_status t)) (tasks (w_db w')) \<le> 1
    \<and> (\<forall>t\<in>set (tasks (w_db w')). tk_instanceId t = td_instanceId data \<longrightarrow> active_status (tk_status t) \<longrightarrow>
         createInstanceTask now data (w_db w') (w_db w') = Inl (Task_conflict t))
    \<and> (\<forall>t\<in>set (tasks (w_db w')). tk_status t = TK_processing \<longrightarrow> tk_type t \<in> HEAVY_TASK_TYPES \<longrightarrow>
         count_where (\<lambda>q. tk_hostId q = tk_hostId t \<and> tk_status q = TK_processing) (tasks (w_db w')) = 1)"
proof -
  let ?ts = "tasks (w_db w')"
  have ok: "tasks_ok w'" using assms by (rule task_runs.inv_run)
  then have d: "distinct ?ts" and oa: "one_active ?ts" and ha: "heavy_alone ?ts" by (simp_all add: tasks_ok_def distinct_map)
  have "count_where (\<lambda>t. tk_instanceId t = i \<and> active_status (tk_status t)) ?ts \<le> 1"
    using d oa by (intro count_le_1I) (auto simp: one_active_def)
  moreover have "createInstanceTask now data (w_db w') (w_db w') = Inl (Task_conflict t)"
    if t: "t \<in> set ?ts" "tk_instanceId t = td_instanceId data" "active_status (tk_status t)" for t
  proof -
    have "filter (\<lambda>q. tk_instanceId q = td_instanceId data \<and> active_status (tk_status q)) ?ts = [t]"
      using oa t by (intro filter_single d) (auto simp: one_active_def)
    then have "getActiveTaskForInstance (td_instanceId data) (w_db w') = Some t"
      by (simp add: getActiveTaskForInstance_def newest_first_def)
    then show ?thesis using t by (auto simp: createInstanceTask_def)
  qed
  moreover have "count_where (\<lambda>q. tk_hostId q = tk_hostId t \<and> tk_status q = TK_processing) ?ts = 1"
    if t: "t \<in> set ?ts" "tk_status t = TK_processing" "tk_type t \<in> HEAVY_TASK_TYPES" for t
  proof -
    have "q = t" if "q \<in> set ?ts" "tk_hostId q = tk_hostId t \<and> tk_status q = TK_processing" for q
      using ha t that unfolding heavy_alone_def by metis
    then have "filter (\<lambda>q. tk_hostId q = tk_hostId t \<and> tk_status q = TK_processing) ?ts = [t]"
      using t by (intro filter_single d) auto
    then show ?thesis by (simp add: count_where_def)
  qed
  ultimately show ?thesis by blast
qed

theorem tasks_exclusive_witness:
  "\<exists>t\<in>set (tasks (running TT_rebuild)). tk_status t = TK_processing
     \<and> createInstanceTask 50 (some_task TT_stop) (running TT_rebuild) (running TT_rebuild) = Inl (Task_conflict t)"
proof -
  have "length (tasks (running TT_rebuild)) = 1 \<and> (\<forall>t\<in>set (tasks (running TT_rebuild)).
      tk_status t = TK_processing \<and> tk_instanceId t = 7)" by code_simp
  then obtain t where t: "tasks (running TT_rebuild) = [t]" "tk_status t = TK_processing" "tk_instanceId t = 7"
    by (auto simp: length_Suc_conv)
  from tasks_exclusive [OF rtranclp.rtrancl_refl [of task_step] running_world_ok, of 7 "some_task TT_stop" 50] t
  show ?thesis by (auto simp: running_world_def some_task_def active_status_def)
qed

text \<open>C33: A held lease is safe: while an execution holds its lease, recovery refuses the task for everybody and
  changes nothing, the clean-ups leave its row alone, and a renewal succeeds and keeps the lease for every moment of
  the next two minutes, so three missed heartbeats do not lose it.\<close>

theorem held_lease_safe:
  assumes "hasActiveInstanceTaskLease k e now s" "distinct (map tk_id (tasks s))" "find_key tk_id k (tasks s) = Some t"
  shows "recoverTask now admin force t s = (Lease_active, s)
    \<and> find_key tk_id k (tasks (cleanupTimeoutTasks now s)) = Some t
    \<and> find_key tk_id k (tasks (cleanupStaleTasks now s)) = Some t
    \<and> (\<exists>s'. renewInstanceTaskLease k e now s = (True, s')
         \<and> (\<forall>later. later < now + INSTANCE_TASK_LEASE_MS \<longrightarrow> hasActiveInstanceTaskLease k e later s'))
    \<and> now + 3 * INSTANCE_TASK_HEARTBEAT_MS < now + INSTANCE_TASK_LEASE_MS"
proof -
  note d = assms(2)
  have t: "t \<in> set (tasks s)" "tk_id t = k" using find_key_SomeD [OF assms(3)] by auto
  obtain q where q: "q \<in> set (tasks s)" "activeExecutionWhere k e now q"
    using assms(1) by (auto simp: hasActiveInstanceTaskLease_def lease_count [OF d] split: if_splits)
  then have "q = t" using d t by (auto simp: active_iff distinct_map inj_on_def)
  with q have a: "activeExecutionWhere k e now t" by simp
  then obtain l where l: "tk_status t = TK_processing" "tk_token t = Some e" "tk_leaseExpiresAt t = Some l" "now < l"
    by (auto simp: activeExecutionWhere_def split: option.splits)
  have rec: "recoverTask now admin force t s = (Lease_active, s)"
    using l by (simp add: recoverTask_def canRecoverInstanceTask_def active_status_def)
  have same: "find_key tk_id k (update_where P quarantine (tasks s)) = Some t" if "\<not> P t" for P
  proof -
    let ?us = "update_where P quarantine (tasks s)"
    have "distinct (map tk_id ?us)" using d by (simp add: map_update_where quarantine_def)
    moreover have "t \<in> set ?us" using t(1) that by (force simp: set_update_where)
    ultimately show ?thesis using find_key_distinct t(2) by metis
  qed
  let ?f = "\<lambda>t. t\<lparr>tk_leaseExpiresAt := Some (now + INSTANCE_TASK_LEASE_MS)\<rparr>"
  define s' where "s' = s\<lparr>tasks := update_where (activeExecutionWhere k e now) ?f (tasks s)\<rparr>"
  have ren: "renewInstanceTaskLease k e now s = (True, s')"
    using assms(1) by (simp add: renewInstanceTaskLease_def Let_def hasActiveInstanceTaskLease_def s'_def)
  have d': "distinct (map tk_id (tasks s'))" using d by (simp add: s'_def map_update_where)
  have "?f t \<in> set (tasks s')" using t(1) a by (force simp: s'_def set_update_where)
  moreover have "activeExecutionWhere k e later (?f t)" if "later < now + INSTANCE_TASK_LEASE_MS" for later
    using l t(2) that by (simp add: activeExecutionWhere_def)
  ultimately have "hasActiveInstanceTaskLease k e later s'" if "later < now + INSTANCE_TASK_LEASE_MS" for later
    using that unfolding hasActiveInstanceTaskLease_def lease_count [OF d'] by auto
  moreover have "find_key tk_id k (tasks (cleanupTimeoutTasks now s)) = Some t"
    "find_key tk_id k (tasks (cleanupStaleTasks now s)) = Some t"
    using l by (auto simp: cleanupTimeoutTasks_def cleanupStaleTasks_def lease_lapsed_def intro!: same)
  ultimately show ?thesis
    using rec ren by (auto simp: INSTANCE_TASK_HEARTBEAT_MS_def INSTANCE_TASK_LEASE_MS_def)
qed

theorem held_lease_safe_witness:
  "\<exists>t s'. renewInstanceTaskLease 1 ''u'' 20 (running TT_rebuild) = (True, s')
     \<and> hasActiveInstanceTaskLease 1 ''u'' 120019 s' \<and> recoverTask 20 True True t (running TT_rebuild) = (Lease_active, running TT_rebuild)"
proof -
  have h: "hasActiveInstanceTaskLease 1 ''u'' 20 (running TT_rebuild)" by code_simp
  have "find_key tk_id 1 (tasks (running TT_rebuild)) \<noteq> None" by code_simp
  then obtain t where t: "find_key tk_id 1 (tasks (running TT_rebuild)) = Some t" by blast
  have d: "distinct (map tk_id (tasks (running TT_rebuild)))" by code_simp
  show ?thesis using held_lease_safe [OF h d t, of True True] by (auto simp: INSTANCE_TASK_LEASE_MS_def)
qed

text \<open>A cancellation can hit a running task: the check that the task is pending and the write are separate
  statements, so when a worker claims the task between them, the execution that had just got its lease loses it
  although the lease is in force, and its result is dropped.\<close>

theorem cancel_races_claim:
  "cancel_read 1 (queued TT_rebuild)
   \<and> hasActiveInstanceTaskLease 1 ''u'' 11 (running TT_rebuild)
   \<and> (case cancel_write 11 1 (running TT_rebuild) of
        Inl e \<Rightarrow> False
      | Inr (t, s) \<Rightarrow> tk_status t = TK_failed \<and> tk_error t = Some M_cancelled_by_user \<and> tk_token t = Some ''u''
          \<and> \<not> hasActiveInstanceTaskLease 1 ''u'' 11 s)"
  by code_simp

end
