(* ===== verification/Suspension.thy ===== *)
theory Suspension
  imports Quota Strings
begin

text \<open>
  Suspending expired instances, lifting suspensions and claiming expired instances for deletion:
  \<open>server/src/db/instance-suspend.ts\<close>, and their deletion by the scheduler,
  \<open>processExpiryDelete\<close> of \<open>server/src/services/billing-scheduler.ts\<close>. Every writing transaction first takes the lock of the instance. The
  clock, the lock and the answer of the callback that stops the instance remotely (\<open>None\<close>: no
  callback) are arguments; days are 24 hours.
\<close>

section \<open>Suspending\<close>

text \<open>The callback runs inside the transaction: if it throws, nothing is written.\<close>

definition run_callback :: "unit outcome option \<Rightarrow> 'a \<times> db \<Rightarrow> ('a \<times> db) outcome" where
  "run_callback onSuspended r =
     (case onSuspended of Some (Inl e) \<Rightarrow> Inl e | _ \<Rightarrow> Inr r)"

definition before :: "int option \<Rightarrow> int \<Rightarrow> bool" where
  "before t now \<longleftrightarrow> (case t of None \<Rightarrow> False | Some x \<Rightarrow> x < now)"

definition half_suspended :: "int \<Rightarrow> instance_row \<Rightarrow> bool" where
  "half_suspended now i \<longleftrightarrow> i_status i = IS_suspended \<and> i_suspendReason i = Some ''expired''
     \<and> i_billingMode i = BM_package \<and> i_packagePlanId i \<noteq> None \<and> before (i_expiresAt i) now"

definition expired_running :: "int \<Rightarrow> instance_row \<Rightarrow> bool" where
  "expired_running now i \<longleftrightarrow> i_billingMode i = BM_package \<and> i_packagePlanId i \<noteq> None
     \<and> i_status i \<in> {IS_running, IS_stopped} \<and> before (i_expiresAt i) now"

definition suspend_row :: "int \<Rightarrow> int option \<Rightarrow> string \<Rightarrow> instance_row \<Rightarrow> instance_row" where
  "suspend_row now operator reason i = i\<lparr>i_status := IS_suspended, i_suspendedAt := Some now,
     i_suspendedBy := operator, i_suspendReason := Some reason, i_version := i_version i + 1\<rparr>"

definition suspendInstanceByExpiry ::
    "int \<Rightarrow> bool \<Rightarrow> int \<Rightarrow> unit outcome option \<Rightarrow> db \<Rightarrow> (bool \<times> db) outcome" where
  "suspendInstanceByExpiry now locked instanceId onSuspended s =
     (case advisoryTransactionLock locked INSTANCE_OPERATION_LOCK_NAMESPACE instanceId of Inl e \<Rightarrow> Inl e | Inr _ \<Rightarrow>
      if (case find_key i_id instanceId (instances s) of None \<Rightarrow> False | Some current \<Rightarrow> half_suspended now current)
      then run_callback onSuspended (False, s)
      else
        let P = (\<lambda>i. i_id i = instanceId \<and> expired_running now i);
            count = count_where P (instances s);
            s1 = s\<lparr>instances := update_where P (suspend_row now None ''expired'') (instances s)\<rparr> in
        if count \<noteq> 1 then Inr (False, s1) else run_callback onSuspended (True, s1))"

definition suspendInstanceManually ::
    "int \<Rightarrow> bool \<Rightarrow> int \<Rightarrow> int \<Rightarrow> string \<Rightarrow> db \<Rightarrow> (instance_row \<times> db) outcome" where
  "suspendInstanceManually now locked instanceId operatorId reason s =
     (case advisoryTransactionLock locked INSTANCE_OPERATION_LOCK_NAMESPACE instanceId of Inl e \<Rightarrow> Inl e | Inr _ \<Rightarrow>
      case find_key i_id instanceId (instances s) of
        None \<Rightarrow> Inl RecordNotFound
      | Some current \<Rightarrow>
          if i_status current = IS_deleted \<and> i_suspendReason current = Some ''expired''
          then Inl (Failure M_being_deleted)
          else
            let f = suspend_row now (Some operatorId) reason in
            Inr (f current, s\<lparr>instances := update_key i_id instanceId f (instances s)\<rparr>))"

definition unsuspend_row :: "instance_row \<Rightarrow> instance_row" where
  "unsuspend_row i = i\<lparr>i_status := IS_stopped, i_suspendedAt := None, i_suspendedBy := None,
     i_suspendReason := None, i_version := i_version i + 1\<rparr>"

definition unsuspendInstance :: "bool \<Rightarrow> int \<Rightarrow> db \<Rightarrow> (instance_row \<times> db) outcome" where
  "unsuspendInstance locked instanceId s =
     (case advisoryTransactionLock locked INSTANCE_OPERATION_LOCK_NAMESPACE instanceId of Inl e \<Rightarrow> Inl e | Inr _ \<Rightarrow>
      case find_key i_id instanceId (instances s) of
        None \<Rightarrow> Inl (Failure M_not_suspended)
      | Some current \<Rightarrow>
          if i_status current \<noteq> IS_suspended then Inl (Failure M_not_suspended)
          else Inr (unsuspend_row current, s\<lparr>instances := update_key i_id instanceId unsuspend_row (instances s)\<rparr>))"

section \<open>Queries\<close>

definition isInstanceSuspended :: "int \<Rightarrow> db \<Rightarrow> bool" where
  "isInstanceSuspended k s \<longleftrightarrow>
     (case find_key i_id k (instances s) of None \<Rightarrow> False | Some i \<Rightarrow> i_status i = IS_suspended)"

definition isExpiredSuspension :: "int \<Rightarrow> db \<Rightarrow> bool" where
  "isExpiredSuspension k s \<longleftrightarrow> (case find_key i_id k (instances s) of None \<Rightarrow> False
     | Some i \<Rightarrow> i_status i = IS_suspended \<and> i_suspendReason i = Some ''expired'')"

definition isManualSuspension :: "int \<Rightarrow> db \<Rightarrow> bool" where
  "isManualSuspension k s \<longleftrightarrow> (case find_key i_id k (instances s) of None \<Rightarrow> False
     | Some i \<Rightarrow> i_status i = IS_suspended \<and> i_suspendedBy i \<noteq> None)"

record suspend_info =
  si_isSuspended :: bool
  si_suspendedAt :: "int option"
  si_suspendedBy :: "int option"
  si_suspendReason :: "string option"
  si_isExpiredSuspension :: bool
  si_isManualSuspension :: bool

definition getSuspendInfo :: "int \<Rightarrow> db \<Rightarrow> suspend_info option" where
  "getSuspendInfo k s =
     (case find_key i_id k (instances s) of
        None \<Rightarrow> None
      | Some i \<Rightarrow>
          let isSuspended = (i_status i = IS_suspended) in
          Some \<lparr>si_isSuspended = isSuspended, si_suspendedAt = i_suspendedAt i, si_suspendedBy = i_suspendedBy i,
            si_suspendReason = i_suspendReason i,
            si_isExpiredSuspension = (isSuspended \<and> i_suspendReason i = Some ''expired''),
            si_isManualSuspension = (isSuspended \<and> i_suspendedBy i \<noteq> None)\<rparr>)"

definition hour_ms :: int where
  "hour_ms = 60 * 60 * 1000"

definition in_window :: "int option \<Rightarrow> int \<Rightarrow> int \<Rightarrow> bool" where
  "in_window t now threshold \<longleftrightarrow> (case t of None \<Rightarrow> False | Some x \<Rightarrow> x \<le> threshold \<and> x > now)"

definition getExpiringInstances :: "int \<Rightarrow> int \<Rightarrow> int option \<Rightarrow> db \<Rightarrow> instance_row list" where
  "getExpiringInstances now hoursBeforeExpiry notifiedWithin s =
     filter (\<lambda>i. in_window (i_expiresAt i) now (now + hoursBeforeExpiry * hour_ms)
       \<and> i_status i \<notin> {IS_suspended, IS_deleted}
       \<and> (case notifiedWithin of
            None \<Rightarrow> True
          | Some h \<Rightarrow> h = 0 \<or> i_expiryNotifiedAt i = None \<or> before (i_expiryNotifiedAt i) (now - h * hour_ms))) (instances s)"

definition getExpiredUnsuspendedInstances :: "int \<Rightarrow> db \<Rightarrow> instance_row list" where
  "getExpiredUnsuspendedInstances now s =
     filter (\<lambda>i. i_billingMode i = BM_package \<and> i_packagePlanId i \<noteq> None \<and> before (i_expiresAt i) now
       \<and> (i_status i \<in> {IS_running, IS_stopped}
          \<or> (i_status i = IS_suspended \<and> i_suspendReason i = Some ''expired''))) (instances s)"

definition update_instance :: "int \<Rightarrow> (instance_row \<Rightarrow> instance_row) \<Rightarrow> db \<Rightarrow> (unit \<times> db) outcome" where
  "update_instance k f s =
     (if find_key i_id k (instances s) = None then Inl RecordNotFound
      else Inr ((), s\<lparr>instances := update_key i_id k f (instances s)\<rparr>))"

definition updateExpiryNotifiedAt :: "int \<Rightarrow> int \<Rightarrow> db \<Rightarrow> (unit \<times> db) outcome" where
  "updateExpiryNotifiedAt now k s = update_instance k (\<lambda>i. i\<lparr>i_expiryNotifiedAt := Some now\<rparr>) s"

definition getAutoRenewInstances :: "int \<Rightarrow> int \<Rightarrow> db \<Rightarrow> instance_row list" where
  "getAutoRenewInstances now hoursBeforeExpiry s =
     filter (\<lambda>i. i_autoRenew i \<and> in_window (i_expiresAt i) now (now + hoursBeforeExpiry * hour_ms)
       \<and> i_status i \<in> {IS_running, IS_stopped}) (instances s)"

definition updateAutoRenewAttempt :: "int \<Rightarrow> int \<Rightarrow> int \<Rightarrow> bool \<Rightarrow> db \<Rightarrow> (unit \<times> db) outcome" where
  "updateAutoRenewAttempt now k attempt disableAutoRenew s =
     update_instance k (\<lambda>i. i\<lparr>i_autoRenewAttempts := attempt, i_lastAutoRenewAt := Some now,
       i_autoRenew := (if disableAutoRenew then False else i_autoRenew i)\<rparr>) s"

definition resetAutoRenewAttempts :: "int \<Rightarrow> db \<Rightarrow> (unit \<times> db) outcome" where
  "resetAutoRenewAttempts k s =
     update_instance k (\<lambda>i. i\<lparr>i_autoRenewAttempts := 0, i_lastAutoRenewAt := None\<rparr>) s"

definition getSuspendedInstancesOlderThan :: "int \<Rightarrow> int \<Rightarrow> db \<Rightarrow> instance_row list" where
  "getSuspendedInstancesOlderThan now days s =
     filter (\<lambda>i. i_status i \<in> {IS_suspended, IS_deleted} \<and> i_suspendReason i = Some ''expired''
       \<and> before (i_suspendedAt i) (now - days * 24 * hour_ms)) (instances s)"

section \<open>Claiming an expired instance for deletion\<close>

definition claimExpiredInstanceForDeletion ::
    "bool \<Rightarrow> int \<Rightarrow> int \<Rightarrow> int \<Rightarrow> db \<Rightarrow> (instance_row option \<times> db) outcome" where
  "claimExpiredInstanceForDeletion locked instanceId expectedVersion expectedSuspendedAt s =
     (case advisoryTransactionLock locked INSTANCE_OPERATION_LOCK_NAMESPACE instanceId of Inl e \<Rightarrow> Inl e | Inr _ \<Rightarrow>
      case find_key i_id instanceId (instances s) of
        None \<Rightarrow> Inr (None, s)
      | Some current \<Rightarrow>
          if i_suspendedAt current \<noteq> Some expectedSuspendedAt then Inr (None, s)
          else if i_status current = IS_deleted \<and> i_suspendReason current = Some ''expired''
            \<and> i_version current = expectedVersion
          then Inr (Some current, s)
          else if i_status current \<noteq> IS_suspended \<or> i_suspendReason current \<noteq> Some ''expired''
            \<or> i_version current \<noteq> expectedVersion
          then Inr (None, s)
          else
            let P = (\<lambda>i. i_id i = instanceId \<and> i_status i = IS_suspended \<and> i_suspendReason i = Some ''expired''
                  \<and> i_version i = expectedVersion \<and> i_suspendedAt i = Some expectedSuspendedAt);
                claimed = count_where P (instances s);
                s1 = s\<lparr>instances := update_where P
                  (\<lambda>i. i\<lparr>i_status := IS_deleted, i_version := i_version i + 1\<rparr>) (instances s)\<rparr> in
            if claimed \<noteq> 1 then Inr (None, s1)
            else Inr (find_key i_id instanceId (instances s1), s1))"

definition restoreExpiredInstanceDeletionClaim :: "bool \<Rightarrow> int \<Rightarrow> int \<Rightarrow> db \<Rightarrow> (bool \<times> db) outcome" where
  "restoreExpiredInstanceDeletionClaim locked instanceId claimVersion s =
     (case advisoryTransactionLock locked INSTANCE_OPERATION_LOCK_NAMESPACE instanceId of Inl e \<Rightarrow> Inl e | Inr _ \<Rightarrow>
      let P = (\<lambda>i. i_id i = instanceId \<and> i_status i = IS_deleted \<and> i_suspendReason i = Some ''expired''
            \<and> i_version i = claimVersion) in
      Inr (count_where P (instances s) = 1,
        s\<lparr>instances := update_where P (\<lambda>i. i\<lparr>i_status := IS_suspended, i_version := i_version i + 1\<rparr>) (instances s)\<rparr>))"

section \<open>Deleting an expired instance\<close>

text \<open>
  The scheduler claims a listed instance, deletes it remotely, then deletes the row and releases its
  resources; if anything fails after the claim it gives the claim back. Errors are logged, never thrown.
  Arguments: whether each of the three transactions gets the lock, whether the client of the host
  can be built, what the remote deletion answers (\<open>None\<close>: done, \<open>Some m\<close>: an error with that
  message), and the amounts to release, which are columns of the instance.
\<close>

fun text_includes :: "string \<Rightarrow> string \<Rightarrow> bool" where
  "text_includes [] p = (p = [])"
| "text_includes (c # cs) p = (take (length p) (c # cs) = p \<or> text_includes cs p)"

definition already_absent :: "string \<Rightarrow> bool" where
  "already_absent m = text_includes (toLowerCase m) ''not found''"

definition restore_claim :: "bool \<Rightarrow> int \<Rightarrow> int \<Rightarrow> db \<Rightarrow> db" where
  "restore_claim locked instanceId claimVersion s =
     (case restoreExpiredInstanceDeletionClaim locked instanceId claimVersion s of Inl _ \<Rightarrow> s | Inr (_, s') \<Rightarrow> s')"

definition processExpiryDelete ::
    "bool \<Rightarrow> bool \<Rightarrow> bool \<Rightarrow> bool \<Rightarrow> string option \<Rightarrow> (instance_row \<Rightarrow> rollback) \<Rightarrow> instance_row \<Rightarrow> db \<Rightarrow> db" where
  "processExpiryDelete claimLock deleteLock restoreLock clientOk incusError amounts inst s =
     (case i_suspendedAt inst of
        None \<Rightarrow> s
      | Some suspendedAt \<Rightarrow>
      case claimExpiredInstanceForDeletion claimLock (i_id inst) (i_version inst) suspendedAt s of
        Inl _ \<Rightarrow> s
      | Inr (None, s1) \<Rightarrow> s1
      | Inr (Some claimed, s1) \<Rightarrow>
          if find_key h_id (i_hostId claimed) (hosts s1) = None \<or> \<not> clientOk
            \<or> (case incusError of None \<Rightarrow> False | Some m \<Rightarrow> \<not> already_absent m)
          then restore_claim restoreLock (i_id inst) (i_version claimed) s1
          else case deleteExpiredInstanceAndRollbackResources deleteLock (i_id claimed) (i_version claimed)
              (the (i_suspendedAt claimed)) (amounts claimed) s1 of
            Inl _ \<Rightarrow> restore_claim restoreLock (i_id inst) (i_version claimed) s1
          | Inr (_, s2) \<Rightarrow> s2)"

definition SUSPEND_AFTER_DELETE_DAYS :: int where
  "SUSPEND_AFTER_DELETE_DAYS = 3"

text \<open>The answers the environment gives for one instance.\<close>

record deletion_env =
  de_claimLock :: bool
  de_deleteLock :: bool
  de_restoreLock :: bool
  de_clientOk :: bool
  de_incusError :: "string option"

definition executeExpiryDelete :: "int \<Rightarrow> (int \<Rightarrow> deletion_env) \<Rightarrow> (instance_row \<Rightarrow> rollback) \<Rightarrow> db \<Rightarrow> db" where
  "executeExpiryDelete now env amounts s =
     foldl (\<lambda>s i. let e = env (i_id i) in
         processExpiryDelete (de_claimLock e) (de_deleteLock e) (de_restoreLock e) (de_clientOk e) (de_incusError e)
           amounts i s)
       s (filter (\<lambda>i. i_suspendReason i = Some ''expired'') (getSuspendedInstancesOlderThan now SUSPEND_AFTER_DELETE_DAYS s))"

section \<open>The life of an instance\<close>

definition lifecycle :: "instance_row \<Rightarrow> instance_status \<times> int option \<times> int option \<times> string option" where
  "lifecycle i = (i_status i, i_suspendedAt i, i_suspendedBy i, i_suspendReason i)"

inductive life_step :: "db \<Rightarrow> db \<Rightarrow> bool" where
  expiry: "suspendInstanceByExpiry now l k cb s = Inr (b, s') \<Longrightarrow> life_step s s'"
| manual: "suspendInstanceManually now l k who reason s = Inr (i, s') \<Longrightarrow> life_step s s'"
| lift: "unsuspendInstance l k s = Inr (i, s') \<Longrightarrow> life_step s s'"
| claim_deletion: "claimExpiredInstanceForDeletion l k v t s = Inr (c, s') \<Longrightarrow> life_step s s'"
| restore: "restoreExpiredInstanceDeletionClaim l k v s = Inr (b, s') \<Longrightarrow> life_step s s'"
| delete: "deleteExpiredInstanceAndRollbackResources l k v t a s = Inr (b, s') \<Longrightarrow> life_step s s'"
| retry: "claimInstanceAndReserveResources l k u r s = Inr (b, s') \<Longrightarrow> life_step s s'"
| notified: "updateExpiryNotifiedAt now k s = Inr (u, s') \<Longrightarrow> life_step s s'"
| attempt: "updateAutoRenewAttempt now k n off s = Inr (u, s') \<Longrightarrow> life_step s s'"
| reset: "resetAutoRenewAttempts k s = Inr (u, s') \<Longrightarrow> life_step s s'"

text \<open>A row grows into another: the same row of the table, with a higher version or an unchanged life.\<close>

definition grows :: "instance_row \<Rightarrow> instance_row \<Rightarrow> bool" where
  "grows i j \<longleftrightarrow> i_id j = i_id i \<and> (i_version i < i_version j \<or> (i_version j = i_version i \<and> lifecycle j = lifecycle i))"

definition grown :: "instance_row list \<Rightarrow> instance_row list \<Rightarrow> bool" where
  "grown is js \<longleftrightarrow> distinct (map i_id js) \<and> (\<forall>j\<in>set js. \<exists>i\<in>set is. grows i j)"

lemma grows_refl [simp]: "grows i i"
  by (simp add: grows_def)

lemma grows_trans: "grows i j \<Longrightarrow> grows j k \<Longrightarrow> grows i k"
  by (auto simp: grows_def)

lemma grown_refl: "distinct (map i_id is) \<Longrightarrow> grown is is"
  by (auto simp: grown_def intro!: bexI)

lemma grown_update:
  assumes "distinct (map i_id is)" "\<And>i. grows i (f i)"
  shows "grown is (update_where P f is)"
proof -
  have "map i_id (update_where P f is) = map i_id is" using assms(2) by (intro map_update_where) (simp add: grows_def)
  then show ?thesis using assms by (auto simp: grown_def elim!: set_update_whereE intro!: bexI)
qed

lemma grown_update_key:
  "distinct (map i_id is) \<Longrightarrow> (\<And>i. grows i (f i)) \<Longrightarrow> grown is (update_key key k f is)"
  unfolding update_key_def by (rule grown_update)

lemma grown_delete: "distinct (map i_id is) \<Longrightarrow> grown is (delete_where P is)"
  by (auto simp: grown_def delete_where_def distinct_map_filter intro!: bexI)

lemma grows_rows [simp]:
  "grows i (suspend_row now who reason i)" "grows i (unsuspend_row i)"
  "grows i (i\<lparr>i_status := st, i_version := i_version i + 1\<rparr>)"
  "grows i (i\<lparr>i_expiryNotifiedAt := t\<rparr>)"
  "grows i (i\<lparr>i_autoRenewAttempts := n, i_lastAutoRenewAt := t, i_autoRenew := b\<rparr>)"
  "grows i (i\<lparr>i_autoRenewAttempts := n, i_lastAutoRenewAt := t\<rparr>)"
  by (simp_all add: grows_def suspend_row_def unsuspend_row_def lifecycle_def)

lemma callback_Inr: "run_callback cb r = Inr x \<Longrightarrow> r = x"
  by (auto simp: run_callback_def split: option.splits sum.splits)

lemma release_instances: "decrementHostResourceCounters a s = Inr (u, s') \<Longrightarrow> instances s' = instances s"
  by (auto simp: decrementHostResourceCounters_def Let_def split: option.splits if_splits)

lemma update_instance_grown:
  "update_instance k f s = Inr (u, s') \<Longrightarrow> distinct (map i_id (instances s)) \<longrightarrow> (\<forall>i. grows i (f i))
     \<longrightarrow> grown (instances s) (instances s')"
  by (auto simp: update_instance_def intro!: grown_update_key split: if_split_asm)

lemma life_step_grown:
  assumes "life_step s s'" "distinct (map i_id (instances s))"
  shows "grown (instances s) (instances s')"
  using assms(1)
proof (cases rule: life_step.cases)
  case (expiry now l k cb b)
  then show ?thesis using assms(2)
    by (auto simp: suspendInstanceByExpiry_def Let_def intro!: grown_refl grown_update
        dest!: callback_Inr split: sum.split_asm if_split_asm)
next
  case (manual now l k who reason i)
  then show ?thesis using assms(2)
    by (auto simp: suspendInstanceManually_def Let_def intro!: grown_update_key split: sum.split_asm option.split_asm if_split_asm)
next
  case (lift l k i)
  then show ?thesis using assms(2)
    by (auto simp: unsuspendInstance_def intro!: grown_update_key split: sum.split_asm option.split_asm if_split_asm)
next
  case (claim_deletion l k v t c)
  then show ?thesis using assms(2)
    by (auto simp: claimExpiredInstanceForDeletion_def Let_def intro!: grown_refl grown_update
        split: sum.split_asm option.split_asm if_split_asm)
next
  case (restore l k v b)
  then show ?thesis using assms(2)
    by (auto simp: restoreExpiredInstanceDeletionClaim_def Let_def intro!: grown_update split: sum.split_asm)
next
  case (delete l k v t a b)
  then show ?thesis using assms(2)
    by (auto simp: deleteExpiredInstanceAndRollbackResources_def Let_def intro!: grown_delete
        dest!: release_instances split: sum.split_asm if_split_asm)
next
  case (retry l k u r b)
  then show ?thesis using assms(2)
    by (auto simp: claimInstanceAndReserveResources_def Let_def intro!: grown_update
        dest!: reserve_instances split: sum.split_asm if_split_asm)
next
  case (notified now k u)
  then show ?thesis using assms(2) by (auto simp: updateExpiryNotifiedAt_def dest!: update_instance_grown)
next
  case (attempt now k n off u)
  then show ?thesis using assms(2) by (auto simp: updateAutoRenewAttempt_def dest!: update_instance_grown)
next
  case (reset k u)
  then show ?thesis using assms(2) by (auto simp: resetAutoRenewAttempts_def dest!: update_instance_grown)
qed

text \<open>The rows that grew out of the rows of a fixed table.\<close>

lemma grown_trans: "grown is js \<Longrightarrow> grown js ks \<Longrightarrow> grown is ks"
  unfolding grown_def using grows_trans by meson

interpretation life_runs: invariant_system life_step "\<lambda>s. grown is (instances s)" for "is"
proof unfold_locales
  fix s s' assume a: "life_step s s'" "grown is (instances s)"
  then have "distinct (map i_id (instances s))" by (simp add: grown_def)
  with a show "grown is (instances s')" using life_step_grown grown_trans by blast
qed






lemma find_key_delete [simp]: "find_key i_id k (delete_where (\<lambda>i. i_id i = k) is) = None"
  by (auto simp: find_key_None delete_where_def)



section \<open>Properties\<close>

text \<open>Versions track the life of an instance: along any run of suspensions, their lifting, claims for deletion,
  restored claims, retries, deletions and book-keeping the version of an instance never decreases, and as long as it
  is the same nothing of its state and its suspension has changed, so whoever acts on a version
  acts on what was read with it.\<close>

theorem versions_track_life:
  assumes "life_step\<^sup>*\<^sup>* s s'" "distinct (map i_id (instances s))"
    and "i \<in> set (instances s)" "j \<in> set (instances s')" "i_id j = i_id i"
  shows "i_version i \<le> i_version j \<and> (i_version j = i_version i \<longrightarrow> lifecycle j = lifecycle i)"
proof -
  have "grown (instances s) (instances s')"
    using life_runs.inv_run [OF assms(1) grown_refl [OF assms(2)]] .
  then obtain x where "x \<in> set (instances s)" "grows x j" using assms(4) by (auto simp: grown_def)
  moreover from this have "x = i" using assms(2,3,5) by (auto simp: grows_def distinct_map inj_on_def)
  ultimately show ?thesis by (auto simp: grows_def)
qed

text \<open>An instance that expired at 100.\<close>

definition paid_instance :: "int \<Rightarrow> instance_row" where
  "paid_instance k = \<lparr>i_id = k, i_incusId = ''c'', i_name = ''c'', i_userId = 1, i_hostId = 1, i_packagePlanId = Some 3,
     i_billingMode = BM_package, i_status = IS_running, i_cleanupPending = False, i_portLimit = None, i_snapshotLimit = None,
     i_backupLimit = None, i_expiresAt = Some 100, i_suspendedAt = None, i_suspendedBy = None, i_suspendReason = None,
     i_autoRenew = False, i_autoRenewAttempts = 0, i_lastAutoRenewAt = None, i_expiryNotifiedAt = None, i_version = 0,
     i_displayOrder = 0,
     i_packageId = None, i_billingPrice = None, i_billingCycle = None, i_cpu = 1, i_memory = 1, i_disk = 1,
     i_deletionPending = False, i_remoteDeleted = False, i_deletionMode = None, i_deletionValue = None, i_feeWaiver = False\<rparr>"

definition life_db :: db where
  "life_db = empty_db\<lparr>instances := [paid_instance 5, paid_instance 6]\<rparr>"

theorem versions_track_life_witness:
  "\<exists>s' j. life_step\<^sup>*\<^sup>* life_db s' \<and> j \<in> set (instances s') \<and> i_id j = 5 \<and> i_status j = IS_suspended
     \<and> i_version (paid_instance 5) \<le> i_version j"
proof -
  have c: "(case suspendInstanceByExpiry 200 True 5 None life_db of Inl e \<Rightarrow> False | Inr (b, s) \<Rightarrow>
      b \<and> instances s = [suspend_row 200 None ''expired'' (paid_instance 5), paid_instance 6])" by code_simp
  then obtain s where s: "suspendInstanceByExpiry 200 True 5 None life_db = Inr (True, s)"
    "instances s = [suspend_row 200 None ''expired'' (paid_instance 5), paid_instance 6]"
    by (auto split: sum.split_asm)
  have run: "life_step\<^sup>*\<^sup>* life_db s" using expiry [OF s(1)] by (rule r_into_rtranclp)
  let ?j = "suspend_row 200 None ''expired'' (paid_instance 5)"
  have "i_version (paid_instance 5) \<le> i_version ?j"
    using versions_track_life [OF run, of "paid_instance 5" ?j] s(2)
    by (simp add: life_db_def suspend_row_def paid_instance_def)
  then show ?thesis using run s(2) by (intro exI [of _ s] exI [of _ ?j]) (simp add: suspend_row_def paid_instance_def)
qed

text \<open>The scheduler's list of expired instances and the suspension agree: a listed instance is
  suspended as expired (or, if an earlier run already did, stopped again), one that is not listed is left alone,
  and if stopping it remotely fails nothing is written.\<close>

theorem expiry_suspension:
  assumes "distinct (map i_id (instances s))" "find_key i_id k (instances s) = Some i"
  shows "suspendInstanceByExpiry now True k onSuspended s =
    (if i \<notin> set (getExpiredUnsuspendedInstances now s) then Inr (False, s)
     else case onSuspended of
       Some (Inl e) \<Rightarrow> Inl e
     | _ \<Rightarrow> if i_status i = IS_suspended then Inr (False, s)
          else Inr (True, s\<lparr>instances := update_key i_id k (suspend_row now None ''expired'') (instances s)\<rparr>))"
proof -
  have m: "i \<in> set (instances s)" "i_id i = k" using find_key_SomeD [OF assms(2)] by auto
  have listed: "i \<in> set (getExpiredUnsuspendedInstances now s) \<longleftrightarrow> half_suspended now i \<or> expired_running now i"
    using m by (auto simp: getExpiredUnsuspendedInstances_def half_suspended_def expired_running_def)
  have n: "count_where (\<lambda>i. i_id i = k \<and> expired_running now i) (instances s) = (if expired_running now i then 1 else 0)"
    using assms(2) by (simp add: count_key [OF assms(1)])
  show ?thesis
  proof (cases "expired_running now i")
    case True
    then have "i_status i \<noteq> IS_suspended" "\<not> half_suspended now i" by (auto simp: expired_running_def half_suspended_def)
    then show ?thesis using True n listed assms(2) update_where_only [OF assms, of "expired_running now"]
      by (auto simp: suspendInstanceByExpiry_def Let_def run_callback_def split: option.splits sum.splits)
  next
    case False
    then have "count_where (\<lambda>i. i_id i = k \<and> expired_running now i) (instances s) = 0" using n by simp
    then have "update_where (\<lambda>i. i_id i = k \<and> expired_running now i) f (instances s) = instances s" for f
      by (intro update_where_id) (simp add: count_where_0)
    then show ?thesis using False n listed assms(2)
      by (auto simp: suspendInstanceByExpiry_def Let_def run_callback_def half_suspended_def split: option.splits sum.splits)
  qed
qed

theorem expiry_suspension_witness:
  "suspendInstanceByExpiry 200 True 5 None life_db
     = Inr (True, life_db\<lparr>instances := [suspend_row 200 None ''expired'' (paid_instance 5), paid_instance 6]\<rparr>)
   \<and> suspendInstanceByExpiry 100 True 5 None life_db = Inr (False, life_db)"
proof -
  have d: "distinct (map i_id (instances life_db))" and f: "find_key i_id 5 (instances life_db) = Some (paid_instance 5)"
    by (simp_all add: life_db_def paid_instance_def)
  show ?thesis
    using expiry_suspension [OF d f, of 200 None] expiry_suspension [OF d f, of 100 None]
    by (simp add: getExpiredUnsuspendedInstances_def life_db_def paid_instance_def before_def)
qed




definition small_amounts :: "instance_row \<Rightarrow> rollback" where
  "small_amounts i = \<lparr>ro_hostId = i_hostId i, ro_cpu = 1, ro_memory = 1, ro_disk = 1, ro_portCount = 0\<rparr>"


text \<open>A paid-up instance on a host, and an environment in which nothing fails.\<close>

definition paid_up_db :: db where
  "paid_up_db = empty_db\<lparr>instances := [(paid_instance 5)\<lparr>i_expiresAt := Some 1000000000000\<rparr>],
     hosts := [\<lparr>h_id = 1, h_userId = 2, h_natPortStart = None, h_natPortEnd = None, h_cpuUsed = 5, h_memoryUsed = 5,
       h_diskUsed = 5, h_natPortsUsed = 0, h_cpuAllowanceMax = 0, h_memoryMax = 0, h_enableResourcePool = False\<rparr>]\<rparr>"

definition untroubled :: deletion_env where
  "untroubled = \<lparr>de_claimLock = True, de_deleteLock = True, de_restoreLock = True, de_clientOk = True, de_incusError = None\<rparr>"

text \<open>Counterexample: an administrator may give any text as the reason of a suspension, and the deletion of expired
  instances goes by that text alone. A paid-up instance suspended by hand with the reason \<open>expired\<close> is listed by
  the scheduler three days later and deleted, although it is not expired and the suspension is a manual one.\<close>

theorem manual_reason_expired_deleted:
  "case suspendInstanceManually 0 True 5 9 ''expired'' paid_up_db of
     Inl _ \<Rightarrow> False
   | Inr (_, s) \<Rightarrow>
       isManualSuspension 5 s
       \<and> getExpiredUnsuspendedInstances 259200001 s = []
       \<and> find_key i_id 5 (instances (executeExpiryDelete 259200001 (\<lambda>_. untroubled) small_amounts s)) = None"
  by code_simp

end
