(* ===== verification/Transfers.thy ===== *)
theory Transfers
  imports Balance
begin

text \<open>
  Handing an instance to another user: \<open>server/src/db/transfer-safety.ts\<close>, \<open>server/src/db/transfers.ts\<close>, the accept
  and push handlers of \<open>server/src/routes/transfers.ts\<close> up to the change of ownership, and the branch of
  \<open>server/src/services/status-scheduler.ts\<close> that marks an instance missing on its host as deleted.
  Each operation is one serializable transaction; the clock, the claim tokens and whether an advisory lock is granted
  are arguments. A fee is a number of the configuration, which admits at most two decimals.
\<close>

section \<open>Fees and claims\<close>

definition USER_BALANCE_LOCK_NAMESPACE :: int where
  "USER_BALANCE_LOCK_NAMESPACE = 4110"

definition open_transfer :: "int \<Rightarrow> transfer \<Rightarrow> bool" where
  "open_transfer instanceId t \<longleftrightarrow> tf_instanceId t = instanceId \<and> tf_status t \<in> {TS_pending, TS_processing}"

definition assertCurrentInstanceOwner :: "int \<Rightarrow> int \<Rightarrow> db \<Rightarrow> unit outcome" where
  "assertCurrentInstanceOwner instanceId fromUserId s =
     (if find_where (\<lambda>i. i_id i = instanceId \<and> i_userId i = fromUserId) (instances s) = None
      then Inl (Error ''TRANSFER_INSTANCE_OWNER_CHANGED'') else Inr ())"

definition debitTransferFee :: "bool \<Rightarrow> int \<Rightarrow> int \<Rightarrow> int \<Rightarrow> string \<Rightarrow> rat \<Rightarrow> db \<Rightarrow> (unit \<times> db) outcome" where
  "debitTransferFee locked transferId userId instanceId instanceName fee s =
     (case advisoryTransactionLock locked USER_BALANCE_LOCK_NAMESPACE userId of Inl e \<Rightarrow> Inl e | Inr _ \<Rightarrow>
      case find_key u_id userId (users s) of
        None \<Rightarrow> Inl (Error ''USER_NOT_FOUND'')
      | Some user \<Rightarrow>
          if u_balance user < fee then Inl (Error ''INSUFFICIENT_BALANCE'')
          else let balanceAfter = u_balance user - fee in
            Inr ((), add_log (mk_log userId BL_transfer_fee (- fee) (u_balance user) balanceAfter None
                (Some instanceId) (Some transferId) (Some (R_transfer_instance_fee instanceName)))
              (put_balance userId balanceAfter s)))"

record create_input =
  cr_instanceId :: int
  cr_fromUserId :: int
  cr_toUserId :: int
  cr_remark_text :: "string option"
  cr_fee :: rat
  cr_instanceName :: string

text \<open>The row that \<open>instanceTransfer.create\<close> inserts; the fee column is \<open>DECIMAL(10,2)\<close>.\<close>

definition new_transfer :: "create_input \<Rightarrow> rat option \<Rightarrow> int \<Rightarrow> transfer" where
  "new_transfer d fee k = \<lparr>tf_id = k, tf_instanceId = cr_instanceId d, tf_fromUserId = cr_fromUserId d,
     tf_toUserId = cr_toUserId d, tf_status = TS_pending, tf_remark = cr_remark_text d, tf_rejectReason = None,
     tf_fee = map_option (column 2) fee, tf_claimToken = None, tf_claimExpiresAt = None, tf_phase = None,
     tf_oldIncusId = None, tf_newIncusId = None, tf_instanceVersion = None, tf_cleanup = None, tf_refundedAt = None,
     tf_acceptedAt = None, tf_rejectedAt = None, tf_cancelledAt = None\<rparr>"

definition insert_transfer :: "create_input \<Rightarrow> rat option \<Rightarrow> db \<Rightarrow> db" where
  "insert_transfer d fee s = s\<lparr>transfers := transfers s @ [new_transfer d fee (transfer_seq s)],
     transfer_seq := transfer_seq s + 1\<rparr>"

text \<open>
  The retry loops around the two creating transactions end in their first round: the transaction
  returns a value or throws, and what it throws is not caught.
\<close>

definition createTransferWithFee :: "bool \<Rightarrow> bool \<Rightarrow> create_input \<Rightarrow> db \<Rightarrow> ((int \<times> bool) \<times> db) outcome" where
  "createTransferWithFee opLock balanceLock d s =
     (case advisoryTransactionLock opLock INSTANCE_OPERATION_LOCK_NAMESPACE (cr_instanceId d) of Inl e \<Rightarrow> Inl e | Inr _ \<Rightarrow>
      case assertCurrentInstanceOwner (cr_instanceId d) (cr_fromUserId d) s of Inl e \<Rightarrow> Inl e | Inr _ \<Rightarrow>
      if find_where (open_transfer (cr_instanceId d)) (transfers s) \<noteq> None then Inl (Error ''TRANSFER_ALREADY_PENDING'')
      else case assertCurrentInstanceOwner (cr_instanceId d) (cr_fromUserId d) s of Inl e \<Rightarrow> Inl e | Inr _ \<Rightarrow>
      let transferId = transfer_seq s;
          s1 = insert_transfer d (if cr_fee d > 0 then Some (cr_fee d) else None) s in
      if cr_fee d > 0
      then case debitTransferFee balanceLock transferId (cr_fromUserId d) (cr_instanceId d) (cr_instanceName d) (cr_fee d) s1 of
          Inl e \<Rightarrow> Inl e
        | Inr (_, s2) \<Rightarrow> Inr ((transferId, True), s2)
      else Inr ((transferId, False), s1))"

definition createTransfer :: "bool \<Rightarrow> create_input \<Rightarrow> db \<Rightarrow> (int \<times> db) outcome" where
  "createTransfer opLock d s =
     (case advisoryTransactionLock opLock INSTANCE_OPERATION_LOCK_NAMESPACE (cr_instanceId d) of Inl e \<Rightarrow> Inl e | Inr _ \<Rightarrow>
      case assertCurrentInstanceOwner (cr_instanceId d) (cr_fromUserId d) s of Inl e \<Rightarrow> Inl e | Inr _ \<Rightarrow>
      if find_where (open_transfer (cr_instanceId d)) (transfers s) \<noteq> None then Inl (Error ''TRANSFER_ALREADY_PENDING'')
      else Inr (transfer_seq s, insert_transfer d None s))"

definition children_of :: "int \<Rightarrow> child list \<Rightarrow> int list" where
  "children_of instanceId t = map ch_id (filter (\<lambda>c. ch_parent c = instanceId) t)"

definition cleanup_of :: "int \<Rightarrow> db \<Rightarrow> cleanup_snapshot" where
  "cleanup_of instanceId s = \<lparr>sn_proxySiteIds = children_of instanceId (proxy_sites s),
     sn_portMappingIds = children_of instanceId (port_mappings s), sn_snapshotIds = children_of instanceId (snapshots s),
     sn_backupIds = children_of instanceId (backups s), sn_snapshotPolicyIds = children_of instanceId (snapshot_policies s),
     sn_backupPolicyIds = children_of instanceId (backup_policies s)\<rparr>"

datatype actor_role = Sender | Receiver

definition acts_as :: "actor_role \<Rightarrow> int \<Rightarrow> transfer \<Rightarrow> bool" where
  "acts_as role actor t \<longleftrightarrow> (case role of Receiver \<Rightarrow> tf_toUserId t = actor | Sender \<Rightarrow> tf_fromUserId t = actor)"

record claim_input =
  ci_transferId :: int
  ci_instance :: int
  ci_actorUserId :: int
  ci_actorRole :: actor_role
  ci_claimToken :: string
  ci_newIncusId :: string
  ci_leaseUntil :: int

definition claim_row :: "claim_input \<Rightarrow> instance_row \<Rightarrow> cleanup_snapshot \<Rightarrow> transfer \<Rightarrow> transfer" where
  "claim_row d i snapshot t = t\<lparr>tf_status := TS_processing, tf_claimToken := Some (ci_claimToken d),
     tf_claimExpiresAt := Some (ci_leaseUntil d), tf_phase := Some ''claimed'', tf_oldIncusId := Some (i_incusId i),
     tf_newIncusId := Some (ci_newIncusId d), tf_instanceVersion := Some (i_version i), tf_cleanup := Some snapshot\<rparr>"

definition claimTransferTransaction ::
    "bool \<Rightarrow> claim_input \<Rightarrow> db \<Rightarrow> ((string \<times> int \<times> cleanup_snapshot) \<times> db) outcome" where
  "claimTransferTransaction locked d s =
     (case advisoryTransactionLock locked INSTANCE_OPERATION_LOCK_NAMESPACE (ci_instance d) of Inl e \<Rightarrow> Inl e | Inr _ \<Rightarrow>
      if count_where (\<lambda>k. tk_instanceId k = ci_instance d \<and> tk_status k \<in> {TK_pending, TK_processing}) (tasks s) > 0
      then Inl (Error ''TRANSFER_INSTANCE_TASK_ACTIVE'')
      else case find_where (\<lambda>i. i_id i = ci_instance d \<and> i_status i \<noteq> IS_deleted) (instances s) of
        None \<Rightarrow> Inl (Error ''TRANSFER_INSTANCE_OWNER_CHANGED'')
      | Some i \<Rightarrow>
          let snapshot = cleanup_of (ci_instance d) s;
              P = (\<lambda>t. tf_id t = ci_transferId d \<and> tf_instanceId t = ci_instance d \<and> tf_status t = TS_pending
                    \<and> acts_as (ci_actorRole d) (ci_actorUserId d) t) in
          if count_where P (transfers s) \<noteq> 1 then Inl (Error ''TRANSFER_NOT_PENDING'')
          else if \<exists>t\<in>set (transfers s). \<not> P t \<and> tf_claimToken t = Some (ci_claimToken d) then Inl UniqueViolation
          else Inr ((i_incusId i, i_version i, snapshot),
            s\<lparr>transfers := update_where P (claim_row d i snapshot) (transfers s)\<rparr>))"

definition held_by :: "int \<Rightarrow> string \<Rightarrow> transfer \<Rightarrow> bool" where
  "held_by transferId token t \<longleftrightarrow> tf_id t = transferId \<and> tf_status t = TS_processing \<and> tf_claimToken t = Some token"

definition markTransferPhase :: "int \<Rightarrow> string \<Rightarrow> string \<Rightarrow> db \<Rightarrow> bool \<times> db" where
  "markTransferPhase transferId token phase s =
     (count_where (held_by transferId token) (transfers s) = 1,
      s\<lparr>transfers := update_where (held_by transferId token) (\<lambda>t. t\<lparr>tf_phase := Some phase\<rparr>) (transfers s)\<rparr>)"

text \<open>\<open>cleanupSnapshot: undefined\<close> leaves the column as it is.\<close>

definition unclaim_row :: "transfer \<Rightarrow> transfer" where
  "unclaim_row t = t\<lparr>tf_status := TS_pending, tf_claimToken := None, tf_claimExpiresAt := None, tf_phase := None,
     tf_oldIncusId := None, tf_newIncusId := None, tf_instanceVersion := None\<rparr>"

definition rollbackProcessingTransfer :: "int \<Rightarrow> string \<Rightarrow> db \<Rightarrow> bool \<times> db" where
  "rollbackProcessingTransfer transferId token s =
     (count_where (held_by transferId token) (transfers s) = 1,
      s\<lparr>transfers := update_where (held_by transferId token) unclaim_row (transfers s)\<rparr>)"

section \<open>Settling and executing\<close>

datatype settlement = Rejected "string option" | Cancelled

definition settler :: "settlement \<Rightarrow> actor_role" where
  "settler outcome = (case outcome of Rejected _ \<Rightarrow> Receiver | Cancelled \<Rightarrow> Sender)"

definition charged :: "transfer \<Rightarrow> bool" where
  "charged t \<longleftrightarrow> (case tf_fee t of None \<Rightarrow> False | Some fee \<Rightarrow> fee > 0)"

definition settle_row :: "int \<Rightarrow> settlement \<Rightarrow> bool \<Rightarrow> transfer \<Rightarrow> transfer" where
  "settle_row now outcome refund t =
     (case outcome of
        Rejected reason \<Rightarrow> t\<lparr>tf_status := TS_rejected, tf_rejectedAt := Some now, tf_rejectReason := reason,
          tf_refundedAt := (if refund then Some now else tf_refundedAt t)\<rparr>
      | Cancelled \<Rightarrow> t\<lparr>tf_status := TS_cancelled, tf_cancelledAt := Some now,
          tf_refundedAt := (if refund then Some now else tf_refundedAt t)\<rparr>)"

text \<open>The name of the instance, for the remark; the foreign key of the transfer keeps its row.\<close>

definition instance_name :: "int \<Rightarrow> db \<Rightarrow> string" where
  "instance_name k s = (case find_key i_id k (instances s) of Some i \<Rightarrow> i_name i | None \<Rightarrow> [])"

definition refund_fee :: "bool \<Rightarrow> settlement \<Rightarrow> transfer \<Rightarrow> db \<Rightarrow> (unit \<times> db) outcome" where
  "refund_fee balanceLock outcome t s =
     (case tf_fee t of None \<Rightarrow> Inr ((), s) | Some fee \<Rightarrow>
      if \<not> fee > 0 \<or> tf_refundedAt t \<noteq> None then Inr ((), s)
      else case advisoryTransactionLock balanceLock USER_BALANCE_LOCK_NAMESPACE (tf_fromUserId t) of Inl e \<Rightarrow> Inl e | Inr _ \<Rightarrow>
        case find_key u_id (tf_fromUserId t) (users s) of
          None \<Rightarrow> Inl (Error ''USER_NOT_FOUND'')
        | Some user \<Rightarrow>
            let after = u_balance user + fee; name = instance_name (tf_instanceId t) s in
            Inr ((), add_log (mk_log (tf_fromUserId t) BL_transfer_refund fee (u_balance user) after None
                (Some (tf_instanceId t)) (Some (tf_id t))
                (Some (case outcome of Rejected _ \<Rightarrow> R_transfer_rejected name | Cancelled \<Rightarrow> R_transfer_cancelled name)))
              (put_balance (tf_fromUserId t) after s)))"

definition settleTransferWithRefund ::
    "int \<Rightarrow> bool \<Rightarrow> int \<Rightarrow> int \<Rightarrow> settlement \<Rightarrow> db \<Rightarrow> (bool \<times> db) outcome" where
  "settleTransferWithRefund now balanceLock transferId actorUserId outcome s =
     (let P = (\<lambda>t. tf_id t = transferId \<and> tf_status t = TS_pending \<and> acts_as (settler outcome) actorUserId t) in
      case find_where P (transfers s) of
        None \<Rightarrow> Inr (False, s)
      | Some t \<Rightarrow>
          (case refund_fee balanceLock outcome t s of
             Inl e \<Rightarrow> Inl e
           | Inr (_, s1) \<Rightarrow>
               if count_where P (transfers s1) \<noteq> 1 then Inl (Error ''TRANSFER_NOT_PENDING'')
               else Inr (True, s1\<lparr>transfers := update_where P (settle_row now outcome (charged t)) (transfers s1)\<rparr>)))"

record execution =
  ex_transferId :: int
  ex_instanceId :: int
  ex_fromUserId :: int
  ex_toUserId :: int
  ex_newInstanceName :: string
  ex_newIncusId :: string
  ex_oldIncusId :: string
  ex_instanceVersion :: int
  ex_claimToken :: string

definition executable :: "execution \<Rightarrow> transfer \<Rightarrow> bool" where
  "executable d t \<longleftrightarrow> held_by (ex_transferId d) (ex_claimToken d) t \<and> tf_instanceId t = ex_instanceId d
     \<and> tf_fromUserId t = ex_fromUserId d \<and> tf_toUserId t = ex_toUserId d \<and> tf_oldIncusId t = Some (ex_oldIncusId d)
     \<and> tf_newIncusId t = Some (ex_newIncusId d) \<and> tf_instanceVersion t = Some (ex_instanceVersion d)"

definition owned_as_claimed :: "execution \<Rightarrow> instance_row \<Rightarrow> bool" where
  "owned_as_claimed d i \<longleftrightarrow> i_id i = ex_instanceId d \<and> i_userId i = ex_fromUserId d \<and> i_incusId i = ex_oldIncusId d
     \<and> i_version i = ex_instanceVersion d"

definition hand_over :: "execution \<Rightarrow> instance_row \<Rightarrow> instance_row" where
  "hand_over d i = i\<lparr>i_userId := ex_toUserId d, i_name := ex_newInstanceName d, i_incusId := ex_newIncusId d,
     i_displayOrder := 0, i_version := i_version i + 1\<rparr>"

definition accept_row :: "int \<Rightarrow> transfer \<Rightarrow> transfer" where
  "accept_row now t = t\<lparr>tf_status := TS_accepted, tf_acceptedAt := Some now, tf_phase := Some ''completed'',
     tf_claimExpiresAt := None\<rparr>"

definition fee_record :: "int \<Rightarrow> execution \<Rightarrow> transfer \<Rightarrow> billing_record" where
  "fee_record now d t = \<lparr>br_type = BT_transfer_fee, br_transferId = Some (ex_transferId d), br_instanceId = ex_instanceId d,
     br_userId = tf_fromUserId t, br_amount = column 2 (the (tf_fee t)), br_months = 0, br_periodStart = now, br_periodEnd = now,
     br_createdAt = now\<rparr>"

text \<open>A transfer has at most one billing record (a unique column).\<close>

definition executeTransferTransaction :: "int \<Rightarrow> bool \<Rightarrow> execution \<Rightarrow> db \<Rightarrow> (unit \<times> db) outcome" where
  "executeTransferTransaction now locked d s =
     (case advisoryTransactionLock locked INSTANCE_OPERATION_LOCK_NAMESPACE (ex_instanceId d) of Inl e \<Rightarrow> Inl e | Inr _ \<Rightarrow>
      case find_where (executable d) (transfers s) of
        None \<Rightarrow> Inl (Error ''TRANSFER_EXECUTION_CONFLICT'')
      | Some t \<Rightarrow>
          if count_where (owned_as_claimed d) (instances s) \<noteq> 1 then Inl (Error ''TRANSFER_INSTANCE_OWNER_CHANGED'')
          else let s1 = s\<lparr>instances := update_where (owned_as_claimed d) (hand_over d) (instances s)\<rparr> in
          if count_where (held_by (ex_transferId d) (ex_claimToken d)) (transfers s1) \<noteq> 1
          then Inl (Error ''TRANSFER_EXECUTION_CONFLICT'')
          else let s2 = s1\<lparr>transfers := update_where (held_by (ex_transferId d) (ex_claimToken d)) (accept_row now) (transfers s1)\<rparr> in
          if \<not> charged t then Inr ((), s2)
          else if \<exists>b\<in>set (billing_records s2). br_transferId b = Some (ex_transferId d) then Inl UniqueViolation
          else Inr ((), s2\<lparr>billing_records := billing_records s2 @ [fee_record now d t]\<rparr>))"

definition executeTransfer :: "int \<Rightarrow> bool \<Rightarrow> execution \<Rightarrow> db \<Rightarrow> (unit \<times> db) outcome" where
  "executeTransfer now locked d s = executeTransferTransaction now locked d s"

definition shouldSuppressMissingIncusDeletion :: "int \<Rightarrow> transfer option \<Rightarrow> bool" where
  "shouldSuppressMissingIncusDeletion now transfer \<longleftrightarrow>
     (case transfer of None \<Rightarrow> False | Some t \<Rightarrow>
        tf_status t = TS_processing \<and> (case tf_claimToken t of None \<Rightarrow> False | Some k \<Rightarrow> k \<noteq> [])
        \<and> (case tf_phase t of None \<Rightarrow> [] | Some p \<Rightarrow> p) \<in> {''claimed'', ''renaming'', ''renamed''}
        \<and> (case tf_claimExpiresAt t of None \<Rightarrow> False | Some x \<Rightarrow> x > now))"

section \<open>Queries and time-outs\<close>

definition cleanupStaleTransfers :: "db \<Rightarrow> int \<times> db" where
  "cleanupStaleTransfers s = (0, s)"

definition timed_out :: "int \<Rightarrow> transfer \<Rightarrow> bool" where
  "timed_out now t \<longleftrightarrow> tf_status t = TS_processing \<and> (case tf_claimExpiresAt t of None \<Rightarrow> False | Some x \<Rightarrow> x < now)
     \<and> tf_claimToken t \<noteq> None"

definition cleanupTimeoutTransfers :: "int \<Rightarrow> db \<Rightarrow> nat \<times> db" where
  "cleanupTimeoutTransfers now s = (count_where (timed_out now) (transfers s),
     s\<lparr>transfers := update_where (timed_out now) (\<lambda>t. t\<lparr>tf_status := TS_pending, tf_claimToken := None,
       tf_claimExpiresAt := None, tf_phase := None\<rparr>) (transfers s)\<rparr>)"

definition hasPendingTransfer :: "int \<Rightarrow> db \<Rightarrow> bool" where
  "hasPendingTransfer instanceId s \<longleftrightarrow> count_where (open_transfer instanceId) (transfers s) > 0"

definition getPendingTransferByInstanceId :: "int \<Rightarrow> db \<Rightarrow> transfer option" where
  "getPendingTransferByInstanceId instanceId s = find_where (open_transfer instanceId) (transfers s)"

definition getTransferById :: "int \<Rightarrow> db \<Rightarrow> transfer option" where
  "getTransferById k s = find_key tf_id k (transfers s)"

definition getPendingReceivedCount :: "int \<Rightarrow> db \<Rightarrow> nat" where
  "getPendingReceivedCount userId s = count_where (\<lambda>t. tf_toUserId t = userId \<and> tf_status t = TS_pending) (transfers s)"

section \<open>Older operations, which no handler calls\<close>

definition update_transfer :: "int \<Rightarrow> (transfer \<Rightarrow> transfer) \<Rightarrow> db \<Rightarrow> (unit \<times> db) outcome" where
  "update_transfer k f s =
     (if find_key tf_id k (transfers s) = None then Inl RecordNotFound
      else Inr ((), s\<lparr>transfers := update_key tf_id k f (transfers s)\<rparr>))"

definition acceptTransfer :: "int \<Rightarrow> int \<Rightarrow> db \<Rightarrow> (unit \<times> db) outcome" where
  "acceptTransfer now k s = update_transfer k (\<lambda>t. t\<lparr>tf_status := TS_accepted, tf_acceptedAt := Some now\<rparr>) s"

definition rejectTransfer :: "int \<Rightarrow> int \<Rightarrow> string option \<Rightarrow> db \<Rightarrow> (unit \<times> db) outcome" where
  "rejectTransfer now k reason s = update_transfer k (\<lambda>t. t\<lparr>tf_status := TS_rejected, tf_rejectedAt := Some now,
     tf_rejectReason := (case reason of None \<Rightarrow> tf_rejectReason t | r \<Rightarrow> r)\<rparr>) s"

definition cancelTransfer :: "int \<Rightarrow> int \<Rightarrow> db \<Rightarrow> (unit \<times> db) outcome" where
  "cancelTransfer now k s = update_transfer k (\<lambda>t. t\<lparr>tf_status := TS_cancelled, tf_cancelledAt := Some now\<rparr>) s"

definition refundTransferFee :: "int \<Rightarrow> rat \<Rightarrow> int \<Rightarrow> string \<Rightarrow> bool \<Rightarrow> db \<Rightarrow> (bool \<times> exn option) \<times> db" where
  "refundTransferFee fromUserId fee instanceId instanceName rejected s =
     (case find_key u_id fromUserId (users s) of
        None \<Rightarrow> ((False, Some (Error ''USER_NOT_FOUND'')), s)
      | Some user \<Rightarrow>
          let balanceBefore = u_balance user; balanceAfter = balanceBefore + fee in
          ((True, None), add_log (mk_log fromUserId BL_transfer_refund fee balanceBefore balanceAfter None (Some instanceId)
              None (Some (if rejected then R_transfer_rejected instanceName else R_transfer_cancelled instanceName)))
            (put_balance fromUserId balanceAfter s)))"

section \<open>The handlers of acceptance and push\<close>

text \<open>
  The receiver accepts, or the sender pushes: the transfer is claimed, the container renamed on its host, and the
  ownership changed; what fails on the way is undone. The host is represented by the current name of the container; a rename
  succeeds if the host carries it out and the container has the old name. \<open>meanwhile\<close> is what other
  transactions do between the rename and the change of ownership. The removal of the sites, ports, snapshots and
  backups afterwards is not modelled.
\<close>

record route_env =
  re_claimLock :: bool
  re_execLock :: bool
  re_clientOk :: bool
  re_rename :: bool
  re_renameBack :: bool
  re_token :: string
  re_newIncusId :: string
  re_leaseUntil :: int
  re_now :: int
  re_suffix :: string
  re_meanwhile :: "db \<Rightarrow> db"

datatype reply =
    RP_done | RP_transfer_not_found | RP_forbidden | RP_not_pending | RP_instance_not_found | RP_host_not_found
  | RP_must_be_stopped | RP_host_unavailable | RP_rename_failed | RP_database_error

definition ends_in :: "string \<Rightarrow> string \<Rightarrow> bool" where
  "ends_in name suffix \<longleftrightarrow> length suffix \<le> length name \<and> drop (length name - length suffix) name = suffix"

definition transferred_name :: "string \<Rightarrow> string \<Rightarrow> string" where
  "transferred_name suffix name =
     (if ends_in name suffix then name
      else if length (name @ suffix) > 64 then take (64 - length suffix) name @ suffix
      else name @ suffix)"

definition rollback_to_pending :: "route_env \<Rightarrow> int \<Rightarrow> db \<Rightarrow> db" where
  "rollback_to_pending e transferId s = snd (rollbackProcessingTransfer transferId (re_token e) s)"

definition execution_of :: "route_env \<Rightarrow> transfer \<Rightarrow> instance_row \<Rightarrow> string \<Rightarrow> int \<Rightarrow> execution" where
  "execution_of e t inst oldIncusId version = \<lparr>ex_transferId = tf_id t, ex_instanceId = tf_instanceId t,
     ex_fromUserId = tf_fromUserId t, ex_toUserId = tf_toUserId t,
     ex_newInstanceName = transferred_name (re_suffix e) (i_name inst), ex_newIncusId = re_newIncusId e,
     ex_oldIncusId = oldIncusId, ex_instanceVersion = version, ex_claimToken = re_token e\<rparr>"

definition rename_and_execute ::
    "route_env \<Rightarrow> transfer \<Rightarrow> instance_row \<Rightarrow> string \<Rightarrow> int \<Rightarrow> string \<Rightarrow> db \<Rightarrow> reply \<times> string \<times> db" where
  "rename_and_execute e t inst oldIncusId version container s =
     (case markTransferPhase (tf_id t) (re_token e) ''renaming'' s of (marked, s1) \<Rightarrow>
      if \<not> marked then (RP_not_pending, container, rollback_to_pending e (tf_id t) s1)
      else if \<not> re_rename e \<or> container \<noteq> oldIncusId
      then (RP_rename_failed, container, rollback_to_pending e (tf_id t) s1)
      else let s2 = re_meanwhile e s1 in
        case executeTransfer (re_now e) (re_execLock e) (execution_of e t inst oldIncusId version) s2 of
          Inr (_, s3) \<Rightarrow> (RP_done, re_newIncusId e, s3)
        | Inl _ \<Rightarrow> (RP_database_error, (if re_renameBack e then oldIncusId else re_newIncusId e),
            rollback_to_pending e (tf_id t) s2))"

definition claim_of :: "route_env \<Rightarrow> transfer \<Rightarrow> int \<Rightarrow> actor_role \<Rightarrow> claim_input" where
  "claim_of e t user role = \<lparr>ci_transferId = tf_id t, ci_instance = tf_instanceId t, ci_actorUserId = user,
     ci_actorRole = role, ci_claimToken = re_token e, ci_newIncusId = re_newIncusId e, ci_leaseUntil = re_leaseUntil e\<rparr>"

definition claim_refused :: "exn \<Rightarrow> reply" where
  "claim_refused x = (if x = Error ''TRANSFER_INSTANCE_OWNER_CHANGED'' then RP_instance_not_found else RP_not_pending)"

definition accept_route :: "route_env \<Rightarrow> int \<Rightarrow> int \<Rightarrow> string \<Rightarrow> db \<Rightarrow> reply \<times> string \<times> db" where
  "accept_route e user transferId container s =
     (case getTransferById transferId s of
        None \<Rightarrow> (RP_transfer_not_found, container, s)
      | Some t \<Rightarrow>
      if tf_toUserId t \<noteq> user then (RP_forbidden, container, s)
      else if tf_status t \<noteq> TS_pending then (RP_not_pending, container, s)
      else case find_key i_id (tf_instanceId t) (instances s) of
        None \<Rightarrow> (RP_instance_not_found, container, s)
      | Some inst \<Rightarrow>
      if i_status inst = IS_deleted then (RP_instance_not_found, container, s)
      else case claimTransferTransaction (re_claimLock e) (claim_of e t user Receiver) s of
        Inl x \<Rightarrow> (claim_refused x, container, s)
      | Inr ((oldIncusId, version, _), s1) \<Rightarrow>
      if i_status inst = IS_running then (RP_must_be_stopped, container, rollback_to_pending e transferId s1)
      else if find_key h_id (i_hostId inst) (hosts s1) = None \<or> \<not> re_clientOk e
      then (RP_host_unavailable, container, rollback_to_pending e transferId s1)
      else rename_and_execute e t inst oldIncusId version container s1)"


text \<open>The status synchronisation, when the host answers that it has no container of the row's name.\<close>

definition sync_missing :: "instance_row \<Rightarrow> db \<Rightarrow> db" where
  "sync_missing inst s = s\<lparr>instances := update_where
     (\<lambda>i. i_id i = i_id inst \<and> i_status i = i_status inst \<and> i_version i = i_version inst)
     (\<lambda>i. i\<lparr>i_status := IS_deleted, i_version := i_version i + 1\<rparr>) (instances s)\<rparr>"

section \<open>The life of a transfer\<close>

text \<open>The operations on transfers as steps; \<open>T\<close> holds the tokens that claims may use. Any other step of the system
  leaves the transfers, their log entries and their billing records alone.\<close>

definition transfer_logs :: "db \<Rightarrow> balance_log list" where
  "transfer_logs s = filter (\<lambda>e. bl_transferId e \<noteq> None) (balance_logs s)"

inductive transfer_step :: "string set \<Rightarrow> db \<Rightarrow> db \<Rightarrow> bool" for T where
  create: "has_scale 2 (cr_fee d) \<Longrightarrow> createTransferWithFee l m d s = Inr (r, s') \<Longrightarrow> transfer_step T s s'"
| create_free: "createTransfer l d s = Inr (r, s') \<Longrightarrow> transfer_step T s s'"
| claim: "ci_claimToken d \<in> T \<Longrightarrow> claimTransferTransaction l d s = Inr (r, s') \<Longrightarrow> transfer_step T s s'"
| mark: "markTransferPhase k token p s = (b, s') \<Longrightarrow> transfer_step T s s'"
| unclaim: "rollbackProcessingTransfer k token s = (b, s') \<Longrightarrow> transfer_step T s s'"
| settle: "settleTransferWithRefund now l k who outcome s = Inr (b, s') \<Longrightarrow> transfer_step T s s'"
| execution: "executeTransfer now l x s = Inr (u, s') \<Longrightarrow> transfer_step T s s'"
| timeout: "cleanupTimeoutTransfers now s = (n, s') \<Longrightarrow> transfer_step T s s'"
| other: "transfers s' = transfers s \<Longrightarrow> transfer_seq s' = transfer_seq s \<Longrightarrow> transfer_logs s' = transfer_logs s
    \<Longrightarrow> billing_records s' = billing_records s \<Longrightarrow> transfer_step T s s'"

definition is_open :: "transfer \<Rightarrow> bool" where
  "is_open t \<longleftrightarrow> tf_status t \<in> {TS_pending, TS_processing}"

definition refunded :: "transfer \<Rightarrow> bool" where
  "refunded t \<longleftrightarrow> tf_status t \<in> {TS_rejected, TS_cancelled}"

definition fee_of :: "transfer \<Rightarrow> rat" where
  "fee_of t = (case tf_fee t of None \<Rightarrow> 0 | Some fee \<Rightarrow> fee)"

text \<open>What the balance log has charged for a transfer, net of refunds, and what is booked as revenue.\<close>

definition net_charge :: "db \<Rightarrow> int \<Rightarrow> rat" where
  "net_charge s k = - (\<Sum>e\<leftarrow>filter (\<lambda>e. bl_transferId e = Some k) (balance_logs s). bl_amount e)"

definition revenue :: "db \<Rightarrow> int \<Rightarrow> rat" where
  "revenue s k = (\<Sum>b\<leftarrow>filter (\<lambda>b. br_transferId b = Some k) (billing_records s). br_amount b)"

text \<open>The part of a row that the invariant is about, and how a step may change it.\<close>

definition kept :: "transfer \<Rightarrow> transfer \<Rightarrow> bool" where
  "kept t t' \<longleftrightarrow> tf_id t' = tf_id t \<and> tf_instanceId t' = tf_instanceId t \<and> tf_fromUserId t' = tf_fromUserId t
     \<and> tf_toUserId t' = tf_toUserId t \<and> tf_fee t' = tf_fee t"

definition reclaims :: "transfer \<Rightarrow> transfer \<Rightarrow> bool" where
  "reclaims t t' \<longleftrightarrow> kept t t' \<and> is_open t \<and> is_open t' \<and> tf_refundedAt t' = tf_refundedAt t"

definition row_ok :: "db \<Rightarrow> transfer \<Rightarrow> bool" where
  "row_ok s t \<longleftrightarrow> tf_id t < transfer_seq s \<and> 0 \<le> fee_of t \<and> has_scale 2 (fee_of t)
     \<and> (is_open t \<longrightarrow> tf_refundedAt t = None)
     \<and> net_charge s (tf_id t) = (if refunded t then 0 else fee_of t)
     \<and> revenue s (tf_id t) = (if tf_status t = TS_accepted then fee_of t else 0)"

definition transfers_ok :: "db \<Rightarrow> bool" where
  "transfers_ok s \<longleftrightarrow> distinct (map tf_id (transfers s))
     \<and> (\<forall>k. count_where (open_transfer k) (transfers s) \<le> 1)
     \<and> (\<forall>t\<in>set (transfers s). row_ok s t)
     \<and> (\<forall>k\<ge>transfer_seq s. net_charge s k = 0 \<and> revenue s k = 0)"

lemma open_transfer_iff: "open_transfer k t \<longleftrightarrow> tf_instanceId t = k \<and> is_open t"
  by (simp add: open_transfer_def is_open_def)

lemma net_charge_add_log [simp]:
  "net_charge (add_log e s) k = net_charge s k - (if bl_transferId e = Some k then bl_amount e else 0)"
  by (simp add: net_charge_def add_log_def)

lemma net_charge_cong: "balance_logs s' = balance_logs s \<Longrightarrow> net_charge s' k = net_charge s k"
  by (simp add: net_charge_def)

lemma net_charge_put [simp]: "net_charge (put_balance u v s) k = net_charge s k"
  by (simp add: net_charge_def put_balance_def)

lemma net_charge_logs: "net_charge s k = - (\<Sum>e\<leftarrow>filter (\<lambda>e. bl_transferId e = Some k) (transfer_logs s). bl_amount e)"
proof -
  have "(\<lambda>e :: balance_log. bl_transferId e \<noteq> None \<and> bl_transferId e = Some k) = (\<lambda>e. bl_transferId e = Some k)" by auto
  then show ?thesis by (simp only: net_charge_def transfer_logs_def filter_filter)
qed

lemma revenue_cong: "billing_records s' = billing_records s \<Longrightarrow> revenue s' k = revenue s k"
  by (simp add: revenue_def)

lemma put_add_transfers [simp]:
  "transfers (put_balance u v s) = transfers s" "transfers (add_log e s) = transfers s"
  "transfer_seq (put_balance u v s) = transfer_seq s" "transfer_seq (add_log e s) = transfer_seq s"
  "billing_records (put_balance u v s) = billing_records s" "billing_records (add_log e s) = billing_records s"
  "instances (put_balance u v s) = instances s" "instances (add_log e s) = instances s"
  by (simp_all add: put_balance_def add_log_def)

lemma count_where_map_le:
  "(\<And>t. t \<in> set ts \<Longrightarrow> Q (g t) \<Longrightarrow> Q t) \<Longrightarrow> count_where Q (map g ts) \<le> count_where Q ts"
  by (induction ts) (auto simp: count_where_def le_SucI)

text \<open>A step that rewrites rows, keeps their identity and reopens none.\<close>

lemma transfers_ok_update:
  assumes ok: "transfers_ok s" and t: "transfers s' = update_where P f (transfers s)" "transfer_seq s' = transfer_seq s"
    and k: "\<And>t. t \<in> set (transfers s) \<Longrightarrow> P t \<Longrightarrow> kept t (f t) \<and> (is_open (f t) \<longrightarrow> is_open t)"
    and r: "\<And>t. t \<in> set (transfers s) \<Longrightarrow> row_ok s' (if P t then f t else t)"
    and n: "\<And>k. k \<ge> transfer_seq s \<Longrightarrow> net_charge s' k = 0 \<and> revenue s' k = 0"
  shows "transfers_ok s'"
proof -
  have "map tf_id (transfers s') = map tf_id (transfers s)" using k by (auto simp: t update_where_def kept_def)
  moreover have "count_where (open_transfer j) (transfers s') \<le> 1" for j
  proof -
    have "count_where (open_transfer j) (transfers s') \<le> count_where (open_transfer j) (transfers s)"
      unfolding t(1) update_where_def using k
      by (intro count_where_map_le) (auto simp: open_transfer_iff kept_def split: if_split_asm)
    also have "\<dots> \<le> 1" using ok by (simp add: transfers_ok_def)
    finally show ?thesis .
  qed
  moreover have "row_ok s' x" if "x \<in> set (transfers s')" for x
    using that r by (auto simp: t(1) elim!: set_update_whereE)
  ultimately show ?thesis using ok n by (auto simp: transfers_ok_def t(2))
qed

text \<open>A step that only claims and releases.\<close>

lemma transfers_ok_reclaim:
  assumes "transfers_ok s" "\<And>t. P t \<Longrightarrow> reclaims t (f t)"
  shows "transfers_ok (s\<lparr>transfers := update_where P f (transfers s)\<rparr>)"
proof (rule transfers_ok_update [OF assms(1)])
  fix t assume "t \<in> set (transfers s)"
  then have "row_ok s t" using assms(1) by (simp add: transfers_ok_def)
  then show "row_ok (s\<lparr>transfers := update_where P f (transfers s)\<rparr>) (if P t then f t else t)"
    using assms(2) [of t] by (auto simp: row_ok_def reclaims_def kept_def fee_of_def is_open_def refunded_def
        net_charge_def revenue_def)
qed (use assms in \<open>auto simp: reclaims_def transfers_ok_def net_charge_def revenue_def\<close>)

text \<open>Creation.\<close>

lemma find_open_None: "find_where (open_transfer k) ts = None \<longleftrightarrow> count_where (open_transfer k) ts = 0"
  by (simp add: find_where_None count_where_0)

lemma transfers_ok_insert:
  assumes ok: "transfers_ok s" and none: "find_where (open_transfer (cr_instanceId d)) (transfers s) = None"
    and fee: "case fee of None \<Rightarrow> True | Some x \<Rightarrow> 0 \<le> x \<and> has_scale 2 x"
    and t: "transfers s' = transfers (insert_transfer d fee s)" "transfer_seq s' = transfer_seq s + 1"
    and c: "\<And>k. net_charge s' k = net_charge s k + (if k = transfer_seq s then fee_of (new_transfer d fee k) else 0)"
    and b: "billing_records s' = billing_records s"
  shows "transfers_ok s'"
proof -
  let ?n = "transfer_seq s"
  have old: "tf_id t < ?n" "row_ok s t" if "t \<in> set (transfers s)" for t
    using ok that by (auto simp: transfers_ok_def row_ok_def)
  have z: "net_charge s k = 0" "revenue s k = 0" if "k \<ge> ?n" for k using ok that by (auto simp: transfers_ok_def)
  have "row_ok s' (new_transfer d fee ?n)"
    using fee z [of ?n] by (auto simp: row_ok_def t c revenue_cong [OF b] new_transfer_def fee_of_def is_open_def
        refunded_def to_fixed_id split: option.splits)
  moreover have "row_ok s' x" if "x \<in> set (transfers s)" for x
    using old [OF that] by (auto simp: row_ok_def c t revenue_cong [OF b])
  moreover have "count_where (open_transfer j) (transfers s') \<le> 1" for j
  proof (cases "j = cr_instanceId d")
    case True
    then have "count_where (open_transfer j) (transfers s) = 0" using none by (simp add: find_open_None)
    then show ?thesis by (simp add: t insert_transfer_def count_where_def)
  next
    case False
    then have "\<not> open_transfer j (new_transfer d fee ?n)" by (simp add: open_transfer_def new_transfer_def)
    then have "count_where (open_transfer j) (transfers s') = count_where (open_transfer j) (transfers s)"
      by (simp add: t insert_transfer_def count_where_def)
    then show ?thesis using ok by (simp add: transfers_ok_def)
  qed
  moreover have "distinct (map tf_id (transfers s'))"
    using ok old(1) by (fastforce simp: t insert_transfer_def transfers_ok_def new_transfer_def)
  moreover have "net_charge s' k = 0 \<and> revenue s' k = 0" if "k \<ge> transfer_seq s'" for k
    using that z [of k] by (simp add: t c revenue_cong [OF b])
  ultimately show ?thesis by (auto simp: transfers_ok_def t(1) insert_transfer_def)
qed

lemma debit_Inr:
  assumes "debitTransferFee l k u i n fee s = Inr (x, s')"
  obtains user where "find_key u_id u (users s) = Some user" "fee \<le> u_balance user"
    "s' = add_log (mk_log u BL_transfer_fee (- fee) (u_balance user) (u_balance user - fee) None (Some i) (Some k)
       (Some (R_transfer_instance_fee n))) (put_balance u (u_balance user - fee) s)"
  using assms by (auto simp: debitTransferFee_def Let_def split: sum.split_asm option.split_asm if_split_asm)

lemma mk_log_transfer [simp]: "bl_transferId (mk_log u ty a x y ord i k r) = k"
  by (simp add: mk_log_def)

lemma insert_transfer_net [simp]: "net_charge (insert_transfer d fee s) k = net_charge s k"
  by (simp add: net_charge_def insert_transfer_def)

lemma insert_transfer_parts [simp]:
  "transfer_seq (insert_transfer d fee s) = transfer_seq s + 1" "billing_records (insert_transfer d fee s) = billing_records s"
  by (simp_all add: insert_transfer_def)

lemma createWithFee_Inr:
  assumes "createTransferWithFee l m d s = Inr (r, s')"
  shows "find_where (open_transfer (cr_instanceId d)) (transfers s) = None
    \<and> (cr_fee d > 0 \<longrightarrow> (\<exists>x. debitTransferFee m (transfer_seq s) (cr_fromUserId d) (cr_instanceId d) (cr_instanceName d)
          (cr_fee d) (insert_transfer d (Some (cr_fee d)) s) = Inr (x, s')))
    \<and> (\<not> cr_fee d > 0 \<longrightarrow> s' = insert_transfer d None s)"
  using assms by (auto simp: createTransferWithFee_def Let_def split: sum.split_asm if_split_asm)

lemma ok_create:
  assumes "has_scale 2 (cr_fee d)" "createTransferWithFee l m d s = Inr (r, s')" "transfers_ok s"
  shows "transfers_ok s'"
proof (cases "cr_fee d > 0")
  case True
  then obtain x where x: "debitTransferFee m (transfer_seq s) (cr_fromUserId d) (cr_instanceId d) (cr_instanceName d)
      (cr_fee d) (insert_transfer d (Some (cr_fee d)) s) = Inr (x, s')" using createWithFee_Inr [OF assms(2)] by blast
  have sc: "column 8 (cr_fee d) = cr_fee d" by (rule to_fixed_id, rule has_scale_mono [OF assms(1)]) simp
  have fee: "fee_of (new_transfer d (Some (cr_fee d)) k) = cr_fee d" for k
    using assms(1) by (simp add: fee_of_def new_transfer_def to_fixed_id)
  obtain v e where s': "s' = add_log e (put_balance (cr_fromUserId d) v (insert_transfer d (Some (cr_fee d)) s))"
    and e: "bl_transferId e = Some (transfer_seq s)" "bl_amount e = - cr_fee d"
    by (rule debit_Inr [OF x]) (simp add: sc)
  show ?thesis
  proof (rule transfers_ok_insert [OF assms(3), where fee = "Some (cr_fee d)" and d = d])
    show "find_where (open_transfer (cr_instanceId d)) (transfers s) = None" using createWithFee_Inr [OF assms(2)] by simp
  qed (use True assms(1) in \<open>simp_all add: s' e fee\<close>)
next
  case False
  show ?thesis
    by (rule transfers_ok_insert [OF assms(3), where fee = None and d = d])
      (use createWithFee_Inr [OF assms(2)] False in \<open>auto simp: fee_of_def new_transfer_def\<close>)
qed

lemma ok_create_free:
  assumes "createTransfer l d s = Inr (r, s')" "transfers_ok s"
  shows "transfers_ok s'"
  by (rule transfers_ok_insert [OF assms(2), where fee = None and d = d])
    (use assms(1) in \<open>auto simp: createTransfer_def fee_of_def new_transfer_def split: sum.split_asm if_split_asm\<close>)

text \<open>The rows that a statement selects by the id of a transfer.\<close>

lemma row_unique: "distinct (map tf_id ts) \<Longrightarrow> t \<in> set ts \<Longrightarrow> u \<in> set ts \<Longrightarrow> tf_id t = tf_id u \<Longrightarrow> t = u"
  by (auto simp: distinct_map dest: inj_onD)

lemma revenue_append:
  "billing_records s' = billing_records s @ [b] \<Longrightarrow>
   revenue s' k = revenue s k + (if br_transferId b = Some k then br_amount b else 0)"
  by (simp add: revenue_def)

lemma refund_Inr:
  assumes "refund_fee l outcome t s = Inr (x, s')" "row_ok s t" "is_open t"
  shows "transfers s' = transfers s \<and> transfer_seq s' = transfer_seq s \<and> billing_records s' = billing_records s
    \<and> instances s' = instances s
    \<and> (\<forall>k. net_charge s' k = net_charge s k - (if k = tf_id t then fee_of t else 0))"
proof -
  have sc: "column 8 (fee_of t) = fee_of t" using assms(2) has_scale_mono [of 2 "fee_of t" 8] by (simp add: row_ok_def to_fixed_id)
  show ?thesis using assms sc
    by (auto simp: refund_fee_def row_ok_def fee_of_def Let_def split: option.split_asm if_split_asm sum.split_asm)
qed

lemma settle_Inr:
  assumes "settleTransferWithRefund now l k who outcome s = Inr (b, s')"
  shows "s' = s \<and> \<not> b \<or> b \<and> (\<exists>t x s1. t \<in> set (transfers s) \<and> tf_id t = k \<and> tf_status t = TS_pending
      \<and> acts_as (settler outcome) who t \<and> refund_fee l outcome t s = Inr (x, s1)
      \<and> s' = s1\<lparr>transfers := update_where (\<lambda>t. tf_id t = k \<and> tf_status t = TS_pending \<and> acts_as (settler outcome) who t)
           (settle_row now outcome (charged t)) (transfers s1)\<rparr>)"
  using assms unfolding settleTransferWithRefund_def Let_def
  by (auto dest!: find_where_SomeD split: option.split_asm sum.split_asm if_split_asm)

lemma settle_row_simps [simp]:
  "kept t (settle_row now outcome b t)" "\<not> is_open (settle_row now outcome b t)" "refunded (settle_row now outcome b t)"
  "tf_status (settle_row now outcome b t) \<noteq> TS_accepted" "tf_id (settle_row now outcome b t) = tf_id t"
  "fee_of (settle_row now outcome b t) = fee_of t"
  by (cases outcome; simp add: settle_row_def kept_def is_open_def refunded_def fee_of_def)+

lemma ok_settle:
  assumes s: "settleTransferWithRefund now l k who outcome s = Inr (b, s')" and ok: "transfers_ok s"
  shows "transfers_ok s'"
proof (cases b)
  case False
  then show ?thesis using settle_Inr [OF s] ok by simp
next
  case True
  let ?P = "\<lambda>t. tf_id t = k \<and> tf_status t = TS_pending \<and> acts_as (settler outcome) who t"
  from True settle_Inr [OF s] obtain t x s1 where t: "t \<in> set (transfers s)" "tf_id t = k" "tf_status t = TS_pending"
    "acts_as (settler outcome) who t"
    and r: "refund_fee l outcome t s = Inr (x, s1)"
    and s': "s' = s1\<lparr>transfers := update_where ?P (settle_row now outcome (charged t)) (transfers s1)\<rparr>"
    by blast
  have d: "distinct (map tf_id (transfers s))" and rows: "\<And>u. u \<in> set (transfers s) \<Longrightarrow> row_ok s u"
    and z: "\<And>k. k \<ge> transfer_seq s \<Longrightarrow> net_charge s k = 0 \<and> revenue s k = 0"
    using ok by (auto simp: transfers_ok_def)
  have o: "is_open t" "\<not> refunded t" using t(3) by (simp_all add: is_open_def refunded_def)
  have e: "transfers s1 = transfers s" "transfer_seq s' = transfer_seq s"
    "\<And>j. revenue s' j = revenue s j" "\<And>j. net_charge s' j = net_charge s j - (if j = k then fee_of t else 0)"
    using refund_Inr [OF r rows [OF t(1)] o(1)] t(2) by (simp_all add: s' revenue_def net_charge_def)
  show ?thesis
  proof (rule transfers_ok_update [OF ok _ e(2)])
    show "transfers s' = update_where ?P (settle_row now outcome (charged t)) (transfers s)" by (simp add: s' e(1))
    show "kept u (settle_row now outcome (charged t) u) \<and> (is_open (settle_row now outcome (charged t) u) \<longrightarrow> is_open u)" for u
      by simp
    show "row_ok s' (if ?P u then settle_row now outcome (charged t) u else u)" if u: "u \<in> set (transfers s)" for u
    proof (cases "tf_id u = k")
      case True
      then have "u = t" using row_unique [OF d u t(1)] t(2) by simp
      then show ?thesis using rows [OF u] t e(2-4) o by (simp add: row_ok_def)
    next
      case False
      then show ?thesis using rows [OF u] e(2-4) by (simp add: row_ok_def)
    qed
    show "net_charge s' j = 0 \<and> revenue s' j = 0" if "j \<ge> transfer_seq s" for j
      using z [OF that] that rows [OF t(1)] t(2) e(3,4) by (auto simp: row_ok_def)
  qed
qed

lemma execute_Inr:
  assumes "executeTransfer now l d s = Inr (u, s')"
  obtains t where "t \<in> set (transfers s)" "executable d t" "count_where (owned_as_claimed d) (instances s) = 1"
    "instances s' = update_where (owned_as_claimed d) (hand_over d) (instances s)"
    "transfers s' = update_where (held_by (ex_transferId d) (ex_claimToken d)) (accept_row now) (transfers s)"
    "billing_records s' = billing_records s @ (if charged t then [fee_record now d t] else [])"
    "transfer_seq s' = transfer_seq s" "balance_logs s' = balance_logs s" "users s' = users s" "hosts s' = hosts s"
proof (cases "find_where (executable d) (transfers s)")
  case None
  then show ?thesis using assms by (auto simp: executeTransfer_def executeTransferTransaction_def split: sum.split_asm)
next
  case (Some t)
  have "t \<in> set (transfers s)" "executable d t" using find_where_SomeD [OF Some] by auto
  then show ?thesis using assms Some that [of t]
    by (auto simp: executeTransfer_def executeTransferTransaction_def Let_def split: sum.split_asm if_split_asm)
qed

lemma accept_row_simps [simp]:
  "kept t (accept_row now t)" "\<not> is_open (accept_row now t)" "\<not> refunded (accept_row now t)"
  "tf_status (accept_row now t) = TS_accepted" "tf_id (accept_row now t) = tf_id t" "fee_of (accept_row now t) = fee_of t"
  by (simp_all add: accept_row_def kept_def is_open_def refunded_def fee_of_def)

lemma fee_record_revenue:
  "row_ok s t \<Longrightarrow> tf_id t = ex_transferId d \<Longrightarrow> billing_records s' = billing_records s @ (if charged t then [fee_record now d t] else [])
    \<Longrightarrow> revenue s' j = revenue s j + (if j = tf_id t then fee_of t else 0)"
  by (auto simp: row_ok_def revenue_def fee_record_def charged_def fee_of_def to_fixed_id split: option.split_asm if_split_asm)

lemma ok_execute:
  assumes x: "executeTransfer now l d s = Inr (u, s')" and ok: "transfers_ok s"
  shows "transfers_ok s'"
proof (rule execute_Inr [OF x])
  fix t
  assume t: "t \<in> set (transfers s)" "executable d t"
    and e: "transfers s' = update_where (held_by (ex_transferId d) (ex_claimToken d)) (accept_row now) (transfers s)"
      "billing_records s' = billing_records s @ (if charged t then [fee_record now d t] else [])"
      "transfer_seq s' = transfer_seq s" "balance_logs s' = balance_logs s"
  have h: "held_by (ex_transferId d) (ex_claimToken d) t" "tf_id t = ex_transferId d"
    using t(2) by (simp_all add: executable_def held_by_def)
  have d: "distinct (map tf_id (transfers s))" and rows: "\<And>u. u \<in> set (transfers s) \<Longrightarrow> row_ok s u"
    and z: "\<And>k. k \<ge> transfer_seq s \<Longrightarrow> net_charge s k = 0 \<and> revenue s k = 0"
    using ok by (auto simp: transfers_ok_def)
  note rv = fee_record_revenue [OF rows [OF t(1)] h(2) e(2)]
  have nc: "net_charge s' j = net_charge s j" for j by (rule net_charge_cong [OF e(4)])
  have o: "is_open t" "\<not> refunded t" "tf_status t \<noteq> TS_accepted" using h(1) by (simp_all add: held_by_def is_open_def refunded_def)
  show ?thesis
  proof (rule transfers_ok_update [OF ok e(1,3)])
    show "kept u (accept_row now u) \<and> (is_open (accept_row now u) \<longrightarrow> is_open u)" for u by simp
    show "row_ok s' (if held_by (ex_transferId d) (ex_claimToken d) u then accept_row now u else u)"
      if u: "u \<in> set (transfers s)" for u
    proof (cases "tf_id u = tf_id t")
      case True
      then have "u = t" using row_unique [OF d u t(1)] by simp
      then show ?thesis using rows [OF u] h o nc rv e(3) by (simp add: row_ok_def)
    next
      case False
      then have "\<not> held_by (ex_transferId d) (ex_claimToken d) u" using h(2) by (simp add: held_by_def)
      then show ?thesis using rows [OF u] nc rv e(3) False by (simp add: row_ok_def)
    qed
    show "net_charge s' j = 0 \<and> revenue s' j = 0" if "j \<ge> transfer_seq s" for j
      using z [OF that] that rows [OF t(1)] nc rv by (auto simp: row_ok_def)
  qed
qed

text \<open>Claims and releases.\<close>

lemma claimTransfer_Inr:
  assumes "claimTransferTransaction l d s = Inr ((old, v, sn), s')"
  obtains i where "i \<in> set (instances s)" "i_id i = ci_instance d" "i_status i \<noteq> IS_deleted" "old = i_incusId i" "v = i_version i"
    "find_where (\<lambda>i. i_id i = ci_instance d \<and> i_status i \<noteq> IS_deleted) (instances s) = Some i"
    "count_where (\<lambda>t. tf_id t = ci_transferId d \<and> tf_instanceId t = ci_instance d \<and> tf_status t = TS_pending
       \<and> acts_as (ci_actorRole d) (ci_actorUserId d) t) (transfers s) = 1"
    "s' = s\<lparr>transfers := update_where (\<lambda>t. tf_id t = ci_transferId d \<and> tf_instanceId t = ci_instance d \<and> tf_status t = TS_pending
       \<and> acts_as (ci_actorRole d) (ci_actorUserId d) t) (claim_row d i sn) (transfers s)\<rparr>"
proof (cases "find_where (\<lambda>i. i_id i = ci_instance d \<and> i_status i \<noteq> IS_deleted) (instances s)")
  case None
  then show ?thesis using assms by (auto simp: claimTransferTransaction_def Let_def split: sum.split_asm if_split_asm)
next
  case (Some i)
  then show ?thesis using assms that [of i] find_where_SomeD [OF Some]
    by (auto simp: claimTransferTransaction_def Let_def split: sum.split_asm if_split_asm)
qed

lemma reclaims_rows:
  "tf_status t = TS_pending \<Longrightarrow> reclaims t (claim_row d i sn t)"
  "held_by k token t \<Longrightarrow> reclaims t (t\<lparr>tf_phase := p\<rparr>)"
  "held_by k token t \<Longrightarrow> reclaims t (unclaim_row t)"
  "timed_out now t \<Longrightarrow> reclaims t (t\<lparr>tf_status := TS_pending, tf_claimToken := None, tf_claimExpiresAt := None, tf_phase := None\<rparr>)"
  by (simp_all add: reclaims_def kept_def is_open_def claim_row_def held_by_def unclaim_row_def timed_out_def)

lemma transfer_step_ok:
  assumes "transfer_step T s s'" "transfers_ok s"
  shows "transfers_ok s'"
  using assms(1)
proof (cases rule: transfer_step.cases)
  case (create d l m r)
  then show ?thesis using ok_create assms(2) by blast
next
  case (create_free l d r)
  then show ?thesis using ok_create_free assms(2) by blast
next
  case (claim d l r)
  obtain old v sn where r: "r = (old, v, sn)" by (cases r)
  show ?thesis
    by (rule claimTransfer_Inr [OF claim(2) [unfolded r]]) (auto intro!: transfers_ok_reclaim assms(2) reclaims_rows)
next
  case (mark k token p b)
  then show ?thesis by (auto simp: markTransferPhase_def intro!: transfers_ok_reclaim assms(2) reclaims_rows)
next
  case (unclaim k token b)
  then show ?thesis by (auto simp: rollbackProcessingTransfer_def intro!: transfers_ok_reclaim assms(2) reclaims_rows)
next
  case (settle now l k who outcome b)
  then show ?thesis using ok_settle assms(2) by blast
next
  case (execution now l x u)
  then show ?thesis using ok_execute assms(2) by blast
next
  case (timeout now n)
  then show ?thesis by (auto simp: cleanupTimeoutTransfers_def intro!: transfers_ok_reclaim assms(2) reclaims_rows)
next
  case other
  then have "net_charge s' k = net_charge s k" "revenue s' k = revenue s k" for k
    by (simp_all add: net_charge_logs revenue_def)
  then show ?thesis using assms(2) other by (simp add: transfers_ok_def row_ok_def)
qed

interpretation transfer_runs: invariant_system "transfer_step T" transfers_ok for T
  by unfold_locales (rule transfer_step_ok)

section \<open>Rows along a run\<close>

text \<open>A closed row never changes, and a claim appears only by a claim.\<close>

definition moves :: "string set \<Rightarrow> transfer \<Rightarrow> transfer \<Rightarrow> bool" where
  "moves T t t' \<longleftrightarrow> t' = t \<or> kept t t' \<and> is_open t
     \<and> (\<forall>token. held_by (tf_id t) token t' \<longrightarrow> held_by (tf_id t) token t \<or> token \<in> T)"

lemma moves_update:
  "(\<And>t. t \<in> set ts \<Longrightarrow> P t \<Longrightarrow> moves T t (f t)) \<Longrightarrow>
   \<exists>g new. update_where P f ts = map g ts @ new \<and> (\<forall>t\<in>set ts. moves T t (g t)) \<and> (\<forall>t\<in>set new. tf_status t = TS_pending)"
  by (intro exI [of _ "\<lambda>t. if P t then f t else t"] exI [of _ "[]"]) (auto simp: update_where_def moves_def)

lemma moves_none:
  "\<exists>g new. ts = map g ts @ new \<and> (\<forall>t\<in>set ts. moves T t (g t)) \<and> (\<forall>t\<in>set new. tf_status t = TS_pending)"
  by (intro exI [of _ "\<lambda>t. t"] exI [of _ "[]"]) (auto simp: moves_def)

lemma moves_insert:
  "\<exists>g new. transfers (insert_transfer d fee s) = map g (transfers s) @ new \<and> (\<forall>t\<in>set (transfers s). moves T t (g t))
     \<and> (\<forall>t\<in>set new. tf_status t = TS_pending)"
  by (intro exI [of _ "\<lambda>t. t"] exI [of _ "[new_transfer d fee (transfer_seq s)]"])
    (auto simp: moves_def insert_transfer_def new_transfer_def)

lemma moves_rows:
  "tf_status t = TS_pending \<Longrightarrow> ci_claimToken d \<in> T \<Longrightarrow> moves T t (claim_row d i sn t)"
  "held_by k token t \<Longrightarrow> moves T t (t\<lparr>tf_phase := p\<rparr>)"
  "held_by k token t \<Longrightarrow> moves T t (unclaim_row t)"
  "tf_status t = TS_pending \<Longrightarrow> moves T t (settle_row now outcome b t)"
  "held_by k token t \<Longrightarrow> moves T t (accept_row now t)"
  "timed_out now t \<Longrightarrow> moves T t (t\<lparr>tf_status := TS_pending, tf_claimToken := None, tf_claimExpiresAt := None, tf_phase := None\<rparr>)"
proof -
  show "tf_status t = TS_pending \<Longrightarrow> moves T t (settle_row now outcome b t)"
    using settle_row_simps(1) [of t now outcome b] settle_row_simps(2) [of now outcome b t]
    by (auto simp: moves_def is_open_def held_by_def)
qed (auto simp: moves_def held_by_def kept_def is_open_def claim_row_def unclaim_row_def accept_row_def timed_out_def)

lemma refund_transfers: "refund_fee l outcome t s = Inr (x, s') \<Longrightarrow> transfers s' = transfers s"
  by (auto simp: refund_fee_def Let_def split: option.split_asm if_split_asm sum.split_asm)

lemma transfer_step_rows:
  assumes "transfer_step T s s'"
  shows "\<exists>g new. transfers s' = map g (transfers s) @ new \<and> (\<forall>t\<in>set (transfers s). moves T t (g t))
    \<and> (\<forall>t\<in>set new. tf_status t = TS_pending)"
  using assms
proof (cases rule: transfer_step.cases)
  case (create d l m r)
  show ?thesis
  proof (cases "cr_fee d > 0")
    case True
    then obtain x where x: "debitTransferFee m (transfer_seq s) (cr_fromUserId d) (cr_instanceId d) (cr_instanceName d)
      (cr_fee d) (insert_transfer d (Some (cr_fee d)) s) = Inr (x, s')" using createWithFee_Inr [OF create(2)] by blast
    show ?thesis by (rule debit_Inr [OF x]) (simp add: moves_insert)
  next
    case False
    then show ?thesis using createWithFee_Inr [OF create(2)] by (simp add: moves_insert)
  qed
next
  case (create_free l d r)
  then have "s' = insert_transfer d None s" by (auto simp: createTransfer_def split: sum.split_asm if_split_asm)
  then show ?thesis by (simp add: moves_insert)
next
  case (claim d l r)
  obtain old v sn where r: "r = (old, v, sn)" by (cases r)
  show ?thesis
    by (rule claimTransfer_Inr [OF claim(2) [unfolded r]]) (auto intro!: moves_update moves_rows claim(1))
next
  case (mark k token p b)
  then show ?thesis by (auto simp: markTransferPhase_def intro!: moves_update moves_rows)
next
  case (unclaim k token b)
  then show ?thesis by (auto simp: rollbackProcessingTransfer_def intro!: moves_update moves_rows)
next
  case (settle now l k who outcome b)
  show ?thesis
  proof (cases b)
    case True
    then show ?thesis using settle_Inr [OF settle] by (auto dest!: refund_transfers intro!: moves_update moves_rows)
  next
    case False
    then show ?thesis using settle_Inr [OF settle] by (auto intro: moves_none)
  qed
next
  case (execution now l x u)
  show ?thesis by (rule execute_Inr [OF execution]) (auto intro!: moves_update moves_rows)
next
  case (timeout now n)
  then show ?thesis by (auto simp: cleanupTimeoutTransfers_def intro!: moves_update moves_rows)
next
  case other
  then show ?thesis by (simp add: moves_none)
qed

interpretation closed_runs: invariant_system "transfer_step T" "\<lambda>s. t \<in> set (transfers s) \<and> \<not> is_open t" for T t
proof
  fix s s' assume a: "transfer_step T s s'" "t \<in> set (transfers s) \<and> \<not> is_open t"
  obtain g new where g: "transfers s' = map g (transfers s) @ new" "\<forall>t\<in>set (transfers s). moves T t (g t)"
    using transfer_step_rows [OF a(1)] by blast
  then have "g t = t" using a(2) by (auto simp: moves_def)
  then show "t \<in> set (transfers s') \<and> \<not> is_open t" using g(1) a(2) by (auto intro: rev_image_eqI)
qed

interpretation stale_runs: invariant_system "transfer_step T"
  "\<lambda>s. token \<notin> T \<and> (\<forall>t\<in>set (transfers s). \<not> held_by k token t)" for T token k
proof
  fix s s' assume a: "transfer_step T s s'" "token \<notin> T \<and> (\<forall>t\<in>set (transfers s). \<not> held_by k token t)"
  obtain g new where g: "transfers s' = map g (transfers s) @ new" "\<forall>t\<in>set (transfers s). moves T t (g t)"
    "\<forall>t\<in>set new. tf_status t = TS_pending" using transfer_step_rows [OF a(1)] by blast
  have "\<not> held_by k token (g t)" if "t \<in> set (transfers s)" for t
  proof
    assume h: "held_by k token (g t)"
    have m: "moves T t (g t)" using g(2) that by blast
    then have "tf_id (g t) = tf_id t" by (auto simp: moves_def kept_def)
    then have "k = tf_id t" using h by (simp add: held_by_def)
    then show False using m h a(2) that by (auto simp: moves_def)
  qed
  then show "token \<notin> T \<and> (\<forall>t\<in>set (transfers s'). \<not> held_by k token t)"
    using g(1,3) a(2) by (auto simp: held_by_def)
qed

section \<open>The handlers, step by step\<close>

















section \<open>Examples\<close>

text \<open>Two users, an instance of the first on a host, and a transfer of it.\<close>

definition ex_user :: "int \<Rightarrow> user" where
  "ex_user k = \<lparr>u_id = k, u_username = ''u'', u_email = None, u_avatarStyle = ''a'', u_avatarBadgeId = None,
     u_status = U_active, u_balance = 10,
     u_role = R_user, u_hostingBalance = 0, u_hourlyReserved = 0, u_affBalance = 0\<rparr>"

definition ex_instance :: instance_row where
  "ex_instance = \<lparr>i_id = 5, i_incusId = ''c'', i_name = ''web'', i_userId = 1, i_hostId = 1, i_packagePlanId = None,
     i_billingMode = BM_package, i_status = IS_stopped, i_cleanupPending = False, i_portLimit = None, i_snapshotLimit = None,
     i_backupLimit = None, i_expiresAt = None, i_suspendedAt = None, i_suspendedBy = None, i_suspendReason = None,
     i_autoRenew = False, i_autoRenewAttempts = 0, i_lastAutoRenewAt = None, i_expiryNotifiedAt = None, i_version = 0,
     i_displayOrder = 0,
     i_packageId = None, i_billingPrice = None, i_billingCycle = None, i_cpu = 1, i_memory = 1, i_disk = 1,
     i_deletionPending = False, i_remoteDeleted = False, i_deletionMode = None, i_deletionValue = None, i_feeWaiver = False\<rparr>"

definition ex_host :: host where
  "ex_host = \<lparr>h_id = 1, h_userId = 2, h_natPortStart = None, h_natPortEnd = None, h_cpuUsed = 5, h_memoryUsed = 5,
     h_diskUsed = 5, h_natPortsUsed = 0, h_cpuAllowanceMax = 0, h_memoryMax = 0, h_enableResourcePool = False\<rparr>"

definition ex_create :: create_input where
  "ex_create = \<lparr>cr_instanceId = 5, cr_fromUserId = 1, cr_toUserId = 2, cr_remark_text = None, cr_fee = 3, cr_instanceName = ''web''\<rparr>"

definition ex_transfer :: transfer where
  "ex_transfer = new_transfer ex_create None 1"

definition ex_db :: "transfer list \<Rightarrow> db" where
  "ex_db ts = empty_db\<lparr>users := [ex_user 1, ex_user 2], instances := [ex_instance], hosts := [ex_host], transfers := ts,
     transfer_seq := 2\<rparr>"

lemma ex_db_ok: "tf_id t = 1 \<Longrightarrow> tf_fee t = None \<Longrightarrow> tf_refundedAt t = None \<Longrightarrow> transfers_ok (ex_db [t])"
  by (auto simp: transfers_ok_def row_ok_def ex_db_def empty_db_def net_charge_def revenue_def count_where_def fee_of_def)


definition ex_env :: route_env where
  "ex_env = \<lparr>re_claimLock = True, re_execLock = True, re_clientOk = True, re_rename = True, re_renameBack = True,
     re_token = ''k'', re_newIncusId = ''n'', re_leaseUntil = 2000, re_now = 1000, re_suffix = ''(u)'', re_meanwhile = (\<lambda>s. s)\<rparr>"

section \<open>Properties\<close>



text \<open>A transfer that was accepted, rejected or cancelled is final: no later step changes its row, nobody can
  settle it again (so its fee is never refunded twice, or after acceptance), and no claim of it can be executed.\<close>

theorem closed_transfers_final:
  assumes "(transfer_step T)\<^sup>*\<^sup>* s s'" "transfers_ok s" "t \<in> set (transfers s)" "\<not> is_open t"
  shows "t \<in> set (transfers s') \<and> settleTransferWithRefund now l (tf_id t) who outcome s' = Inr (False, s')
    \<and> (\<forall>s''. executeTransfer now l' d s' = Inr ((), s'') \<longrightarrow> ex_transferId d \<noteq> tf_id t)"
proof -
  have t: "t \<in> set (transfers s')" using closed_runs.inv_run [OF assms(1)] assms(3,4) by blast
  have d: "distinct (map tf_id (transfers s'))" using transfer_runs.inv_run [OF assms(1,2)] by (simp add: transfers_ok_def)
  have o: "\<not> is_open u" if "u \<in> set (transfers s')" "tf_id u = tf_id t" for u using row_unique [OF d that(1) t that(2)] assms(4) by simp
  have "find_where (\<lambda>u. tf_id u = tf_id t \<and> tf_status u = TS_pending \<and> acts_as (settler outcome) who u) (transfers s') = None"
    using o by (auto simp: find_where_None is_open_def)
  moreover have "ex_transferId d \<noteq> tf_id t" if x: "executeTransfer now l' d s' = Inr ((), s'')" for s''
    by (rule execute_Inr [OF x]) (use o in \<open>auto simp: executable_def held_by_def is_open_def\<close>)
  ultimately show ?thesis using t by (simp add: settleTransferWithRefund_def)
qed

theorem closed_transfers_final_witness:
  "settleTransferWithRefund 9 True 1 1 Cancelled (ex_db [ex_transfer\<lparr>tf_status := TS_rejected\<rparr>])
     = Inr (False, ex_db [ex_transfer\<lparr>tf_status := TS_rejected\<rparr>])"
proof -
  let ?t = "ex_transfer\<lparr>tf_status := TS_rejected\<rparr>"
  have ok: "transfers_ok (ex_db [?t])" by (rule ex_db_ok) (simp_all add: ex_transfer_def new_transfer_def)
  have o: "\<not> is_open ?t" and t: "?t \<in> set (transfers (ex_db [?t]))" and i: "tf_id ?t = 1"
    by (simp_all add: ex_transfer_def new_transfer_def is_open_def ex_db_def)
  show ?thesis using closed_transfers_final [OF rtranclp.rtrancl_refl ok t o, of 9 True 1 Cancelled] i by simp
qed

text \<open>A handler that has lost its claim is powerless: once no transfer is held under its token, and as long as nobody
  claims with that token again, it can neither move the phase, nor release the transfer, nor change the
  ownership, however the run went on (the transfer may have been claimed again by another handler).\<close>

theorem lost_claim_powerless:
  assumes "(transfer_step T)\<^sup>*\<^sup>* s s'" "token \<notin> T" "\<forall>t\<in>set (transfers s). \<not> held_by k token t"
  shows "markTransferPhase k token phase s' = (False, s') \<and> rollbackProcessingTransfer k token s' = (False, s')
    \<and> (ex_transferId d = k \<longrightarrow> ex_claimToken d = token \<longrightarrow> isl (executeTransfer now l d s'))"
proof -
  have n: "\<forall>t\<in>set (transfers s'). \<not> held_by k token t" using stale_runs.inv_run [OF assms(1)] assms(2,3) by blast
  then have "count_where (held_by k token) (transfers s') = 0" and "update_where (held_by k token) f (transfers s') = transfers s'" for f
    by (simp_all add: count_where_0 update_where_id)
  moreover have "find_where (executable d) (transfers s') = None" if "ex_transferId d = k" "ex_claimToken d = token"
    using n that by (auto simp: find_where_None executable_def)
  ultimately show ?thesis
    by (auto simp: markTransferPhase_def rollbackProcessingTransfer_def executeTransfer_def executeTransferTransaction_def split: sum.split)
qed

theorem lost_claim_powerless_witness:
  "\<exists>s'. (transfer_step {''j''})\<^sup>*\<^sup>* (ex_db [ex_transfer]) s' \<and> tf_status (hd (transfers s')) = TS_processing
     \<and> rollbackProcessingTransfer 1 ''k'' s' = (False, s')"
proof -
  let ?d = "(claim_of ex_env ex_transfer 2 Receiver)\<lparr>ci_claimToken := ''j''\<rparr>"
  have c: "case claimTransferTransaction True ?d (ex_db [ex_transfer]) of Inl _ \<Rightarrow> False
    | Inr (r, s) \<Rightarrow> tf_status (hd (transfers s)) = TS_processing" by code_simp
  then obtain r s where s: "claimTransferTransaction True ?d (ex_db [ex_transfer]) = Inr (r, s)"
    "tf_status (hd (transfers s)) = TS_processing" by (auto split: sum.split_asm)
  have run: "(transfer_step {''j''})\<^sup>*\<^sup>* (ex_db [ex_transfer]) s"
    using transfer_step.claim [OF _ s(1), of "{''j''}"] by (intro r_into_rtranclp) simp
  have "\<forall>t\<in>set (transfers (ex_db [ex_transfer])). \<not> held_by 1 ''k'' t"
    by (simp add: ex_db_def ex_transfer_def new_transfer_def held_by_def)
  then have "rollbackProcessingTransfer 1 ''k'' s = (False, s)" using lost_claim_powerless [OF run, of "''k''" 1] by simp
  then show ?thesis using run s(2) by blast
qed



text \<open>The synchronisation as it would be with the check that is there for it.\<close>

definition guarded_sync :: "int \<Rightarrow> instance_row \<Rightarrow> db \<Rightarrow> db" where
  "guarded_sync now inst s =
     (if shouldSuppressMissingIncusDeletion now (getPendingTransferByInstanceId (i_id inst) s) then s else sync_missing inst s)"

text \<open>Counterexample: the status synchronisation may look for the container between its rename and the change of
  ownership. It does not ask \<open>shouldSuppressMissingIncusDeletion\<close>, which would tell it to wait, finds no container under the
  old name and marks the instance as deleted: the acceptance fails, and the container lives on under the old name while
  its instance counts as deleted. With the check the acceptance succeeds.\<close>

theorem sync_deletes_moving_instance:
  "(case accept_route (ex_env\<lparr>re_meanwhile := sync_missing ex_instance\<rparr>) 2 1 ''c'' (ex_db [ex_transfer]) of
     (reply, container, s) \<Rightarrow> reply = RP_database_error \<and> container = i_incusId ex_instance
       \<and> map i_status (instances s) = [IS_deleted] \<and> map tf_status (transfers s) = [TS_pending])
   \<and> fst (accept_route (ex_env\<lparr>re_meanwhile := guarded_sync 1500 ex_instance\<rparr>) 2 1 ''c'' (ex_db [ex_transfer])) = RP_done"
  by code_simp

end
