(* ===== verification/Recharge.thy ===== *)
theory Recharge
  imports Balance
begin

text \<open>
  Recharge orders: \<open>server/src/db/recharge-records.ts\<close>. A payment callback completes an order and credits the
  balance in one transaction; callbacks may come twice, late or out of order. Clock readings are arguments; callback
  data and payment details are texts (\<open>None\<close>: \<open>undefined\<close>, which leaves a column as it is).
\<close>

section \<open>Amounts\<close>

definition MAX_DECIMAL_10_2 :: rat where
  "MAX_DECIMAL_10_2 = 9999999999 / 100"

definition isValidRechargeAmount :: "rat \<Rightarrow> bool" where
  "isValidRechargeAmount v \<longleftrightarrow>
     (if v \<le> 0 \<or> v > MAX_DECIMAL_10_2 then False
      else let rounded = of_int (js_round (v * 100)) / 100 in \<bar>v - rounded\<bar> < 1 / 10 ^ 9)"

definition validateRechargeActualAmount :: "rat \<Rightarrow> rat \<Rightarrow> rat outcome" where
  "validateRechargeActualAmount v orderAmount =
     (if \<not> isValidRechargeAmount orderAmount \<or> \<not> isValidRechargeAmount v then Inl (Error ''INVALID_ACTUAL_AMOUNT'')
      else if v > orderAmount + 1 / 10 ^ 9 then Inl (Error ''ACTUAL_AMOUNT_EXCEEDS_ORDER'')
      else Inr (to_fixed 2 v))"

definition resolveActualAmount :: "recharge \<Rightarrow> rat option \<Rightarrow> rat outcome" where
  "resolveActualAmount r requestedAmount =
     validateRechargeActualAmount
       (case requestedAmount of Some a \<Rightarrow> a
        | None \<Rightarrow> (case rr_actualAmount r of Some a \<Rightarrow> a | None \<Rightarrow> rr_amount r))
       (rr_amount r)"

section \<open>Orders\<close>

definition getRechargeRecordByOrderNo :: "string \<Rightarrow> db \<Rightarrow> recharge option" where
  "getRechargeRecordByOrderNo orderNo s = find_key rr_orderNo orderNo (recharges s)"

definition getRechargeRecordByTradeNo :: "string \<Rightarrow> db \<Rightarrow> recharge option" where
  "getRechargeRecordByTradeNo tradeNo s = find_where (\<lambda>r. rr_tradeNo r = Some tradeNo) (recharges s)"

record order_input =
  oi_orderNo :: string
  oi_userId :: int
  oi_providerId :: int
  oi_amount :: rat
  oi_actualAmount :: "rat option"
  oi_fee :: "rat option"
  oi_paymentMethod :: "string option"
  oi_expiredAt :: "int option"
  oi_paymentDetails :: "string option"

definition new_order :: "int \<Rightarrow> order_input \<Rightarrow> recharge" where
  "new_order now d = \<lparr>rr_orderNo = oi_orderNo d, rr_userId = oi_userId d, rr_providerId = oi_providerId d,
     rr_amount = column 2 (oi_amount d), rr_actualAmount = map_option (column 2) (oi_actualAmount d),
     rr_fee = column 2 (case oi_fee d of None \<Rightarrow> 0 | Some f \<Rightarrow> f), rr_tradeNo = None, rr_paymentMethod = oi_paymentMethod d,
     rr_status = RS_pending, rr_callbackData = None, rr_callbackAt = None, rr_paymentDetails = oi_paymentDetails d,
     rr_failReason = None, rr_expiredAt = Some (case oi_expiredAt d of None \<Rightarrow> now + 30 * 60 * 1000 | Some t \<Rightarrow> t),
     rr_completedAt = None\<rparr>"

text \<open>The order number is given or generated; the column is unique.\<close>

definition createRechargeOrder :: "int \<Rightarrow> order_input \<Rightarrow> db \<Rightarrow> (recharge \<times> db) outcome" where
  "createRechargeOrder now d s =
     (if \<not> isValidRechargeAmount (oi_amount d) then Inl (Error ''INVALID_RECHARGE_AMOUNT'')
      else case (case oi_actualAmount d of None \<Rightarrow> Inr 0 | Some a \<Rightarrow> validateRechargeActualAmount a (oi_amount d)) of
        Inl e \<Rightarrow> Inl e
      | Inr _ \<Rightarrow>
          if find_key rr_orderNo (oi_orderNo d) (recharges s) \<noteq> None then Inl UniqueViolation
          else Inr (new_order now d, s\<lparr>recharges := recharges s @ [new_order now d]\<rparr>))"

text \<open>An \<open>updateMany\<close> of the rows of an order in certain states; then the row is read again.\<close>

definition in_states :: "string \<Rightarrow> recharge_status set \<Rightarrow> recharge \<Rightarrow> bool" where
  "in_states orderNo sts r \<longleftrightarrow> rr_orderNo r = orderNo \<and> rr_status r \<in> sts"

definition move_order ::
    "string \<Rightarrow> recharge_status set \<Rightarrow> (recharge \<Rightarrow> recharge) \<Rightarrow> recharge_status set \<Rightarrow> db \<Rightarrow> (recharge \<times> db) outcome" where
  "move_order orderNo sts f accepted s =
     (let count = count_where (in_states orderNo sts) (recharges s);
          s1 = s\<lparr>recharges := update_where (in_states orderNo sts) f (recharges s)\<rparr> in
      case find_key rr_orderNo orderNo (recharges s1) of
        None \<Rightarrow> Inl (Failure M_order_missing)
      | Some r \<Rightarrow> if count = 0 \<and> rr_status r \<notin> accepted then Inl (Failure (M_order_state (rr_status r))) else Inr (r, s1))"

definition or_keep :: "'a option \<Rightarrow> 'a option \<Rightarrow> 'a option" where
  "or_keep new old = (case new of None \<Rightarrow> old | Some _ \<Rightarrow> new)"

definition markRechargePaid :: "string \<Rightarrow> string option \<Rightarrow> db \<Rightarrow> (recharge \<times> db) outcome" where
  "markRechargePaid orderNo tradeNo s =
     move_order orderNo {RS_pending, RS_paid}
       (\<lambda>r. r\<lparr>rr_status := RS_paid, rr_tradeNo := or_keep tradeNo (rr_tradeNo r)\<rparr>) {RS_paid, RS_completed} s"

definition failRecharge :: "int \<Rightarrow> string \<Rightarrow> string \<Rightarrow> string option \<Rightarrow> string option \<Rightarrow> db \<Rightarrow> (recharge \<times> db) outcome" where
  "failRecharge now orderNo failReason callbackData paymentDetails s =
     move_order orderNo {RS_pending, RS_paid}
       (\<lambda>r. r\<lparr>rr_status := RS_failed, rr_failReason := Some failReason, rr_callbackData := or_keep callbackData (rr_callbackData r),
          rr_callbackAt := Some now, rr_paymentDetails := or_keep paymentDetails (rr_paymentDetails r)\<rparr>) {RS_failed} s"

definition cancelRecharge :: "int \<Rightarrow> string \<Rightarrow> string option \<Rightarrow> string option \<Rightarrow> db \<Rightarrow> (recharge \<times> db) outcome" where
  "cancelRecharge now orderNo callbackData paymentDetails s =
     move_order orderNo {RS_pending, RS_paid}
       (\<lambda>r. r\<lparr>rr_status := RS_cancelled, rr_paymentDetails := or_keep paymentDetails (rr_paymentDetails r),
          rr_callbackData := or_keep callbackData (rr_callbackData r),
          rr_callbackAt := (if callbackData \<noteq> None then Some now else rr_callbackAt r)\<rparr>) {RS_cancelled} s"

record completion =
  co_tradeNo :: "string option"
  co_callbackData :: "string option"
  co_actualAmount :: "rat option"
  co_paymentDetails :: "string option"

definition completed_row :: "int \<Rightarrow> recharge \<Rightarrow> completion \<Rightarrow> rat \<Rightarrow> recharge \<Rightarrow> recharge" where
  "completed_row now read d actualAmount r = r\<lparr>rr_status := RS_completed, rr_tradeNo := or_keep (co_tradeNo d) (rr_tradeNo r),
     rr_callbackData := or_keep (co_callbackData d) (rr_callbackData r), rr_callbackAt := Some now, rr_completedAt := Some now,
     rr_actualAmount := Some (column 2 actualAmount),
     rr_paymentDetails := (case co_paymentDetails d of None \<Rightarrow> rr_paymentDetails read | Some p \<Rightarrow> Some p)\<rparr>"

text \<open>
  \<open>completeRecharge\<close> reads the order (\<open>read\<close>), decides, and writes in a transaction of its own, in which the
  state of the order is checked again; \<open>complete_tx\<close> is that transaction, on whatever the database has become.
\<close>

definition complete_tx :: "int \<Rightarrow> recharge \<Rightarrow> completion \<Rightarrow> rat \<Rightarrow> db \<Rightarrow> (recharge \<times> db) outcome" where
  "complete_tx now read d actualAmount s =
     (let P = in_states (rr_orderNo read) {RS_pending, RS_paid, RS_cancelled};
          count = count_where P (recharges s);
          s1 = s\<lparr>recharges := update_where P (completed_row now read d actualAmount) (recharges s)\<rparr> in
      if count = 0 then
        (case find_key rr_orderNo (rr_orderNo read) (recharges s1) of
           Some r \<Rightarrow> if rr_status r = RS_completed then Inr (r, s1) else Inl (Failure M_order_changed)
         | None \<Rightarrow> Inl (Failure M_order_changed))
      else case find_key rr_orderNo (rr_orderNo read) (recharges s1) of
        None \<Rightarrow> Inl (Failure M_order_missing)
      | Some updated \<Rightarrow>
          (case find_key u_id (rr_userId read) (users s1) of
             None \<Rightarrow> Inl RecordNotFound
           | Some user \<Rightarrow>
               let s2 = put_balance (rr_userId read) (u_balance user + actualAmount) s1;
                   after = column 8 (u_balance user + actualAmount) in
               Inr (updated, add_log (mk_log (rr_userId read) BL_recharge actualAmount (after - actualAmount) after
                 (Some (rr_orderNo read)) None None (Some (R_recharge (rr_amount read)))) s2)))"

definition complete_read :: "string \<Rightarrow> completion \<Rightarrow> db \<Rightarrow> (recharge + recharge \<times> rat) outcome" where
  "complete_read orderNo d s =
     (case find_key rr_orderNo orderNo (recharges s) of
        None \<Rightarrow> Inl (Failure M_order_missing)
      | Some r \<Rightarrow>
          if rr_status r = RS_completed then Inr (Inl r)
          else if rr_status r = RS_failed then Inl (Failure (M_order_state (rr_status r)))
          else case resolveActualAmount r (co_actualAmount d) of Inl e \<Rightarrow> Inl e | Inr a \<Rightarrow> Inr (Inr (r, a)))"

definition completeRecharge :: "int \<Rightarrow> string \<Rightarrow> completion \<Rightarrow> db \<Rightarrow> (recharge \<times> db) outcome" where
  "completeRecharge now orderNo d s =
     (case complete_read orderNo d s of
        Inl e \<Rightarrow> Inl e
      | Inr (Inl r) \<Rightarrow> Inr (r, s)
      | Inr (Inr (r, a)) \<Rightarrow> complete_tx now r d a s)"

definition update_order :: "string \<Rightarrow> (recharge \<Rightarrow> recharge) \<Rightarrow> db \<Rightarrow> (recharge \<times> db) outcome" where
  "update_order orderNo f s =
     (case find_key rr_orderNo orderNo (recharges s) of
        None \<Rightarrow> Inl RecordNotFound
      | Some r \<Rightarrow> Inr (f r, s\<lparr>recharges := update_key rr_orderNo orderNo f (recharges s)\<rparr>))"

text \<open>A trade number may also be set to \<open>null\<close>.\<close>

definition updateRechargeOrderMetadata ::
    "int \<Rightarrow> string \<Rightarrow> string option option \<Rightarrow> string option \<Rightarrow> string option \<Rightarrow> db \<Rightarrow> (recharge \<times> db) outcome" where
  "updateRechargeOrderMetadata now orderNo tradeNo callbackData paymentDetails s =
     update_order orderNo (\<lambda>r. r\<lparr>rr_tradeNo := (case tradeNo of None \<Rightarrow> rr_tradeNo r | Some t \<Rightarrow> t),
       rr_callbackData := or_keep callbackData (rr_callbackData r),
       rr_callbackAt := (if callbackData \<noteq> None then Some now else rr_callbackAt r),
       rr_paymentDetails := or_keep paymentDetails (rr_paymentDetails r)\<rparr>) s"

definition updateRechargePaymentMethod :: "string \<Rightarrow> string \<Rightarrow> db \<Rightarrow> (recharge \<times> db) outcome" where
  "updateRechargePaymentMethod orderNo paymentMethod s = update_order orderNo (\<lambda>r. r\<lparr>rr_paymentMethod := Some paymentMethod\<rparr>) s"

definition getExpiredPendingOrders :: "int \<Rightarrow> db \<Rightarrow> recharge list" where
  "getExpiredPendingOrders now s = filter (\<lambda>r. rr_status r = RS_pending
     \<and> (case rr_expiredAt r of None \<Rightarrow> False | Some t \<Rightarrow> t < now)) (recharges s)"

definition expireOrders :: "string list \<Rightarrow> db \<Rightarrow> nat \<times> db" where
  "expireOrders orderNos s =
     (let P = (\<lambda>r. rr_orderNo r \<in> set orderNos \<and> rr_status r = RS_pending) in
      (count_where P (recharges s), s\<lparr>recharges := update_where P (\<lambda>r. r\<lparr>rr_status := RS_cancelled\<rparr>) (recharges s)\<rparr>))"

definition credited_amount :: "recharge \<Rightarrow> rat" where
  "credited_amount r = (case rr_actualAmount r of Some a \<Rightarrow> a | None \<Rightarrow> rr_amount r)"

definition getUserRechargeStats :: "int \<Rightarrow> db \<Rightarrow> rat \<times> nat \<times> nat" where
  "getUserRechargeStats userId s =
     ((\<Sum>r\<leftarrow>filter (\<lambda>r. rr_userId r = userId \<and> rr_status r = RS_completed) (recharges s). credited_amount r),
      count_where (\<lambda>r. rr_userId r = userId \<and> rr_status r = RS_completed) (recharges s),
      count_where (\<lambda>r. rr_userId r = userId \<and> rr_status r = RS_pending) (recharges s))"

section \<open>Orders along a run\<close>

text \<open>
  The completing transaction may run long after its read; of the row it read it uses the columns that no operation
  changes, and the payment details.
\<close>

definition same_order :: "recharge \<Rightarrow> recharge \<Rightarrow> bool" where
  "same_order r r' \<longleftrightarrow> rr_orderNo r' = rr_orderNo r \<and> rr_userId r' = rr_userId r \<and> rr_amount r' = rr_amount r"

definition recharge_logs :: "db \<Rightarrow> balance_log list" where
  "recharge_logs s = filter (\<lambda>e. bl_type e = BL_recharge) (balance_logs s)"

inductive order_step :: "db \<Rightarrow> db \<Rightarrow> bool" where
  create: "createRechargeOrder now d s = Inr (r, s') \<Longrightarrow> order_step s s'"
| paid: "markRechargePaid k t s = Inr (r, s') \<Longrightarrow> order_step s s'"
| failed: "failRecharge now k why c p s = Inr (r, s') \<Longrightarrow> order_step s s'"
| cancelled: "cancelRecharge now k c p s = Inr (r, s') \<Longrightarrow> order_step s s'"
| complete: "row \<in> set (recharges s) \<Longrightarrow> same_order row read \<Longrightarrow> resolveActualAmount read (co_actualAmount d) = Inr a
    \<Longrightarrow> complete_tx now read d a s = Inr (r, s') \<Longrightarrow> order_step s s'"
| metadata: "updateRechargeOrderMetadata now k t c p s = Inr (r, s') \<Longrightarrow> order_step s s'"
| repay: "updateRechargePaymentMethod k m s = Inr (r, s') \<Longrightarrow> order_step s s'"
| expire: "expireOrders ks s = (n, s') \<Longrightarrow> order_step s s'"
| other: "recharges s' = recharges s \<Longrightarrow> recharge_logs s' = recharge_logs s \<Longrightarrow> order_step s s'"

text \<open>What the log has credited for an order.\<close>

definition credited :: "db \<Rightarrow> string \<Rightarrow> rat" where
  "credited s k = (\<Sum>e\<leftarrow>filter (\<lambda>e. bl_orderId e = Some k) (recharge_logs s). bl_amount e)"

definition order_ok :: "db \<Rightarrow> recharge \<Rightarrow> bool" where
  "order_ok s r \<longleftrightarrow>
     (if rr_status r = RS_completed
      then \<exists>a. rr_actualAmount r = Some a \<and> 0 \<le> a \<and> a \<le> rr_amount r \<and> credited s (rr_orderNo r) = a
      else credited s (rr_orderNo r) = 0)
     \<and> has_scale 2 (rr_amount r) \<and> rr_status r \<noteq> RS_refunded"

definition orders_ok :: "db \<Rightarrow> bool" where
  "orders_ok s \<longleftrightarrow> distinct (map rr_orderNo (recharges s)) \<and> (\<forall>r\<in>set (recharges s). order_ok s r)
     \<and> (\<forall>k. k \<notin> rr_orderNo ` set (recharges s) \<longrightarrow> credited s k = 0)"

lemma cents_le: "has_scale 2 x \<Longrightarrow> has_scale 2 y \<Longrightarrow> x < y + 1 / 100 \<Longrightarrow> x \<le> y"
proof (elim has_scaleE)
  fix b c :: int
  assume x: "x = of_int b / 10\<^sup>2" and y: "y = of_int c / 10\<^sup>2" and l: "x < y + 1 / 100"
  then have "(of_int b :: rat) < of_int (c + 1)" by (simp add: field_simps)
  then have "b \<le> c" by (simp only: of_int_less_iff)
  then show ?thesis by (simp add: x y)
qed

lemma validate_Inr:
  assumes "validateRechargeActualAmount v amount = Inr a" "has_scale 2 amount"
  shows "has_scale 2 a \<and> 0 \<le> a \<and> a \<le> amount"
proof -
  have v: "0 < v" "v \<le> amount + 1 / 1000000000" "a = to_fixed 2 v"
    using assms(1) by (auto simp: validateRechargeActualAmount_def isValidRechargeAmount_def split: if_split_asm)
  have "\<bar>to_fixed 2 v - v\<bar> \<le> 1 / 200" using to_fixed_error [of 2 v] by simp
  then have "to_fixed 2 v < amount + 1 / 100" using v(2) by linarith
  then show ?thesis using v cents_le [OF _ assms(2), of "to_fixed 2 v"] to_fixed_nonneg [of v 2] by simp
qed

lemma resolve_Inr:
  "resolveActualAmount r q = Inr a \<Longrightarrow> has_scale 2 (rr_amount r) \<Longrightarrow> has_scale 2 a \<and> 0 \<le> a \<and> a \<le> rr_amount r"
  unfolding resolveActualAmount_def by (rule validate_Inr)

lemma move_order_Inr:
  "move_order k sts f ok s = Inr (r, s') \<Longrightarrow> s' = s\<lparr>recharges := update_where (in_states k sts) f (recharges s)\<rparr>"
  by (auto simp: move_order_def Let_def split: option.split_asm if_split_asm)

lemma credited_cong: "recharge_logs s' = recharge_logs s \<Longrightarrow> credited s' k = credited s k"
  by (simp add: credited_def)

lemma credited_frame [simp]:
  "credited (s\<lparr>recharges := rs\<rparr>) k = credited s k" "credited (put_balance u v s) k = credited s k"
  by (simp_all add: credited_def recharge_logs_def put_balance_def)

lemma credited_add_log [simp]:
  "credited (add_log e s) k = credited s k + (if bl_type e = BL_recharge \<and> bl_orderId e = Some k then bl_amount e else 0)"
  by (simp add: credited_def recharge_logs_def add_log_def)

lemma recharges_frame [simp]:
  "recharges (put_balance u v s) = recharges s" "recharges (add_log e s) = recharges s"
  by (simp_all add: put_balance_def add_log_def)

text \<open>A step that credits nothing and completes or reopens no order.\<close>

definition kept_order :: "recharge \<Rightarrow> recharge \<Rightarrow> bool" where
  "kept_order r r' \<longleftrightarrow> same_order r r' \<and> (rr_status r' = RS_completed \<longleftrightarrow> rr_status r = RS_completed)
     \<and> (rr_status r = RS_completed \<longrightarrow> rr_actualAmount r' = rr_actualAmount r) \<and> (rr_status r' = RS_refunded \<longrightarrow> rr_status r = RS_refunded)"

lemma orders_ok_kept:
  assumes ok: "orders_ok s" and k: "\<And>r. P r \<Longrightarrow> kept_order r (f r)"
  shows "orders_ok (s\<lparr>recharges := update_where P f (recharges s)\<rparr>)"
proof -
  have m: "map rr_orderNo (update_where P f (recharges s)) = map rr_orderNo (recharges s)"
    using k by (auto simp: update_where_def kept_order_def same_order_def)
  have "order_ok (s\<lparr>recharges := update_where P f (recharges s)\<rparr>) r" if r: "r \<in> set (update_where P f (recharges s))" for r
  proof -
    obtain x where "x \<in> set (recharges s)" "r = (if P x then f x else x)" using r by (rule set_update_whereE)
    then show ?thesis using ok k [of x] by (auto simp: orders_ok_def order_ok_def kept_order_def same_order_def split: if_split_asm)
  qed
  moreover have "rr_orderNo ` set (update_where P f (recharges s)) = rr_orderNo ` set (recharges s)" using m by (metis set_map)
  ultimately show ?thesis using ok m by (simp add: orders_ok_def)
qed

lemma kept_rows:
  "in_states k {RS_pending, RS_paid} r \<Longrightarrow> kept_order r (r\<lparr>rr_status := RS_paid, rr_tradeNo := t\<rparr>)"
  "in_states k {RS_pending, RS_paid} r \<Longrightarrow> kept_order r (r\<lparr>rr_status := RS_failed, rr_failReason := w, rr_callbackData := c,
     rr_callbackAt := ca, rr_paymentDetails := p\<rparr>)"
  "in_states k {RS_pending, RS_paid} r \<Longrightarrow> kept_order r (r\<lparr>rr_status := RS_cancelled, rr_paymentDetails := p, rr_callbackData := c,
     rr_callbackAt := ca\<rparr>)"
  "kept_order r (r\<lparr>rr_tradeNo := t, rr_callbackData := c, rr_callbackAt := ca, rr_paymentDetails := p\<rparr>)"
  "kept_order r (r\<lparr>rr_paymentMethod := t\<rparr>)"
  "rr_status r = RS_pending \<Longrightarrow> kept_order r (r\<lparr>rr_status := RS_cancelled\<rparr>)"
  by (auto simp: kept_order_def same_order_def in_states_def)

lemma update_order_Inr:
  "update_order k f s = Inr (r, s') \<Longrightarrow> s' = s\<lparr>recharges := update_where (\<lambda>r. rr_orderNo r = k) f (recharges s)\<rparr>"
  by (auto simp: update_order_def update_key_def split: option.split_asm)

text \<open>The completing transaction.\<close>

lemma complete_tx_Inr:
  assumes "complete_tx now read d a s = Inr (r, s')"
  obtains "s' = s" "find_key rr_orderNo (rr_orderNo read) (recharges s) = Some r" "rr_status r = RS_completed"
  | user where "find_key u_id (rr_userId read) (users s) = Some user"
      "count_where (in_states (rr_orderNo read) {RS_pending, RS_paid, RS_cancelled}) (recharges s) \<noteq> 0"
      "s' = add_log (mk_log (rr_userId read) BL_recharge a (column 8 (u_balance user + a) - a) (column 8 (u_balance user + a))
           (Some (rr_orderNo read)) None None (Some (R_recharge (rr_amount read))))
         (put_balance (rr_userId read) (u_balance user + a)
           (s\<lparr>recharges := update_where (in_states (rr_orderNo read) {RS_pending, RS_paid, RS_cancelled})
              (completed_row now read d a) (recharges s)\<rparr>))"
      "find_key rr_orderNo (rr_orderNo read) (recharges s') = Some r"
proof (cases "count_where (in_states (rr_orderNo read) {RS_pending, RS_paid, RS_cancelled}) (recharges s) = 0")
  case True
  then have "update_where (in_states (rr_orderNo read) {RS_pending, RS_paid, RS_cancelled}) f (recharges s) = recharges s" for f
    by (intro update_where_id) (simp add: count_where_0)
  then show ?thesis using assms True that(1) by (auto simp: complete_tx_def Let_def split: option.split_asm if_split_asm)
next
  case False
  then show ?thesis using assms that(2) by (auto simp: complete_tx_def Let_def split: option.split_asm)
qed

lemma completed_row_simps [simp]:
  "rr_orderNo (completed_row now read d a r) = rr_orderNo r" "rr_amount (completed_row now read d a r) = rr_amount r"
  "rr_userId (completed_row now read d a r) = rr_userId r"
  "rr_status (completed_row now read d a r) = RS_completed" "rr_actualAmount (completed_row now read d a r) = Some (column 2 a)"
  by (simp_all add: completed_row_def)

lemma order_unique: "distinct (map rr_orderNo rs) \<Longrightarrow> r \<in> set rs \<Longrightarrow> q \<in> set rs \<Longrightarrow> rr_orderNo r = rr_orderNo q \<Longrightarrow> r = q"
  by (auto simp: distinct_map dest: inj_onD)

lemma mk_log_order: "bl_orderId (mk_log u ty a x y ord i k r) = ord"
  by (simp add: mk_log_def)

lemma ok_complete:
  assumes c: "complete_tx now read d a s = Inr (r, s')" and ok: "orders_ok s"
    and row: "row \<in> set (recharges s)" "same_order row read" and a: "resolveActualAmount read q = Inr a"
  shows "orders_ok s'"
proof (rule complete_tx_Inr [OF c])
  let ?P = "in_states (rr_orderNo read) {RS_pending, RS_paid, RS_cancelled}" and ?f = "completed_row now read d a"
  fix user
  assume n: "count_where ?P (recharges s) \<noteq> 0"
    and s': "s' = add_log (mk_log (rr_userId read) BL_recharge a (column 8 (u_balance user + a) - a) (column 8 (u_balance user + a))
           (Some (rr_orderNo read)) None None (Some (R_recharge (rr_amount read))))
         (put_balance (rr_userId read) (u_balance user + a) (s\<lparr>recharges := update_where ?P ?f (recharges s)\<rparr>))"
  have d: "distinct (map rr_orderNo (recharges s))" and each: "\<And>r. r \<in> set (recharges s) \<Longrightarrow> order_ok s r"
    using ok by (auto simp: orders_ok_def)
  obtain x where x: "x \<in> set (recharges s)" "?P x" using n count_where_0 [of ?P "recharges s"] by auto
  then have "x = row" using order_unique [OF d x(1) row(1)] row(2) by (simp add: in_states_def same_order_def)
  have "has_scale 2 (rr_amount read)" using each [OF row(1)] row(2) by (simp add: order_ok_def same_order_def)
  then have am: "has_scale 2 a" "0 \<le> a" "a \<le> rr_amount row" using resolve_Inr [OF a] row(2) by (auto simp: same_order_def)
  have cr: "credited s' k = credited s k + (if k = rr_orderNo read then a else 0)" for k
    using am(1) has_scale_mono [of 2 a 8] by (auto simp: s' to_fixed_id mk_log_order)
  have m: "map rr_orderNo (recharges s') = map rr_orderNo (recharges s)" by (auto simp: s' update_where_def)
  have "order_ok s' r" if r: "r \<in> set (recharges s')" for r
  proof -
    obtain y where y: "y \<in> set (recharges s)" "r = (if ?P y then ?f y else y)" using r by (auto simp: s' elim: set_update_whereE)
    show ?thesis
    proof (cases "rr_orderNo y = rr_orderNo read")
      case True
      then have "y = row" using order_unique [OF d y(1) row(1)] row(2) by (simp add: same_order_def)
      then show ?thesis using y x \<open>x = row\<close> each [OF row(1)] am row(2) cr
        by (auto simp: order_ok_def in_states_def same_order_def to_fixed_id)
    next
      case False
      then show ?thesis using y each [OF y(1)] cr by (auto simp: in_states_def order_ok_def)
    qed
  qed
  moreover have "rr_orderNo ` set (recharges s') = rr_orderNo ` set (recharges s)" using m by (metis set_map)
  moreover have "rr_orderNo read \<in> rr_orderNo ` set (recharges s)" using row by (auto simp: same_order_def intro: rev_image_eqI)
  ultimately show ?thesis using ok m cr by (auto simp: orders_ok_def)
qed (use ok in simp)

lemma create_Inr:
  "createRechargeOrder now d s = Inr (r, s') \<Longrightarrow>
   s' = s\<lparr>recharges := recharges s @ [new_order now d]\<rparr> \<and> find_key rr_orderNo (oi_orderNo d) (recharges s) = None"
  by (auto simp: createRechargeOrder_def split: option.split_asm if_split_asm sum.split_asm)

lemma ok_create_order:
  assumes "createRechargeOrder now d s = Inr (r, s')" "orders_ok s"
  shows "orders_ok s'"
proof -
  have s': "s' = s\<lparr>recharges := recharges s @ [new_order now d]\<rparr>" and n: "oi_orderNo d \<notin> rr_orderNo ` set (recharges s)"
    using create_Inr [OF assms(1)] by (auto simp: find_key_None)
  then show ?thesis using assms(2) by (auto simp: orders_ok_def order_ok_def new_order_def)
qed

lemma order_step_ok: "order_step s s' \<Longrightarrow> orders_ok s \<Longrightarrow> orders_ok s'"
proof (induction rule: order_step.induct)
  case (create now d s r s')
  then show ?case using ok_create_order by blast
next
  case (paid k t s r s')
  then show ?case unfolding markRechargePaid_def by (auto dest!: move_order_Inr intro!: orders_ok_kept kept_rows)
next
  case (failed now k why c p s r s')
  then show ?case unfolding failRecharge_def by (auto dest!: move_order_Inr intro!: orders_ok_kept kept_rows)
next
  case (cancelled now k c p s r s')
  then show ?case unfolding cancelRecharge_def by (auto dest!: move_order_Inr intro!: orders_ok_kept kept_rows)
next
  case (complete row s read d a now r s')
  then show ?case using ok_complete by blast
next
  case (metadata now k t c p s r s')
  then show ?case unfolding updateRechargeOrderMetadata_def by (auto dest!: update_order_Inr intro!: orders_ok_kept kept_rows)
next
  case (repay k m s r s')
  then show ?case unfolding updateRechargePaymentMethod_def by (auto dest!: update_order_Inr intro!: orders_ok_kept kept_rows)
next
  case (expire ks s n s')
  then show ?case by (auto simp: expireOrders_def Let_def intro!: orders_ok_kept kept_rows)
next
  case (other s' s)
  then show ?case using credited_cong [OF other(2)] by (simp add: orders_ok_def order_ok_def)
qed

interpretation order_runs: invariant_system order_step orders_ok
  by unfold_locales (rule order_step_ok)

text \<open>A completion in one go.\<close>

lemma move_order_closed:
  "count_where (in_states k sts) (recharges s) = 0 \<Longrightarrow> find_key rr_orderNo k (recharges s) = Some r \<Longrightarrow> rr_status r \<notin> acc
   \<Longrightarrow> isl (move_order k sts f acc s)"
  by (simp add: move_order_def Let_def count_where_0 update_where_id)

lemma completion_effect:
  assumes c: "completeRecharge now k d s = Inr (r, s')" and ok: "orders_ok s" and b: "balances_wf s"
    and o: "find_key rr_orderNo k (recharges s) = Some q"
  shows "find_key rr_orderNo k (recharges s') = Some r \<and> rr_status r = RS_completed \<and> rr_status q \<noteq> RS_failed
    \<and> (\<forall>x\<in>set (recharges s'). rr_orderNo x = k \<longrightarrow> x = r)
    \<and> (\<forall>j. balance_of s' j = balance_of s j + (if j = rr_userId q \<and> rr_status q \<noteq> RS_completed then credited_amount r else 0))"
proof -
  have d: "distinct (map rr_orderNo (recharges s))" and oq: "order_ok s q"
    using ok find_key_SomeD [OF o] by (auto simp: orders_ok_def)
  have qk: "rr_orderNo q = k" using find_key_SomeD [OF o] by simp
  have only: "x = q" if "x \<in> set (recharges s)" "rr_orderNo x = k" for x
    using order_unique [OF d that(1)] find_key_SomeD [OF o] that(2) by simp
  consider (finished) "rr_status q = RS_completed" "r = q" "s' = s"
    | (unfinished) a where "rr_status q \<noteq> RS_completed" "rr_status q \<noteq> RS_failed" "resolveActualAmount q (co_actualAmount d) = Inr a"
        "complete_tx now q d a s = Inr (r, s')"
    using c o by (auto simp: completeRecharge_def complete_read_def split: sum.split_asm if_split_asm)
  then show ?thesis
  proof cases
    case finished
    then show ?thesis using o only by auto
  next
    case (unfinished a)
    have am: "has_scale 2 a" using resolve_Inr [OF unfinished(3)] oq by (simp add: order_ok_def)
    show ?thesis
    proof (rule complete_tx_Inr [OF unfinished(4)])
      assume "find_key rr_orderNo (rr_orderNo q) (recharges s) = Some r" "rr_status r = RS_completed"
      then show ?thesis using unfinished(1) o qk by simp
    next
      let ?P = "in_states (rr_orderNo q) {RS_pending, RS_paid, RS_cancelled}" and ?f = "completed_row now q d a"
      fix user
      assume us: "find_key u_id (rr_userId q) (users s) = Some user"
        and s': "s' = add_log (mk_log (rr_userId q) BL_recharge a (column 8 (u_balance user + a) - a) (column 8 (u_balance user + a))
           (Some (rr_orderNo q)) None None (Some (R_recharge (rr_amount q))))
         (put_balance (rr_userId q) (u_balance user + a) (s\<lparr>recharges := update_where ?P ?f (recharges s)\<rparr>))"
        and f: "find_key rr_orderNo (rr_orderNo q) (recharges s') = Some r"
      have pq: "?P q" using unfinished(1,2) oq by (cases "rr_status q") (auto simp: in_states_def order_ok_def)
      then have upd: "recharges s' = update_key rr_orderNo k ?f (recharges s)"
        using o qk by (auto simp: s' in_states_def intro!: update_where_one [OF d])
      then have r: "r = ?f q" using f o qk by (simp add: find_key_update_key)
      have "x = r" if x: "x \<in> set (recharges s')" "rr_orderNo x = k" for x
      proof -
        obtain y where y: "y \<in> set (recharges s)" "x = (if rr_orderNo y = k then ?f y else y)"
          using x(1) unfolding upd by (rule set_update_keyE)
        then have "rr_orderNo y = k" using x(2) by (simp split: if_split_asm)
        then show ?thesis using y only r by simp
      qed
      moreover have "balance_of s' j = balance_of s j + (if j = rr_userId q then a else 0)" for j
        using us balances_wf_scale [OF b us] has_scale_mono [OF am, of 8]
        by (auto simp: s' balance_of_def put_balance_def add_log_def find_key_update_key to_fixed_id has_scale_add)
      ultimately show ?thesis using unfinished f qk r am by (auto simp: credited_amount_def to_fixed_id)
    qed
  qed
qed

section \<open>Properties\<close>

text \<open>C15: An order is credited at most once: however often and in whatever order the callbacks, expiries, cancellations
  and failures of orders arrive, even when the transaction of a completion runs long after the order was read, the balance log has
  credited a completed order exactly its actual amount, which never exceeds the amount of the order, and every other
  order nothing.\<close>

theorem order_credited_once:
  assumes "order_step\<^sup>*\<^sup>* s s'" "orders_ok s" "r \<in> set (recharges s')"
  shows "if rr_status r = RS_completed
    then \<exists>a. rr_actualAmount r = Some a \<and> 0 \<le> a \<and> a \<le> rr_amount r \<and> credited s' (rr_orderNo r) = a
    else credited s' (rr_orderNo r) = 0"
  using order_runs.inv_run [OF assms(1,2)] assms(3) by (auto simp: orders_ok_def order_ok_def)

text \<open>An order of 20 by a user.\<close>

definition an_order :: order_input where
  "an_order = \<lparr>oi_orderNo = ''R1'', oi_userId = 4, oi_providerId = 1, oi_amount = 20, oi_actualAmount = None, oi_fee = None,
     oi_paymentMethod = None, oi_expiredAt = None, oi_paymentDetails = None\<rparr>"

definition a_payer :: user where
  "a_payer = \<lparr>u_id = 4, u_username = ''p'', u_email = None, u_avatarStyle = ''a'', u_avatarBadgeId = None,
     u_status = U_active, u_balance = 5,
     u_role = R_user, u_hostingBalance = 0, u_hourlyReserved = 0, u_affBalance = 0\<rparr>"

definition order_db :: "recharge_status \<Rightarrow> db" where
  "order_db st = empty_db\<lparr>users := [a_payer], recharges := [(new_order 0 an_order)\<lparr>rr_status := st\<rparr>]\<rparr>"

definition plain :: completion where
  "plain = \<lparr>co_tradeNo = None, co_callbackData = None, co_actualAmount = None, co_paymentDetails = None\<rparr>"

lemma order_db_ok: "st \<notin> {RS_completed, RS_refunded} \<Longrightarrow> orders_ok (order_db st)"
  by (auto simp: orders_ok_def order_ok_def order_db_def empty_db_def credited_def recharge_logs_def new_order_def)

theorem order_credited_once_witness:
  "\<exists>s'. order_step\<^sup>*\<^sup>* (order_db RS_cancelled) s' \<and> credited s' ''R1'' = 20"
proof -
  let ?r = "(new_order 0 an_order)\<lparr>rr_status := RS_cancelled\<rparr>"
  have c: "(case complete_tx 9 ?r plain 20 (order_db RS_cancelled) of Inl _ \<Rightarrow> False
      | Inr (r, s) \<Rightarrow> map (\<lambda>r. (rr_orderNo r, rr_status r, rr_actualAmount r)) (recharges s) = [(''R1'', RS_completed, Some 20)])"
    and a: "case resolveActualAmount ?r (co_actualAmount plain) of Inl _ \<Rightarrow> False | Inr a \<Rightarrow> a = 20" by code_simp+
  from c obtain r s where s: "complete_tx 9 ?r plain 20 (order_db RS_cancelled) = Inr (r, s)"
    "map (\<lambda>r. (rr_orderNo r, rr_status r, rr_actualAmount r)) (recharges s) = [(''R1'', RS_completed, Some 20)]"
    by (auto split: sum.split_asm)
  from a have a': "resolveActualAmount ?r (co_actualAmount plain) = Inr 20" by (auto split: sum.split_asm)
  have "?r \<in> set (recharges (order_db RS_cancelled))" by (simp add: order_db_def)
  then have run: "order_step\<^sup>*\<^sup>* (order_db RS_cancelled) s"
    using order_step.complete [OF _ _ a' s(1), of ?r] by (intro r_into_rtranclp) (simp add: same_order_def)
  from s(2) obtain q where q: "q \<in> set (recharges s)" "rr_orderNo q = ''R1''" "rr_status q = RS_completed" "rr_actualAmount q = Some 20"
    by auto
  have "credited s ''R1'' = 20" using order_credited_once [OF run order_db_ok q(1)] q(2-4) by simp
  then show ?thesis using run by blast
qed

text \<open>Completing an order is idempotent and exact: a completion that succeeds raises the balance of the order's user
  by the actual amount (by nothing if the order was complete already) and nobody else's, any later completion returns
  the same row without writing, a failed order cannot be completed, and a completed one can no longer fail or be
  cancelled.\<close>

theorem completion_idempotent:
  assumes c: "completeRecharge now k d s = Inr (r, s')" and ok: "orders_ok s" and b: "balances_wf s"
    and o: "find_key rr_orderNo k (recharges s) = Some q"
  shows "rr_status r = RS_completed \<and> rr_status q \<noteq> RS_failed
    \<and> completeRecharge now' k d' s' = Inr (r, s')
    \<and> isl (failRecharge now' k why cb p s') \<and> isl (cancelRecharge now' k cb p s')
    \<and> (\<forall>j. balance_of s' j = balance_of s j
        + (if j = rr_userId q \<and> rr_status q \<noteq> RS_completed then credited_amount r else 0))"
proof -
  have f: "find_key rr_orderNo k (recharges s') = Some r" and st: "rr_status r = RS_completed \<and> rr_status q \<noteq> RS_failed"
    and bal: "\<forall>j. balance_of s' j = balance_of s j + (if j = rr_userId q \<and> rr_status q \<noteq> RS_completed then credited_amount r else 0)"
    using completion_effect [OF c ok b o] by blast+
  have "count_where (in_states k {RS_pending, RS_paid}) (recharges s') = 0"
    using f st completion_effect [OF c ok b o] by (auto simp: count_where_0 in_states_def)
  then show ?thesis using f st bal
    by (auto simp: completeRecharge_def complete_read_def failRecharge_def cancelRecharge_def move_order_closed)
qed

theorem completion_idempotent_witness:
  "\<exists>r s. completeRecharge 9 ''R1'' plain (order_db RS_cancelled) = Inr (r, s) \<and> completeRecharge 10 ''R1'' plain s = Inr (r, s)
     \<and> balance_of s 4 = 25"
proof -
  have c: "case completeRecharge 9 ''R1'' plain (order_db RS_cancelled) of Inl _ \<Rightarrow> False
    | Inr (r, s) \<Rightarrow> credited_amount r = 20" by code_simp
  then obtain r s where s: "completeRecharge 9 ''R1'' plain (order_db RS_cancelled) = Inr (r, s)" "credited_amount r = 20"
    by (auto split: sum.split_asm)
  have ok: "orders_ok (order_db RS_cancelled)" by (rule order_db_ok) simp
  have b: "balances_wf (order_db RS_cancelled)" "balance_of (order_db RS_cancelled) 4 = 5"
    using has_scale_of_int [of 8 5] by (simp_all add: balances_wf_def balance_of_def order_db_def a_payer_def)
  have o: "find_key rr_orderNo ''R1'' (recharges (order_db RS_cancelled)) = Some ((new_order 0 an_order)\<lparr>rr_status := RS_cancelled\<rparr>)"
    by (simp add: order_db_def new_order_def an_order_def)
  have u: "rr_userId ((new_order 0 an_order)\<lparr>rr_status := RS_cancelled\<rparr>) = 4" by (simp add: new_order_def an_order_def)
  have "completeRecharge 10 ''R1'' plain s = Inr (r, s) \<and> balance_of s 4 = 25"
    using completion_idempotent [OF s(1) ok b(1) o, of 10 plain] s(2) b(2) u by auto
  then show ?thesis using s(1) by blast
qed

end
