(* ===== verification/DistributedLock.thy ===== *)
theory DistributedLock
  imports Database
begin

text \<open>
  Locks kept in a table with an owner and an expiry: \<open>server/src/lib/distributed-lock.ts\<close>. The waiting loop is a
  recursion on the rounds that its environment offers: the clock readings of the round, the failure of its statement if any,
  and what other processes did to the database before it.
\<close>

section \<open>Operations\<close>

record lock_options =
  lo_expireMs :: int
  lo_waitTimeoutMs :: int
  lo_retryIntervalMs :: int

definition DEFAULT_LOCK_OPTIONS :: lock_options where
  "DEFAULT_LOCK_OPTIONS = \<lparr>lo_expireMs = 30000, lo_waitTimeoutMs = 5000, lo_retryIntervalMs = 100\<rparr>"

text \<open>The upsert of one round: insert the row, or take it over if it has expired or is the owner's already.\<close>

definition free_for :: "int \<Rightarrow> string \<Rightarrow> lock_row \<Rightarrow> bool" where
  "free_for now ownerId r \<longleftrightarrow> lk_expiresAt r \<le> now \<or> lk_owner r = ownerId"

definition acquire_try :: "int \<Rightarrow> string \<Rightarrow> string \<Rightarrow> int \<Rightarrow> db \<Rightarrow> int option \<times> db" where
  "acquire_try now lockKey ownerId expireMs s =
     (let s0 = s\<lparr>lock_seq := lock_seq s + 1\<rparr> in
      case find_key lk_key lockKey (locks s) of
        None \<Rightarrow> (Some (lock_seq s), s0\<lparr>locks := locks s @ [\<lparr>lk_id = lock_seq s, lk_key = lockKey, lk_owner = ownerId,
           lk_acquiredAt = now, lk_expiresAt = now + expireMs\<rparr>]\<rparr>)
      | Some r \<Rightarrow>
          if free_for now ownerId r
          then (Some (lk_id r), s0\<lparr>locks := update_key lk_key lockKey
            (\<lambda>r. r\<lparr>lk_owner := ownerId, lk_acquiredAt := now, lk_expiresAt := now + expireMs\<rparr>) (locks s)\<rparr>)
          else (None, s0))"

record lock_round =
  ro_check :: int
  ro_now :: int
  ro_failure :: "exn option"
  ro_world :: "db \<Rightarrow> db"

datatype lock_result = Locked int string | Timed_out | Threw exn

text \<open>\<open>None\<close>: the loop is still waiting when the offered rounds are used up.\<close>

fun acquire_rounds ::
    "string \<Rightarrow> string \<Rightarrow> lock_options \<Rightarrow> int \<Rightarrow> lock_round list \<Rightarrow> db \<Rightarrow> (lock_result \<times> db) option" where
  "acquire_rounds lockKey ownerId opts startTime [] s = None"
| "acquire_rounds lockKey ownerId opts startTime (r # rs) s =
     (if ro_check r - startTime < lo_waitTimeoutMs opts then
        (let s1 = ro_world r s in
         case ro_failure r of
           Some e \<Rightarrow> if e = WriteConflict then acquire_rounds lockKey ownerId opts startTime rs s1 else Some (Threw e, s1)
         | None \<Rightarrow>
             (case acquire_try (ro_now r) lockKey ownerId (lo_expireMs opts) s1 of
                (Some lockId, s2) \<Rightarrow> Some (Locked lockId ownerId, s2)
              | (None, s2) \<Rightarrow> acquire_rounds lockKey ownerId opts startTime rs s2))
      else Some (Timed_out, s))"

definition acquireLock ::
    "string \<Rightarrow> string \<Rightarrow> lock_options \<Rightarrow> int \<Rightarrow> lock_round list \<Rightarrow> db \<Rightarrow> (lock_result \<times> db) option" where
  "acquireLock lockKey ownerId opts startTime rounds s = acquire_rounds lockKey ownerId opts startTime rounds s"

definition owned :: "string \<Rightarrow> string \<Rightarrow> lock_row \<Rightarrow> bool" where
  "owned lockKey ownerId r \<longleftrightarrow> lk_key r = lockKey \<and> lk_owner r = ownerId"

definition releaseLock :: "string \<Rightarrow> string \<Rightarrow> db \<Rightarrow> bool \<times> db" where
  "releaseLock lockKey ownerId s =
     (count_where (owned lockKey ownerId) (locks s) > 0, s\<lparr>locks := delete_where (owned lockKey ownerId) (locks s)\<rparr>)"

definition extendLock :: "int \<Rightarrow> int \<Rightarrow> string \<Rightarrow> string \<Rightarrow> int \<Rightarrow> db \<Rightarrow> bool \<times> db" where
  "extendLock now now' lockKey ownerId extendMs s =
     (let P = (\<lambda>r. owned lockKey ownerId r \<and> lk_expiresAt r > now) in
      (count_where P (locks s) > 0, s\<lparr>locks := update_where P (\<lambda>r. r\<lparr>lk_expiresAt := now' + extendMs\<rparr>) (locks s)\<rparr>))"

definition cleanupExpiredLocks :: "int \<Rightarrow> db \<Rightarrow> nat \<times> db" where
  "cleanupExpiredLocks now s =
     (count_where (\<lambda>r. lk_expiresAt r < now) (locks s), s\<lparr>locks := delete_where (\<lambda>r. lk_expiresAt r < now) (locks s)\<rparr>)"

definition getLockStatus :: "int \<Rightarrow> string \<Rightarrow> db \<Rightarrow> (bool \<times> lock_row) option" where
  "getLockStatus now lockKey s = map_option (\<lambda>r. (lk_expiresAt r < now, r)) (find_key lk_key lockKey (locks s))"

text \<open>The function that runs under the lock maps the database to a result and a database; it may throw. An owner is a nonempty
  text.\<close>

datatype 'a with_result = WR_result 'a | WR_failed exn | WR_not_locked | WR_threw exn

definition withLock ::
    "string \<Rightarrow> string \<Rightarrow> lock_options \<Rightarrow> int \<Rightarrow> lock_round list \<Rightarrow> (db \<Rightarrow> 'a outcome \<times> db) \<Rightarrow> db \<Rightarrow> ('a with_result \<times> db) option" where
  "withLock lockKey ownerId opts startTime rounds fn s =
     (case acquireLock lockKey ownerId opts startTime rounds s of
        None \<Rightarrow> None
      | Some (Threw e, s1) \<Rightarrow> Some (WR_threw e, s1)
      | Some (Timed_out, s1) \<Rightarrow> Some (WR_not_locked, s1)
      | Some (Locked _ owner, s1) \<Rightarrow>
          (case fn s1 of (r, s2) \<Rightarrow>
             Some (case r of Inl e \<Rightarrow> WR_failed e | Inr x \<Rightarrow> WR_result x, snd (releaseLock lockKey owner s2))))"

section \<open>Holding a lock\<close>

definition locks_ok :: "db \<Rightarrow> bool" where
  "locks_ok s \<longleftrightarrow> distinct (map lk_key (locks s))"

definition holds_until :: "string \<Rightarrow> string \<Rightarrow> int \<Rightarrow> db \<Rightarrow> bool" where
  "holds_until lockKey ownerId t s \<longleftrightarrow>
     (\<exists>r. find_key lk_key lockKey (locks s) = Some r \<and> lk_owner r = ownerId \<and> t \<le> lk_expiresAt r)"

text \<open>What other owners and the cleaner may do before the time \<open>t\<close>.\<close>

inductive others_step :: "string \<Rightarrow> int \<Rightarrow> db \<Rightarrow> db \<Rightarrow> bool" for me t where
  acquire: "o' \<noteq> me \<Longrightarrow> now < t \<Longrightarrow> acquire_try now k o' e s = (r, s') \<Longrightarrow> others_step me t s s'"
| release: "o' \<noteq> me \<Longrightarrow> releaseLock k o' s = (b, s') \<Longrightarrow> others_step me t s s'"
| extend: "o' \<noteq> me \<Longrightarrow> extendLock now now' k o' e s = (b, s') \<Longrightarrow> others_step me t s s'"
| cleanup: "now < t \<Longrightarrow> cleanupExpiredLocks now s = (n, s') \<Longrightarrow> others_step me t s s'"
| other: "locks s' = locks s \<Longrightarrow> others_step me t s s'"

lemma find_key_delete_where:
  "find_key key k (delete_where P t) = Some r" if "find_key key k t = Some r" "\<not> P r" "distinct (map key t)"
  using that by (induction t) (auto simp: delete_where_def image_iff)

lemma distinct_delete_where: "distinct (map key t) \<Longrightarrow> distinct (map key (delete_where P t))"
  by (simp add: delete_where_def distinct_map_filter)

definition lock_inv :: "string \<Rightarrow> string \<Rightarrow> int \<Rightarrow> db \<Rightarrow> bool" where
  "lock_inv lockKey me t s \<longleftrightarrow> locks_ok s \<and> holds_until lockKey me t s"

lemma try_ok: "acquire_try now k me e s = (r, s') \<Longrightarrow> locks_ok s \<Longrightarrow> locks_ok s'"
  by (auto simp: acquire_try_def locks_ok_def Let_def find_key_None map_update_key split: option.split_asm if_split_asm)

lemma lock_inv_delete:
  assumes "lock_inv lockKey me t s" "\<And>r. lk_owner r = me \<Longrightarrow> t \<le> lk_expiresAt r \<Longrightarrow> \<not> P r"
  shows "lock_inv lockKey me t (s\<lparr>locks := delete_where P (locks s)\<rparr>)"
proof -
  obtain q where q: "find_key lk_key lockKey (locks s) = Some q" "lk_owner q = me" "t \<le> lk_expiresAt q" "locks_ok s"
    using assms(1) by (auto simp: lock_inv_def holds_until_def)
  then show ?thesis using find_key_delete_where [OF q(1), of P] assms(2) [OF q(2,3)]
    by (auto simp: lock_inv_def holds_until_def locks_ok_def distinct_delete_where)
qed

lemma others_keep: "others_step me t s s' \<Longrightarrow> lock_inv lockKey me t s \<Longrightarrow> lock_inv lockKey me t s'"
proof (induction rule: others_step.induct)
  case (acquire o' now k e s r s')
  obtain q where q: "find_key lk_key lockKey (locks s) = Some q" "lk_owner q = me" "t \<le> lk_expiresAt q"
    using acquire(4) by (auto simp: lock_inv_def holds_until_def)
  have "find_key lk_key lockKey (locks s') = Some q"
  proof (cases "k = lockKey")
    case True
    then have "\<not> free_for now o' q" using q acquire(1,2) by (simp add: free_for_def)
    then show ?thesis using acquire(3) q(1) True by (auto simp: acquire_try_def Let_def)
  next
    case False
    then show ?thesis using acquire(3) q(1)
      by (auto simp: acquire_try_def Let_def find_key_append find_key_update_key split: option.split_asm if_split_asm)
  qed
  then show ?case using q acquire(4) try_ok [OF acquire(3)] by (auto simp: lock_inv_def holds_until_def)
next
  case (release o' k s b s')
  then show ?case
    by (auto simp: releaseLock_def owned_def intro!: lock_inv_delete)
next
  case (extend o' now now' k e s b s')
  let ?P = "\<lambda>r. owned k o' r \<and> lk_expiresAt r > now" and ?f = "\<lambda>r::lock_row. r\<lparr>lk_expiresAt := now' + e\<rparr>"
  have "\<not> ?P q" if "lk_owner q = me" for q using that extend(1) by (simp add: owned_def)
  moreover have "find_key lk_key lockKey (update_where ?P ?f t) = map_option (\<lambda>r. if ?P r then ?f r else r) (find_key lk_key lockKey t)" for t
    by (induction t) auto
  moreover have "map lk_key (update_where ?P ?f (locks s)) = map lk_key (locks s)" by (rule map_update_where) simp
  ultimately show ?case using extend(2,3)
    by (auto simp: extendLock_def Let_def lock_inv_def holds_until_def locks_ok_def)
next
  case (cleanup now s n s')
  then show ?case
    by (auto simp: cleanupExpiredLocks_def intro!: lock_inv_delete)
next
  case (other s' s)
  then show ?case by (simp add: lock_inv_def holds_until_def locks_ok_def)
qed

interpretation lock_runs: invariant_system "others_step me t" "lock_inv lockKey me t" for me t lockKey
  by unfold_locales (rule others_keep)

section \<open>Properties\<close>

text \<open>C30: A lock excludes until it expires: once an owner has acquired a key at some time, then whatever other owners, the
  cleaner and the rest of the system do before its expiry, it still holds the key, nobody else's attempt succeeds,
  its extension succeeds and so does its release.\<close>

theorem lock_excludes_until_expiry:
  assumes "acquire_try now k me e s = (Some i, s1)" "locks_ok s" "(others_step me (now + e))\<^sup>*\<^sup>* s1 s'"
    and "now' < now + e" "o' \<noteq> me"
  shows "fst (acquire_try now' k o' e' s') = None \<and> fst (extendLock now' now'' k me x s') \<and> fst (releaseLock k me s')"
proof -
  have "holds_until k me (now + e) s1"
    using assms(1) by (auto simp: acquire_try_def holds_until_def Let_def find_key_append find_key_update_key
        split: option.split_asm if_split_asm)
  then have "lock_inv k me (now + e) s1" using try_ok [OF assms(1,2)] by (simp add: lock_inv_def)
  then have "lock_inv k me (now + e) s'" by (rule lock_runs.inv_run [OF assms(3)])
  then obtain q where q: "find_key lk_key k (locks s') = Some q" "lk_owner q = me" "now + e \<le> lk_expiresAt q"
    by (auto simp: lock_inv_def holds_until_def)
  have m: "q \<in> set (locks s') \<and> lk_key q = k" using find_key_SomeD [OF q(1)] by simp
  have p: "count_where P (locks s') > 0" if "P q" for P
    using m that count_where_0 [of P "locks s'"] by (metis neq0_conv)
  have "fst (acquire_try now' k o' e' s') = None" using q assms(4,5) by (simp add: acquire_try_def Let_def free_for_def)
  moreover have "fst (extendLock now' now'' k me x s')" using q m assms(4) by (auto simp: extendLock_def Let_def owned_def intro!: p)
  moreover have "fst (releaseLock k me s')" using q m by (auto simp: releaseLock_def owned_def intro!: p)
  ultimately show ?thesis by simp
qed

theorem lock_excludes_until_expiry_witness:
  "\<exists>s1. acquire_try 0 ''k'' ''a'' 100 empty_db = (Some 1, s1)
     \<and> fst (acquire_try 99 ''k'' ''b'' 100 (snd (cleanupExpiredLocks 50 s1))) = None"
proof -
  have c: "fst (acquire_try 0 ''k'' ''a'' 100 empty_db) = Some 1" by code_simp
  then obtain s1 where s1: "acquire_try 0 ''k'' ''a'' 100 empty_db = (Some 1, s1)" by (metis prod.collapse)
  have ok: "locks_ok empty_db" by (simp add: locks_ok_def empty_db_def)
  have "(others_step ''a'' (0 + 100))\<^sup>*\<^sup>* s1 (snd (cleanupExpiredLocks 50 s1))"
    by (intro r_into_rtranclp others_step.cleanup [of 50]) (simp_all add: prod_eq_iff)
  then show ?thesis using lock_excludes_until_expiry [OF s1 ok, of _ 99 "''b''"] s1 by simp
qed

text \<open>The rounds of a loop whose clock advances by at least the retry interval between two rounds.\<close>

fun spaced :: "int \<Rightarrow> int \<Rightarrow> lock_round list \<Rightarrow> bool" where
  "spaced step t [] = True"
| "spaced step t (r # rs) = (t \<le> ro_check r \<and> spaced step (ro_check r + step) rs)"

lemma rounds_end:
  assumes "spaced step t rs" "0 < step" "lo_waitTimeoutMs opts \<le> t - start + step * int (length rs) - step" "rs \<noteq> []"
  shows "acquire_rounds k me opts start rs s \<noteq> None"
  using assms
proof (induction rs arbitrary: t s)
  case (Cons r rs)
  show ?case
  proof (cases "ro_check r - start < lo_waitTimeoutMs opts")
    case True
    have l: "lo_waitTimeoutMs opts \<le> (ro_check r + step) - start + step * int (length rs) - step"
      using Cons.prems(1,3) by (simp add: algebra_simps)
    then have ne: "rs \<noteq> []" using True by auto
    have "acquire_rounds k me opts start rs s' \<noteq> None" for s'
      using Cons.prems(1,2) l ne by (intro Cons.IH [of "ro_check r + step"]) auto
    then show ?thesis using True by (auto simp: Let_def split: option.split prod.split)
  next
    case False
    then show ?thesis by simp
  qed
qed simp

text \<open>C38: The wait for a lock ends: if the clock advances by at least the retry interval from round to round, the loop returns
  within \<open>waitTimeoutMs / retryIntervalMs\<close> further rounds (rounded up) after its first, whatever other processes do; and if in
  the first round the key is free, expired or the caller's own, that round acquires it.\<close>

theorem lock_wait_ends:
  assumes "spaced (lo_retryIntervalMs opts) start rounds" "0 < lo_retryIntervalMs opts" "rounds \<noteq> []"
    and "lo_waitTimeoutMs opts \<le> lo_retryIntervalMs opts * (int (length rounds) - 1)"
  shows "acquireLock k me opts start rounds s \<noteq> None
    \<and> ((ro_check (hd rounds) - start < lo_waitTimeoutMs opts \<and> ro_failure (hd rounds) = None
        \<and> (case find_key lk_key k (locks (ro_world (hd rounds) s)) of None \<Rightarrow> True | Some r \<Rightarrow> free_for (ro_now (hd rounds)) me r))
       \<longrightarrow> (\<exists>i s'. acquireLock k me opts start rounds s = Some (Locked i me, s')
              \<and> holds_until k me (ro_now (hd rounds) + lo_expireMs opts) s'))"
proof (intro conjI impI)
  show "acquireLock k me opts start rounds s \<noteq> None"
    unfolding acquireLock_def by (rule rounds_end [OF assms(1,2) _ assms(3)]) (use assms(4) in \<open>simp add: algebra_simps\<close>)
next
  obtain r rs where rs: "rounds = r # rs" using assms(3) by (cases rounds) auto
  assume "ro_check (hd rounds) - start < lo_waitTimeoutMs opts \<and> ro_failure (hd rounds) = None
    \<and> (case find_key lk_key k (locks (ro_world (hd rounds) s)) of None \<Rightarrow> True | Some r \<Rightarrow> free_for (ro_now (hd rounds)) me r)"
  then show "\<exists>i s'. acquireLock k me opts start rounds s = Some (Locked i me, s') \<and> holds_until k me (ro_now (hd rounds) + lo_expireMs opts) s'"
    by (auto simp: rs acquireLock_def acquire_try_def Let_def holds_until_def find_key_append find_key_update_key
        split: option.split_asm)
qed

definition calm_rounds :: "lock_round list" where
  "calm_rounds = [\<lparr>ro_check = 0, ro_now = 0, ro_failure = None, ro_world = (\<lambda>s. s)\<rparr>,
     \<lparr>ro_check = 150, ro_now = 151, ro_failure = None, ro_world = (\<lambda>s. s)\<rparr>,
     \<lparr>ro_check = 250, ro_now = 251, ro_failure = None, ro_world = (\<lambda>s. s)\<rparr>]"

theorem lock_wait_ends_witness:
  "\<exists>i s'. acquireLock ''k'' ''a'' \<lparr>lo_expireMs = 1000, lo_waitTimeoutMs = 200, lo_retryIntervalMs = 100\<rparr> 0 calm_rounds empty_db
     = Some (Locked i ''a'', s') \<and> holds_until ''k'' ''a'' 1000 s'"
  using lock_wait_ends [of "\<lparr>lo_expireMs = 1000, lo_waitTimeoutMs = 200, lo_retryIntervalMs = 100\<rparr>" 0 calm_rounds "''k''" "''a''" empty_db]
  by (simp add: calm_rounds_def empty_db_def)

text \<open>Counterexample: the locks are documented as reentrant, and an owner may indeed acquire its key again; but the
  inner release deletes the row, so that during the rest of the outer critical section another owner acquires the same
  key.\<close>

theorem reentrant_release_unlocks:
  "case withLock ''k'' ''a'' DEFAULT_LOCK_OPTIONS 0 calm_rounds
     (\<lambda>s. case withLock ''k'' ''a'' DEFAULT_LOCK_OPTIONS 0 calm_rounds (\<lambda>s. (Inr (), s)) s of
        None \<Rightarrow> (Inl RecordNotFound, s)
      | Some (_, s1) \<Rightarrow> (Inr (fst (acquire_try 1 ''k'' ''b'' 100 s1) \<noteq> None), s1)) empty_db of
     None \<Rightarrow> False
   | Some (r, s) \<Rightarrow> (case r of WR_result intruded \<Rightarrow> intruded | _ \<Rightarrow> False)"
  by code_simp

end
