(* ===== verification/InviteCosts.thy ===== *)
theory InviteCosts
  imports Points Strings
begin

text \<open>
  Invitation codes and what they cost: \<open>server/src/lib/invite-pricing.ts\<close>, \<open>server/src/db/invite-codes.ts\<close>, the
  generating transaction of \<open>server/src/routes/user-invites.ts\<close> and the consuming update in the registration of
  \<open>server/src/db/users.ts\<close>.
\<close>

section \<open>Cost options\<close>

record cost_option =
  co_resource :: string
  co_amount :: rat
  co_enabled :: bool

definition defaultInviteCostOptions :: "cost_option list" where
  "defaultInviteCostOptions = [\<lparr>co_resource = ''balance'', co_amount = 0, co_enabled = False\<rparr>,
     \<lparr>co_resource = ''points'', co_amount = 0, co_enabled = False\<rparr>]"

datatype handler = H_balance | H_points

definition inviteCostResourceHandlers :: "string \<Rightarrow> handler option" where
  "inviteCostResourceHandlers resource =
     (if resource = ''balance'' then Some H_balance else if resource = ''points'' then Some H_points else None)"

definition normalizeAmount :: "handler \<Rightarrow> rat \<Rightarrow> rat" where
  "normalizeAmount h amount =
     (case h of H_balance \<Rightarrow> of_int (js_round (max 0 amount * 100)) / 100 | H_points \<Rightarrow> max 0 (of_int \<lfloor>amount\<rfloor>))"

definition normalize_by :: "string \<Rightarrow> rat \<Rightarrow> rat" where
  "normalize_by resource amount =
     (case inviteCostResourceHandlers resource of Some h \<Rightarrow> normalizeAmount h amount | None \<Rightarrow> max 0 amount)"

text \<open>
  An entry of the configured list after the conversions \<open>String(...)\<close> and \<open>Number(...)\<close>: the text of its resource, its amount
  (\<open>None\<close>: not a finite number) and whether it says \<open>enabled: true\<close>. A configuration is absent or not a JSON array
  (\<open>None\<close>) or a list whose entries may not be objects (\<open>None\<close>). The resources are no property names of
  JavaScript's object prototype.
\<close>

record raw_option =
  ra_resource :: string
  ra_amount :: "rat option"
  ra_enabled :: bool

definition parse_entry :: "raw_option option \<Rightarrow> cost_option option" where
  "parse_entry item =
     (case item of None \<Rightarrow> None | Some i \<Rightarrow>
        let resource = trim (ra_resource i); amount = (case ra_amount i of None \<Rightarrow> 0 | Some a \<Rightarrow> a) in
        if resource = [] then None
        else Some \<lparr>co_resource = resource, co_amount = normalize_by resource amount, co_enabled = ra_enabled i\<rparr>)"

definition parseInviteCostConfig :: "raw_option option list option \<Rightarrow> cost_option list" where
  "parseInviteCostConfig raw = (case raw of None \<Rightarrow> defaultInviteCostOptions | Some items \<Rightarrow> List.map_filter parse_entry items)"

text \<open>\<open>new Map(...)\<close>: a later entry of a key replaces the value at the place of the first.\<close>

fun map_put :: "cost_option \<Rightarrow> cost_option list \<Rightarrow> cost_option list" where
  "map_put x [] = [x]"
| "map_put x (y # ys) = (if co_resource y = co_resource x then x # ys else y # map_put x ys)"

definition map_has :: "string \<Rightarrow> cost_option list \<Rightarrow> bool" where
  "map_has resource m \<longleftrightarrow> resource \<in> co_resource ` set m"

definition ensureDefaultCostOptions :: "cost_option list \<Rightarrow> cost_option list" where
  "ensureDefaultCostOptions options =
     foldl (\<lambda>m x. if map_has (co_resource x) m then m else map_put x m)
       (foldl (\<lambda>m x. map_put x m) [] options) defaultInviteCostOptions"

definition normalizeInviteCostOptions :: "cost_option list \<Rightarrow> cost_option list" where
  "normalizeInviteCostOptions options =
     map (\<lambda>x. x\<lparr>co_amount := normalize_by (co_resource x) (co_amount x)\<rparr>) (ensureDefaultCostOptions options)"

definition getInviteCostOptions :: "raw_option option list option \<Rightarrow> cost_option list" where
  "getInviteCostOptions raw = normalizeInviteCostOptions (parseInviteCostConfig raw)"

definition getInviteExpiryDays :: "int \<Rightarrow> int" where
  "getInviteExpiryDays configured = max 0 configured"

section \<open>Charging\<close>

definition charge_balance :: "int \<Rightarrow> rat \<Rightarrow> string \<Rightarrow> db \<Rightarrow> (unit \<times> db) outcome" where
  "charge_balance userId amount inviteCode s =
     (if amount \<le> 0 then Inr ((), s)
      else case find_key u_id userId (users s) of
        None \<Rightarrow> Inl (Error ''USER_NOT_FOUND'')
      | Some user \<Rightarrow>
          if u_balance user < amount then Inl (Error ''INSUFFICIENT_BALANCE'')
          else let after = column 8 (u_balance user - amount) in
            Inr ((), add_log (mk_log userId BL_invite_generate (- amount) (after + amount) after None None None
                (Some (R_invite inviteCode))) (put_balance userId (u_balance user - amount) s)))"

text \<open>The points column holds whole numbers, and so do the amounts normalised for points.\<close>

definition charge_points :: "int \<Rightarrow> rat \<Rightarrow> string \<Rightarrow> db \<Rightarrow> (unit \<times> db) outcome" where
  "charge_points userId amount inviteCode s =
     (if amount \<le> 0 then Inr ((), s)
      else let (p, s1) = ensure_points userId s; n = \<lfloor>amount\<rfloor> in
        if of_int (up_points p) < amount then Inl (Error ''INSUFFICIENT_POINTS'')
        else Inr ((), add_points_log userId PL_invite_generate (- n) (up_points p) (up_points p - n) None (Some (R_invite inviteCode))
          (update_points userId (\<lambda>p. p\<lparr>up_points := up_points p - n, up_totalSpent := up_totalSpent p + n\<rparr>) s1)))"

definition charge :: "handler \<Rightarrow> int \<Rightarrow> rat \<Rightarrow> string \<Rightarrow> db \<Rightarrow> (unit \<times> db) outcome" where
  "charge h userId amount inviteCode s =
     (case h of H_balance \<Rightarrow> charge_balance userId amount inviteCode s | H_points \<Rightarrow> charge_points userId amount inviteCode s)"

definition chargeInviteGenerationCost ::
    "int \<Rightarrow> string \<Rightarrow> string \<Rightarrow> cost_option list \<Rightarrow> db \<Rightarrow> ((string \<times> rat) \<times> db) outcome" where
  "chargeInviteGenerationCost userId inviteCode resource options s =
     (case find (\<lambda>c. co_resource c = resource \<and> co_enabled c) options of
        None \<Rightarrow> Inl (Error ''INVITE_COST_OPTION_UNAVAILABLE'')
      | Some c \<Rightarrow>
          (case inviteCostResourceHandlers (co_resource c) of
             None \<Rightarrow> Inl (Error ''INVITE_COST_RESOURCE_UNSUPPORTED'')
           | Some h \<Rightarrow>
               (case charge h userId (co_amount c) inviteCode s of
                  Inl e \<Rightarrow> Inl e
                | Inr (_, s1) \<Rightarrow> Inr ((co_resource c, co_amount c), s1))))"

definition getUserInviteBalances :: "int \<Rightarrow> db \<Rightarrow> (rat \<times> int) \<times> db" where
  "getUserInviteBalances userId s =
     (let (p, s1) = ensure_points userId s in ((balance_of s userId, up_points p), s1))"

section \<open>Codes\<close>

definition insert_invite :: "string \<Rightarrow> int \<Rightarrow> int option \<Rightarrow> (string \<times> rat) option \<Rightarrow> db \<Rightarrow> (invite_code \<times> db) outcome" where
  "insert_invite code createdBy expiresAt cost s =
     (let r = \<lparr>ic_id = invite_seq s, ic_code = code, ic_createdBy = createdBy, ic_usedBy = None, ic_usedAt = None,
            ic_expiresAt = expiresAt, ic_cost = cost\<rparr> in
      if find_key ic_code code (invite_codes s) \<noteq> None then Inl UniqueViolation
      else Inr (r, s\<lparr>invite_codes := invite_codes s @ [r], invite_seq := invite_seq s + 1\<rparr>))"


text \<open>The transaction of the generating route: for each of the random codes, charge and insert.\<close>

fun generate_invites :: "int \<Rightarrow> string list \<Rightarrow> string \<Rightarrow> cost_option list \<Rightarrow> int option \<Rightarrow> db \<Rightarrow> (invite_code list \<times> db) outcome" where
  "generate_invites userId [] resource options expiresAt s = Inr ([], s)"
| "generate_invites userId (code # cs) resource options expiresAt s =
     (case chargeInviteGenerationCost userId code resource options s of
        Inl e \<Rightarrow> Inl e
      | Inr (cost, s1) \<Rightarrow>
          (case insert_invite code userId expiresAt (Some cost) s1 of
             Inl e \<Rightarrow> Inl e
           | Inr (r, s2) \<Rightarrow>
               (case generate_invites userId cs resource options expiresAt s2 of
                  Inl e \<Rightarrow> Inl e
                | Inr (rs, s3) \<Rightarrow> Inr (r # rs, s3))))"

definition findInviteCode :: "string \<Rightarrow> db \<Rightarrow> invite_code option" where
  "findInviteCode code s = find_where (\<lambda>i. ic_code i = code \<and> ic_usedBy i = None) (invite_codes s)"


text \<open>An older operation that no route calls: it does not ask whether the code is free.\<close>

definition useInviteCode :: "int \<Rightarrow> string \<Rightarrow> int \<Rightarrow> db \<Rightarrow> db" where
  "useInviteCode now code userId s =
     s\<lparr>invite_codes := update_where (\<lambda>i. ic_code i = code) (\<lambda>i. i\<lparr>ic_usedBy := Some userId, ic_usedAt := Some now\<rparr>) (invite_codes s)\<rparr>"

definition getInviteCodes :: "int option \<Rightarrow> db \<Rightarrow> invite_code list" where
  "getInviteCodes createdBy s =
     rev (sort_key ic_id (case createdBy of Some k \<Rightarrow> if k = 0 then invite_codes s else filter (\<lambda>i. ic_createdBy i = k) (invite_codes s)
       | None \<Rightarrow> invite_codes s))"

definition getInviteCodeById :: "int \<Rightarrow> db \<Rightarrow> invite_code option" where
  "getInviteCodeById k s = find_key ic_id k (invite_codes s)"


record invite_stats =
  is_total :: nat
  is_used :: nat
  is_unused :: nat
  is_usageRate :: rat

definition getUserInviteCodeStats :: "int \<Rightarrow> db \<Rightarrow> invite_stats" where
  "getUserInviteCodeStats userId s =
     (let total = count_where (\<lambda>i. ic_createdBy i = userId) (invite_codes s);
          used = count_where (\<lambda>i. ic_createdBy i = userId \<and> ic_usedBy i \<noteq> None) (invite_codes s) in
      \<lparr>is_total = total, is_used = used, is_unused = total - used,
       is_usageRate = (if total > 0 then of_nat used / of_nat total * 100 else 0)\<rparr>)"

definition canUserGenerateInviteCode :: "int \<Rightarrow> db \<Rightarrow> bool" where
  "canUserGenerateInviteCode userId s =
     (let stats = getUserInviteCodeStats userId s in
      if is_total stats \<le> 10 then True else if is_usageRate stats \<ge> 80 then True else False)"

section \<open>Normal form of the options\<close>

lemma map_put_keys: "set (map co_resource (map_put x m)) = insert (co_resource x) (set (map co_resource m))"
  by (induction m) auto

lemma map_put_distinct: "distinct (map co_resource m) \<Longrightarrow> distinct (map co_resource (map_put x m))"
proof (induction m)
  case (Cons y m)
  then show ?case using map_put_keys [of x m] by (auto simp: image_iff)
qed simp

lemma map_put_new: "co_resource x \<notin> co_resource ` set m \<Longrightarrow> map_put x m = m @ [x]"
  by (induction m) auto

lemma puts_distinct: "distinct (map co_resource m) \<Longrightarrow> distinct (map co_resource (foldl (\<lambda>m x. map_put x m) m xs))"
  by (induction xs arbitrary: m) (auto intro: map_put_distinct)

lemma puts_id: "distinct (map co_resource (m @ xs)) \<Longrightarrow> foldl (\<lambda>m x. map_put x m) m xs = m @ xs"
proof (induction xs arbitrary: m)
  case (Cons x xs)
  then have "map_put x m = m @ [x]" by (intro map_put_new) auto
  then show ?case using Cons.IH [of "m @ [x]"] Cons.prems by simp
qed simp

lemma ensure_distinct: "distinct (map co_resource (ensureDefaultCostOptions xs))"
  using puts_distinct [of "[]" xs] by (simp add: ensureDefaultCostOptions_def defaultInviteCostOptions_def map_put_distinct)

lemma ensure_has: "map_has ''balance'' (ensureDefaultCostOptions xs) \<and> map_has ''points'' (ensureDefaultCostOptions xs)"
  using map_put_keys by (auto simp: ensureDefaultCostOptions_def defaultInviteCostOptions_def map_has_def)

lemma ensure_id:
  "distinct (map co_resource xs) \<Longrightarrow> map_has ''balance'' xs \<Longrightarrow> map_has ''points'' xs \<Longrightarrow> ensureDefaultCostOptions xs = xs"
  using puts_id [of "[]" xs] by (simp add: ensureDefaultCostOptions_def defaultInviteCostOptions_def)

lemma js_round_cents: "js_round (of_int (js_round y) / 100 * 100) = js_round y"
  by simp

lemma js_round_nonneg: "0 \<le> x \<Longrightarrow> 0 \<le> js_round x"
  by (simp add: js_round_def)

lemma normalize_by_nonneg: "0 \<le> normalize_by r a"
proof -
  have "0 \<le> js_round (max 0 a * 100)" by (rule js_round_nonneg) simp
  then show ?thesis by (auto simp: normalize_by_def normalizeAmount_def split: option.split handler.split)
qed

lemma normalize_by_idem [simp]: "normalize_by r (normalize_by r a) = normalize_by r a"
proof -
  have "0 \<le> js_round (max 0 a * 100)" by (rule js_round_nonneg) simp
  then have "(0::rat) \<le> of_int (js_round (max 0 a * 100)) / 100" by simp
  then have "max 0 (of_int (js_round (max 0 a * 100)) / 100) = (of_int (js_round (max 0 a * 100)) / 100 :: rat)" by simp
  moreover have "(max 0 (of_int \<lfloor>a\<rfloor>) :: rat) = of_int (max 0 \<lfloor>a\<rfloor>)" by simp
  ultimately show ?thesis
    by (auto simp: normalize_by_def normalizeAmount_def simp del: of_int_max split: option.split handler.split)
qed

definition normal_amount :: "cost_option \<Rightarrow> bool" where
  "normal_amount c \<longleftrightarrow> 0 \<le> co_amount c \<and> (co_resource c = ''balance'' \<longrightarrow> has_scale 2 (co_amount c))
     \<and> (co_resource c = ''points'' \<longrightarrow> is_integer (co_amount c))"

lemma normal_normalized: "normal_amount (x\<lparr>co_amount := normalize_by (co_resource x) (co_amount x)\<rparr>)"
proof -
  have "has_scale 2 (normalize_by ''balance'' a)" for a
    by (simp add: normalize_by_def inviteCostResourceHandlers_def normalizeAmount_def) (rule has_scaleI, simp)
  moreover have "is_integer (normalize_by ''points'' a)" for a
  proof -
    have "normalize_by ''points'' a = of_int (max 0 \<lfloor>a\<rfloor>)"
      by (simp add: normalize_by_def inviteCostResourceHandlers_def normalizeAmount_def)
    then show ?thesis by (simp only: is_integer_of_int)
  qed
  ultimately show ?thesis by (auto simp: normal_amount_def normalize_by_nonneg)
qed

section \<open>What a charge does\<close>

lemma charge_effect:
  assumes c: "chargeInviteGenerationCost k code res opts s = Inr (cost, s')" and n: "\<forall>c\<in>set opts. normal_amount c"
    and b: "balances_wf s"
  obtains c where "c \<in> set opts" "co_resource c = res" "co_enabled c" "find (\<lambda>c. co_resource c = res \<and> co_enabled c) opts = Some c"
    "cost = (res, co_amount c)" "balances_wf s'" "invite_codes s' = invite_codes s" "invite_seq s' = invite_seq s"
    "\<And>j. balance_of s' j = balance_of s j - (if j = k \<and> res = ''balance'' then co_amount c else 0)"
    "\<And>j. points_of s' j = points_of s j - (if j = k \<and> res = ''points'' then \<lfloor>co_amount c\<rfloor> else 0)"
    "res = ''balance'' \<Longrightarrow> 0 < co_amount c \<Longrightarrow> 0 \<le> balance_of s' k"
    "res = ''points'' \<Longrightarrow> 0 < co_amount c \<Longrightarrow> 0 \<le> points_of s' k"
proof (cases "find (\<lambda>c. co_resource c = res \<and> co_enabled c) opts")
  case None
  then show ?thesis using c by (simp add: chargeInviteGenerationCost_def)
next
  case (Some c)
  then have m: "c \<in> set opts" "co_resource c = res" "co_enabled c" by (auto simp: find_Some_iff)
  have na: "normal_amount c" using n m(1) by blast
  then have a0: "0 \<le> co_amount c" by (simp add: normal_amount_def)
  have bal: "charge_balance k (co_amount c) code s = Inr ((), s') \<or> charge_points k (co_amount c) code s = Inr ((), s') \<and> res = ''points''"
    "res = ''balance'' \<longrightarrow> charge_balance k (co_amount c) code s = Inr ((), s')" "res \<in> {''balance'', ''points''}"
    "cost = (res, co_amount c)"
    using assms(1) Some m(2)
    by (auto simp: chargeInviteGenerationCost_def inviteCostResourceHandlers_def charge_def split: if_split_asm sum.split_asm)
  show ?thesis
  proof (cases "co_amount c = 0")
    case True
    then have "s' = s" using bal(1) by (auto simp: charge_balance_def charge_points_def)
    then show ?thesis using that [OF m Some bal(4)] b True by simp
  next
    case False
    then have pos: "0 < co_amount c" using a0 by simp
    show ?thesis
    proof (cases "res = ''balance''")
      case True
      have sc: "has_scale 8 (co_amount c)" using na True m(2) has_scale_mono [of 2 _ 8] by (simp add: normal_amount_def)
      obtain user where u: "find_key u_id k (users s) = Some user" "co_amount c \<le> u_balance user"
        and s': "s' = add_log (mk_log k BL_invite_generate (- co_amount c) (column 8 (u_balance user - co_amount c) + co_amount c)
            (column 8 (u_balance user - co_amount c)) None None None (Some (R_invite code))) (put_balance k (u_balance user - co_amount c) s)"
        using bal(2) True pos by (auto simp: charge_balance_def Let_def split: option.split_asm if_split_asm)
      have bk: "balance_of s' j = balance_of s j - (if j = k then co_amount c else 0)" for j
        using u balances_wf_scale [OF b u(1)] sc by (simp add: s' balance_of_put to_fixed_id has_scale_diff balance_of_Some)
      have "0 \<le> balance_of s' k" using bk u by (simp add: balance_of_Some)
      moreover have "balances_wf s'" using b by (simp add: s' balances_wf_put)
      moreover have "invite_codes s' = invite_codes s" "invite_seq s' = invite_seq s" "points_accounts s' = points_accounts s"
        by (simp_all add: s' add_log_def put_balance_def)
      ultimately show ?thesis using that [OF m Some bal(4)] bk True by (simp add: points_of_def)
    next
      case False
      then have res: "res = ''points''" using bal(3) by simp
      obtain p s1 where e: "ensure_points k s = (p, s1)" by (cases "ensure_points k s")
      have ch: "charge_points k (co_amount c) code s = Inr ((), s')" using bal(1,2) False assms(1) Some m(2) res
        by (auto simp: chargeInviteGenerationCost_def inviteCostResourceHandlers_def charge_def split: sum.split_asm)
      then have ge: "\<not> of_int (up_points p) < co_amount c"
        and s': "s' = add_points_log k PL_invite_generate (- \<lfloor>co_amount c\<rfloor>) (up_points p) (up_points p - \<lfloor>co_amount c\<rfloor>) None (Some (R_invite code))
          (update_points k (\<lambda>p. p\<lparr>up_points := up_points p - \<lfloor>co_amount c\<rfloor>, up_totalSpent := up_totalSpent p + \<lfloor>co_amount c\<rfloor>\<rparr>) s1)"
        using pos e by (auto simp: charge_points_def Let_def split: if_split_asm)
      have pk: "points_of s' j = points_of s j - (if j = k then \<lfloor>co_amount c\<rfloor> else 0)" for j
        using ensure_pointsE(3,4) [OF e] by (simp add: s' points_of_update [OF ensure_pointsE(1) [OF e]])
      have fr: "invite_codes s1 = invite_codes s" "invite_seq s1 = invite_seq s" "users s1 = users s"
        using e by (auto simp: ensure_points_def split: option.split_asm)
      have "0 \<le> points_of s' k" using pk [of k] ge ensure_pointsE(3) [OF e] by (simp add: le_floor_iff) linarith
      moreover have "users s' = users s" "invite_codes s' = invite_codes s" "invite_seq s' = invite_seq s"
        using fr by (simp_all add: s' add_points_log_def update_points_def)
      ultimately show ?thesis using that [OF m Some bal(4)] pk res b by (simp add: balance_of_def balances_wf_def)
    qed
  qed
qed

text \<open>Generating several codes.\<close>

lemma insert_invite_Inr:
  "insert_invite code k e cost s = Inr (r, s') \<Longrightarrow>
   r = \<lparr>ic_id = invite_seq s, ic_code = code, ic_createdBy = k, ic_usedBy = None, ic_usedAt = None, ic_expiresAt = e, ic_cost = cost\<rparr>
   \<and> s' = s\<lparr>invite_codes := invite_codes s @ [r], invite_seq := invite_seq s + 1\<rparr> \<and> code \<notin> ic_code ` set (invite_codes s)"
  by (auto simp: insert_invite_def Let_def find_key_None split: if_split_asm)

definition issued_by :: "int \<Rightarrow> (string \<times> rat) \<Rightarrow> invite_code \<Rightarrow> bool" where
  "issued_by k cost r \<longleftrightarrow> ic_createdBy r = k \<and> ic_usedBy r = None \<and> ic_cost r = Some cost"

lemma generate_effect:
  assumes "generate_invites k cs res opts e s = Inr (rs, s')" "\<forall>c\<in>set opts. normal_amount c" "balances_wf s" "cs \<noteq> []"
  shows "\<exists>c. find (\<lambda>c. co_resource c = res \<and> co_enabled c) opts = Some c
    \<and> invite_codes s' = invite_codes s @ rs \<and> map ic_code rs = cs \<and> (\<forall>r\<in>set rs. issued_by k (res, co_amount c) r)
    \<and> distinct cs \<and> set cs \<inter> ic_code ` set (invite_codes s) = {}
    \<and> (\<forall>j. balance_of s' j = balance_of s j - (if j = k \<and> res = ''balance'' then of_nat (length cs) * co_amount c else 0))
    \<and> (\<forall>j. points_of s' j = points_of s j - (if j = k \<and> res = ''points'' then int (length cs) * \<lfloor>co_amount c\<rfloor> else 0))
    \<and> (res = ''balance'' \<longrightarrow> 0 < co_amount c \<longrightarrow> 0 \<le> balance_of s' k)
    \<and> (res = ''points'' \<longrightarrow> 0 < co_amount c \<longrightarrow> 0 \<le> points_of s' k)"
  using assms(1,3,4)
proof (induction cs arbitrary: s rs)
  case (Cons code cs)
  obtain cost s1 r s2 rs' where st: "chargeInviteGenerationCost k code res opts s = Inr (cost, s1)"
    "insert_invite code k e (Some cost) s1 = Inr (r, s2)" "generate_invites k cs res opts e s2 = Inr (rs', s')" "rs = r # rs'"
    using Cons.prems(1) by (auto split: sum.split_asm)
  note ins = insert_invite_Inr [OF st(2)]
  show ?case
  proof (rule charge_effect [OF st(1) assms(2) Cons.prems(2)])
    fix c
    assume c: "find (\<lambda>c. co_resource c = res \<and> co_enabled c) opts = Some c" "cost = (res, co_amount c)" "balances_wf s1"
      "invite_codes s1 = invite_codes s" "invite_seq s1 = invite_seq s"
      "\<And>j. balance_of s1 j = balance_of s j - (if j = k \<and> res = ''balance'' then co_amount c else 0)"
      "\<And>j. points_of s1 j = points_of s j - (if j = k \<and> res = ''points'' then \<lfloor>co_amount c\<rfloor> else 0)"
      "res = ''balance'' \<Longrightarrow> 0 < co_amount c \<Longrightarrow> 0 \<le> balance_of s1 k"
      "res = ''points'' \<Longrightarrow> 0 < co_amount c \<Longrightarrow> 0 \<le> points_of s1 k"
    have b2: "balance_of s2 j = balance_of s1 j" "points_of s2 j = points_of s1 j" "balances_wf s2" for j
      using ins c(3) by (simp_all add: balance_of_def points_of_def balances_wf_def)
    have i2: "invite_codes s2 = invite_codes s @ [r]" "ic_code r = code" "issued_by k (res, co_amount c) r" "code \<notin> ic_code ` set (invite_codes s)"
      using ins c(2,4) by (simp_all add: issued_by_def)
    show ?thesis
    proof (cases "cs = []")
      case True
      then have "rs' = []" "s' = s2" using st(3) by auto
      then show ?thesis using True st(4) c i2 b2 by (simp add: Int_commute)
    next
      case False
      from Cons.IH [OF st(3) b2(3) False] c(1) have h: "invite_codes s' = invite_codes s2 @ rs'" "map ic_code rs' = cs"
        "\<forall>r\<in>set rs'. issued_by k (res, co_amount c) r" "distinct cs" "set cs \<inter> ic_code ` set (invite_codes s2) = {}"
        "\<forall>j. balance_of s' j = balance_of s2 j - (if j = k \<and> res = ''balance'' then of_nat (length cs) * co_amount c else 0)"
        "\<forall>j. points_of s' j = points_of s2 j - (if j = k \<and> res = ''points'' then int (length cs) * \<lfloor>co_amount c\<rfloor> else 0)"
        "res = ''balance'' \<longrightarrow> 0 < co_amount c \<longrightarrow> 0 \<le> balance_of s' k" "res = ''points'' \<longrightarrow> 0 < co_amount c \<longrightarrow> 0 \<le> points_of s' k"
        by auto
      have "set (code # cs) \<inter> ic_code ` set (invite_codes s) = {}" "distinct (code # cs)" using h(4,5) i2 by auto
      moreover have "balance_of s' j = balance_of s j - (if j = k \<and> res = ''balance'' then of_nat (length (code # cs)) * co_amount c else 0)" for j
        using h(6) [rule_format, of j] b2(1) [of j] c(6) [of j] by (cases "j = k \<and> res = ''balance''") (auto simp: algebra_simps)
      moreover have "points_of s' j = points_of s j - (if j = k \<and> res = ''points'' then int (length (code # cs)) * \<lfloor>co_amount c\<rfloor> else 0)" for j
        using h(7) [rule_format, of j] b2(2) [of j] c(7) [of j] by (cases "j = k \<and> res = ''points''") (auto simp: algebra_simps)
      ultimately show ?thesis using c(1) h(1-3,8,9) i2 st(4) by (intro exI [of _ c]) simp
    qed
  qed
qed simp

lemma options_normal_form:
  "distinct (map co_resource (getInviteCostOptions raw)) \<and> (\<forall>c\<in>set (getInviteCostOptions raw). normal_amount c)"
proof -
  have "map co_resource (normalizeInviteCostOptions xs) = map co_resource (ensureDefaultCostOptions xs)" for xs
    by (simp add: normalizeInviteCostOptions_def comp_def)
  then have "distinct (map co_resource (getInviteCostOptions raw))"
    using ensure_distinct by (simp only: getInviteCostOptions_def)
  then show ?thesis using normal_normalized by (auto simp: getInviteCostOptions_def normalizeInviteCostOptions_def)
qed

section \<open>Codes along a run\<close>










section \<open>Properties\<close>

text \<open>C31: Generating invitation codes is paid exactly and is all or nothing: for whatever configuration of costs, a generation that
  succeeds creates the codes asked for, all new and unused, and takes their number times the configured amount from the
  creator's balance or points and nothing from anybody else; a charged account does not become negative.\<close>

theorem invites_paid_exactly:
  assumes "generate_invites k cs res (getInviteCostOptions raw) e s = Inr (rs, s')" "balances_wf s" "cs \<noteq> []"
  shows "\<exists>c\<in>set (getInviteCostOptions raw). co_resource c = res \<and> co_enabled c
    \<and> invite_codes s' = invite_codes s @ rs \<and> map ic_code rs = cs \<and> (\<forall>r\<in>set rs. issued_by k (res, co_amount c) r)
    \<and> distinct cs \<and> set cs \<inter> ic_code ` set (invite_codes s) = {}
    \<and> (\<forall>j. balance_of s' j = balance_of s j - (if j = k \<and> res = ''balance'' then of_nat (length cs) * co_amount c else 0))
    \<and> (\<forall>j. points_of s' j = points_of s j - (if j = k \<and> res = ''points'' then int (length cs) * \<lfloor>co_amount c\<rfloor> else 0))
    \<and> (0 < co_amount c \<longrightarrow> (res = ''balance'' \<longrightarrow> 0 \<le> balance_of s' k) \<and> (res = ''points'' \<longrightarrow> 0 \<le> points_of s' k))"
proof -
  have n: "\<forall>c\<in>set (getInviteCostOptions raw). normal_amount c" using options_normal_form by blast
  obtain c where c: "find (\<lambda>c. co_resource c = res \<and> co_enabled c) (getInviteCostOptions raw) = Some c"
    and r: "invite_codes s' = invite_codes s @ rs \<and> map ic_code rs = cs \<and> (\<forall>r\<in>set rs. issued_by k (res, co_amount c) r)
    \<and> distinct cs \<and> set cs \<inter> ic_code ` set (invite_codes s) = {}
    \<and> (\<forall>j. balance_of s' j = balance_of s j - (if j = k \<and> res = ''balance'' then of_nat (length cs) * co_amount c else 0))
    \<and> (\<forall>j. points_of s' j = points_of s j - (if j = k \<and> res = ''points'' then int (length cs) * \<lfloor>co_amount c\<rfloor> else 0))
    \<and> (0 < co_amount c \<longrightarrow> (res = ''balance'' \<longrightarrow> 0 \<le> balance_of s' k) \<and> (res = ''points'' \<longrightarrow> 0 \<le> points_of s' k))"
    using generate_effect [OF assms(1) n assms(2,3)] by blast
  have "c \<in> set (getInviteCostOptions raw) \<and> co_resource c = res \<and> co_enabled c" using c by (auto simp: find_Some_iff)
  with r show ?thesis by blast
qed

text \<open>A configuration with a price in cents, and a user who can pay two codes.\<close>

definition priced :: "raw_option option list option" where
  "priced = Some [Some \<lparr>ra_resource = '' balance '', ra_amount = Some (5 / 2), ra_enabled = True\<rparr>, None]"

definition inviter_db :: db where
  "inviter_db = empty_db\<lparr>users := [\<lparr>u_id = 4, u_username = ''p'', u_email = None, u_avatarStyle = ''a'', u_avatarBadgeId = None,
     u_status = U_active, u_balance = 6,
     u_role = R_user, u_hostingBalance = 0, u_hourlyReserved = 0, u_affBalance = 0\<rparr>]\<rparr>"

theorem invites_paid_exactly_witness:
  "\<exists>rs s. generate_invites 4 [''x'', ''y''] ''balance'' (getInviteCostOptions priced) None inviter_db = Inr (rs, s)
     \<and> map ic_code rs = [''x'', ''y''] \<and> balance_of s 4 = 1"
proof -
  have c: "case generate_invites 4 [''x'', ''y''] ''balance'' (getInviteCostOptions priced) None inviter_db of Inl _ \<Rightarrow> False
    | Inr _ \<Rightarrow> True" by code_simp
  then obtain rs s where r: "generate_invites 4 [''x'', ''y''] ''balance'' (getInviteCostOptions priced) None inviter_db = Inr (rs, s)"
    by (auto split: sum.split_asm)
  have o: "getInviteCostOptions priced = [\<lparr>co_resource = ''balance'', co_amount = 5 / 2, co_enabled = True\<rparr>,
      \<lparr>co_resource = ''points'', co_amount = 0, co_enabled = False\<rparr>]" by code_simp
  have b: "balances_wf inviter_db" "balance_of inviter_db 4 = 6"
    using has_scale_of_int [of 8 6] by (simp_all add: balances_wf_def balance_of_def inviter_db_def)
  from invites_paid_exactly [OF r b(1)] have "map ic_code rs = [''x'', ''y''] \<and> balance_of s 4 = 1"
    by (auto simp: o b(2))
  with r show ?thesis by (intro exI [of _ rs] exI [of _ s]) simp
qed



text \<open>C40: Whatever is configured, the cost options are in normal form: one option per resource, the two known resources
  among them, amounts not negative, whole cents for the balance and whole numbers for points; and normalising them
  again changes nothing.\<close>

theorem cost_options_normal:
  "distinct (map co_resource (getInviteCostOptions raw)) \<and> list_all normal_amount (getInviteCostOptions raw)
   \<and> map_has ''balance'' (getInviteCostOptions raw) \<and> map_has ''points'' (getInviteCostOptions raw)
   \<and> normalizeInviteCostOptions (getInviteCostOptions raw) = getInviteCostOptions raw"
proof -
  let ?o = "getInviteCostOptions raw"
  have h: "map_has ''balance'' ?o" "map_has ''points'' ?o"
    using ensure_has by (auto simp: getInviteCostOptions_def normalizeInviteCostOptions_def map_has_def image_iff)
  have "ensureDefaultCostOptions ?o = ?o" using options_normal_form h by (intro ensure_id) auto
  then have "normalizeInviteCostOptions ?o = map (\<lambda>x. x\<lparr>co_amount := normalize_by (co_resource x) (co_amount x)\<rparr>) ?o"
    by (simp add: normalizeInviteCostOptions_def)
  also have "\<dots> = ?o" by (simp add: getInviteCostOptions_def normalizeInviteCostOptions_def)
  finally show ?thesis using options_normal_form h by (simp add: list_all_iff)
qed

end
