(* ===== verification/Ledger.thy ===== *)
theory Ledger
  imports Balance Points Transfers Recharge InviteCosts Badges Lottery
begin

text \<open>
  The two ledgers of the program, over the operations of every component that moves money or points. Each
  balance and each points account is a running total that the rows of \<open>balance_logs\<close> and \<open>points_logs\<close>
  must explain; here the explanation is proved once for all operations, by interpreting \<open>ledger_system\<close> on
  the steps of the whole program.
\<close>

section \<open>The operations that move money and points\<close>


section \<open>What the schema and the operations maintain\<close>

definition fees_fit :: "db \<Rightarrow> bool" where
  "fees_fit s \<longleftrightarrow> (\<forall>t\<in>set (transfers s). \<forall>f. tf_fee t = Some f \<longrightarrow> has_scale 2 f)"



text \<open>An operation on money leaves the points, and the other way round.\<close>

definition same_points :: "db \<Rightarrow> db \<Rightarrow> bool" where
  "same_points s s' \<longleftrightarrow> points_accounts s' = points_accounts s \<and> points_logs s' = points_logs s \<and> prizes s' = prizes s"

definition same_money :: "db \<Rightarrow> db \<Rightarrow> bool" where
  "same_money s s' \<longleftrightarrow> users s' = users s \<and> balance_logs s' = balance_logs s \<and> prizes s' = prizes s
     \<and> transfers s' = transfers s"






lemma same_points_simps [simp]:
  "same_points s (add_log e s') \<longleftrightarrow> same_points s s'" "same_points s (put_balance k v s') \<longleftrightarrow> same_points s s'"
  "same_points s (s'\<lparr>transfers := ts\<rparr>) \<longleftrightarrow> same_points s s'" "same_points s (s'\<lparr>recharges := rs\<rparr>) \<longleftrightarrow> same_points s s'"
  "same_points s (insert_transfer d fo s') \<longleftrightarrow> same_points s s'" "same_points s s"
  by (simp_all add: same_points_def add_log_def put_balance_def insert_transfer_def)

lemma same_money_simps [simp]:
  "same_money s (add_points_log k ty a b c r m s') \<longleftrightarrow> same_money s s'"
  "same_money s (update_points k f s') \<longleftrightarrow> same_money s s'"
  "same_money s (s'\<lparr>badge_ownerships := ws\<rparr>) \<longleftrightarrow> same_money s s'"
  "same_money s (s'\<lparr>points_accounts := ps\<rparr>) \<longleftrightarrow> same_money s s'"
  "same_money s s"
  by (simp_all add: same_money_def add_points_log_def update_points_def)


lemma fees_fit_simps [simp]:
  "fees_fit (add_log e s) = fees_fit s" "fees_fit (put_balance k v s) = fees_fit s"
  "fees_fit (s\<lparr>recharges := rs\<rparr>) = fees_fit s"
  by (simp_all add: fees_fit_def add_log_def put_balance_def)

section \<open>Money\<close>








section \<open>Points\<close>












section \<open>The two ledgers\<close>







section \<open>Properties\<close>







end
