(* ===== verification/Spec2Isabelle.thy ===== *)
theory Spec2Isabelle
  imports Hosting BillingRecords RefundValue OfficialCoupons Aff Settlement Balance Points BillingCalc HourlyBilling Coupons Addresses AccessLimits Quota ResourcePool RedeemCodes Badges Lottery
    Friendships InstanceTasks Suspension Transfers Recharge DistributedLock InviteCosts Ledger
begin

text \<open>
  Incudal is a panel for renting out containers and virtual machines: users buy instances on hosts with plans or
  by the hour, pay from a balance, and collect points, resources and badges. This development models the core of its
  server, \<^verbatim>\<open>server/src\<close>: the operations on the database that move money, points, resources, instances and locks, and
  the calculations they rest on.

  \<^bold>\<open>How the program is modelled.\<close> The state of the server is its database: the record \<open>db\<close> of theory \<open>Database\<close>, whose fields are
  the tables of \<^verbatim>\<open>server/prisma/schema.prisma\<close> that the operations use, as lists of rows. A statement of Prisma is a list
  function of theory \<open>Prelude\<close> that takes the \<open>where\<close> and \<open>data\<close> clauses of the source as arguments. A transaction is a function from
  the database to an \<open>outcome\<close>: the error that it throws, or its result and the new database; what is thrown rolls the
  transaction back, so an error carries no database. Where the source issues several statements outside a transaction, or reads in one and
  writes in another at the default isolation, the parts are definitions of their own, and runs interleave them. The clock, random
  numbers, granted locks, answers of hosts and callbacks, and what other processes do in between are arguments. JavaScript numbers
  are rationals with the roundings that the source writes; decimal columns round to their scale; days are 24 hours.

  \<^bold>\<open>Theories.\<close>
  \<^item> \<open>Prelude\<close>: rounding, tables, and the interfaces \<open>account_table\<close> (rows with a quantity that is credited), \<open>ledger_system\<close>
    (steps whose log entries explain every change; it refines the abstract ledger \<open>post\<close>) and \<open>invariant_system\<close> (steps that keep
    an invariant), each interpreted on the model below.
  \<^item> \<open>Database\<close>: rows, enumerations, errors (\<^verbatim>\<open>schema.prisma\<close>) and the transaction lock (\<^verbatim>\<open>db/advisory-locks.ts\<close>).
  \<^item> \<open>Balance\<close> (\<^verbatim>\<open>db/balance.ts\<close>, \<^verbatim>\<open>lib/balance-transfer.ts\<close>): changes, payments, refunds, transfers between users and the retry loop:
    conservation, rounding, agreement of preview and transfer, termination of the retries.
  \<^item> \<open>Points\<close> (\<^verbatim>\<open>db/points.ts\<close>): conversion of consumption, deductions, grants and adjustments.
  \<^item> \<open>Recharge\<close> (\<^verbatim>\<open>db/recharge-records.ts\<close>): the life of a payment order; its credit happens once.
  \<^item> \<open>InviteCosts\<close> (\<^verbatim>\<open>lib/invite-pricing.ts\<close>, \<^verbatim>\<open>db/invite-codes.ts\<close>): prices of invitation codes, their generation and use.
  \<^item> \<open>Badges\<close>, \<open>Lottery\<close> (\<^verbatim>\<open>db/badges.ts\<close>, \<^verbatim>\<open>db/lottery.ts\<close>): purchases of badges; draws, their odds, payment and stock.
  \<^item> \<open>Ledger\<close>: the operations of the theories above that move money or points, as one step relation: the two logs
    explain every balance and every points account along every run, and the program refines the abstract ledger.
  \<^item> \<open>BillingCalc\<close>, \<open>HourlyBilling\<close>, \<open>Coupons\<close> (\<^verbatim>\<open>lib/billing-calc.ts\<close>, \<^verbatim>\<open>lib/hourly-billing.ts\<close>, \<^verbatim>\<open>lib/official-coupon-rules.ts\<close>,
    \<^verbatim>\<open>lib/billing-coupon-match.ts\<close>): prices, refunds, plan changes, hourly orders, discounts.
  \<^item> \<open>Hosting\<close> (hosting part of \<^verbatim>\<open>db/billing-operations.ts\<close>, \<^verbatim>\<open>services/hosting-scheduler.ts\<close>): income of users who host machines, frozen,
    released, and given back when a buyer is refunded: what each step takes, that no fund is overdrawn, that due income is released.
  \<^item> \<open>BillingRecords\<close>, \<open>RefundValue\<close> (\<^verbatim>\<open>db/billing-records.ts\<close>, first part of \<^verbatim>\<open>db/billing-operations.ts\<close>): the payments of an instance along
    its moves between hosts, and the value they leave after refunds, for the buyer and for the owner of the host.
  \<^item> \<open>OfficialCoupons\<close> (\<^verbatim>\<open>db/official-coupons.ts\<close>): coupons in the database: counters, limits, reservation and release.
  \<^item> \<open>Aff\<close> (\<^verbatim>\<open>db/aff.ts\<close>): the referral programme: codes, commissions, their reversal and conversion: both of its logs explain every
    account, a conversion conserves, a reversal takes back what was given.
  \<^item> \<open>Settlement\<close> (middle part of \<^verbatim>\<open>db/billing-operations.ts\<close>): refunds of destroyed, deleted and never provisioned instances, which join
    \<open>RefundValue\<close>, \<open>Hosting\<close>, \<open>OfficialCoupons\<close>, \<open>Aff\<close> and \<open>Quota\<close>: what each party gets, within the payments, once.
  \<^item> \<open>Quota\<close> (\<^verbatim>\<open>db/quota-operations.ts\<close>): reservation and release of the resources of hosts, quotas of users.
  \<^item> \<open>ResourcePool\<close>, \<open>RedeemCodes\<close> (\<^verbatim>\<open>db/resource-pool.ts\<close>, \<^verbatim>\<open>db/checkin.ts\<close>, \<^verbatim>\<open>db/redeem-codes.ts\<close>): pools, check-ins, codes.
  \<^item> \<open>Suspension\<close> (\<^verbatim>\<open>db/instance-suspend.ts\<close>, the deletion job of \<^verbatim>\<open>services/billing-scheduler.ts\<close>): expiry, suspension, deletion.
  \<^item> \<open>InstanceTasks\<close> (\<^verbatim>\<open>db/instance-tasks.ts\<close>, \<^verbatim>\<open>workers/instance-task-lease.ts\<close>, the claims of \<^verbatim>\<open>workers/instanceTaskWorker.ts\<close>): the task
    queue as a world with a clock and fresh execution tokens; exclusion and leases along every run.
  \<^item> \<open>Transfers\<close> (\<^verbatim>\<open>db/transfers.ts\<close>, \<^verbatim>\<open>db/transfer-safety.ts\<close>, handlers of \<^verbatim>\<open>routes/transfers.ts\<close>): handing an instance to another user.
  \<^item> \<open>DistributedLock\<close> (\<^verbatim>\<open>lib/distributed-lock.ts\<close>): locks with an owner and an expiry, and the waiting loop.
  \<^item> \<open>Friendships\<close>, \<open>Addresses\<close>, \<open>AccessLimits\<close>, \<open>Strings\<close>: friend requests (\<^verbatim>\<open>db/friendships.ts\<close>), addresses (\<^verbatim>\<open>lib/ip-calculator.ts\<close>,
    \<^verbatim>\<open>lib/network-address.ts\<close>), allowances, multipliers, white lists and permissions, and the string functions of the language.

  \<^bold>\<open>Bounds and fuel.\<close> Retry loops recurse on the number of retries that the source writes (\<open>maxRetries\<close>, \<open>LOCK_RETRY_LIMIT\<close>, \<open>badge_retries\<close>).
  The waiting loop of \<open>DistributedLock\<close> recurses on the rounds its environment offers and is \<open>None\<close> when they run out; that
  \<open>waitTimeoutMs / retryIntervalMs\<close> rounds (rounded up) after the first are enough is a property (\<open>lock_wait_ends\<close>). Every other
  loop is structural.

  \<^bold>\<open>Third-party code.\<close> The parser of IPv6 addresses (package \<^verbatim>\<open>ip6addr\<close>) is a parameter of \<open>Addresses\<close> with its documented laws as named
  hypotheses (\<open>ip6_laws\<close>), which a concrete function satisfies in the witnesses.

  \<^bold>\<open>Not modelled.\<close> HTTP parsing and replies of the routes, lists with paging, mails and notifications, the clients of Incus, Caddy, payment
  gateways and Redis, monitoring, the web client and the host agent: input and output around the operations modelled here.
  Renewals and plan changes in the database, hourly and traffic settlement, recharge cards and member levels are not modelled.
\<close>

end
